(* ===== verification/Prelude.thy ===== *)
theory Prelude
  imports Main "HOL-Library.Word" "HOL-Library.Sublist"
begin

section \<open>Prelude: Go values, outcomes, and the lemmas the components share\<close>

text \<open>
  This theory holds what every component uses and no component owns: the widths of Go's
  integers, the three ways a Go call can end, and the facts about signed 32-bit and 64-bit
  arithmetic and about lists that the component theories call.

  \<^item> Go's \<open>int\<close> and \<open>int64\<close> are \<open>64 word\<close>, \<open>int32\<close> and \<open>uint32\<close> are \<open>32 word\<close>. Signed
    comparisons are \<open><s\<close> and \<open><=s\<close>; \<open>sint\<close> and \<open>uint\<close> read a word as a number.
  \<^item> A Go string is a sequence of bytes, so it is Isabelle's \<open>string\<close> (a \<open>char\<close> is a byte).
  \<^item> A Go call that returns a value and an error, and that may panic, yields an \<open>outcome\<close>.
    The zero value Go returns beside a non-nil error is not kept: no caller reads it.
\<close>

type_synonym int64 = "64 word"
type_synonym int32 = "32 word"
type_synonym uint32 = "32 word"

named_theorems op_defs \<open>definitions of the operations of a component\<close>
named_theorems inv_intros \<open>introduction rules for the invariants of the components\<close>

datatype ('e, 'a) outcome = Ok 'a | Err 'e | Panic string

lemma outcome_not_Ok_iff: "(\<forall>a. r \<noteq> Ok a) \<longleftrightarrow> (\<exists>e. r = Err e) \<or> (\<exists>m. r = Panic m)"
  by (cases r) auto

subsection \<open>Signed words\<close>

lemma int32_range: "- (2 ^ 31) \<le> sint (x :: int32) \<and> sint x < 2 ^ 31"
  using sint_range_size [of x] by (simp add: word_size)

lemma int64_range: "- (2 ^ 63) \<le> sint (x :: int64) \<and> sint x < 2 ^ 63"
  using sint_range_size [of x] by (simp add: word_size)

lemma signed_take_bit_31_id:
  "- (2 ^ 31) \<le> k \<Longrightarrow> k < 2 ^ 31 \<Longrightarrow> signed_take_bit 31 k = (k :: int)"
  by (simp add: signed_take_bit_int_eq_self)

lemma signed_take_bit_31_wrap:
  assumes "2 ^ 31 \<le> (k :: int)" and "k < 2 ^ 32"
  shows "signed_take_bit 31 k = k - 2 ^ 32"
proof -
  have "signed_take_bit 31 k = signed_take_bit 31 (k - 2 ^ 32)"
    by (subst signed_take_bit_eq_iff_take_bit_eq) (simp add: take_bit_eq_mod)
  also have "\<dots> = k - 2 ^ 32"
    using assms by (intro signed_take_bit_int_eq_self) auto
  finally show ?thesis .
qed

text \<open>
  Adding two \<open>int32\<close> values when the first is not negative: the sum is exact, or it passed
  the largest \<open>int32\<close> and wrapped to a negative number.
\<close>

lemma sint_add_int32:
  assumes "0 \<le> sint (a :: int32)"
  shows "sint (a + b) =
    (if sint a + sint b < 2 ^ 31 then sint a + sint b else sint a + sint b - 2 ^ 32)"
proof -
  have "sint (a + b) = signed_take_bit 31 (sint a + sint b)"
    by (simp add: sint_word_ariths)
  moreover have "- (2 ^ 31) \<le> sint a + sint b" and "sint a + sint b < 2 ^ 32"
    using assms int32_range [of a] int32_range [of b] by simp_all
  ultimately show ?thesis
    by (cases "sint a + sint b < 2 ^ 31")
       (simp_all add: signed_take_bit_31_id signed_take_bit_31_wrap)
qed

lemma add_int32_nonneg_iff:
  assumes "0 \<le> sint (a :: int32)"
  shows "\<not> a + b <s 0 \<longleftrightarrow> 0 \<le> sint a + sint b \<and> sint a + sint b < 2 ^ 31"
  using sint_add_int32 [OF assms, of b] int32_range [of a] int32_range [of b]
  by (auto simp: word_sless_alt split: if_splits)

lemma sint_add_int32_exact:
  assumes "- (2 ^ 31) \<le> sint (a :: int32) + sint b" and "sint a + sint b < 2 ^ 31"
  shows "sint (a + b) = sint a + sint b"
  using assms by (simp add: sint_word_ariths signed_take_bit_int_eq_self)

lemma sint_add_int64:
  assumes "- (2 ^ 63) \<le> sint (a :: int64) + sint b" and "sint a + sint b < 2 ^ 63"
  shows "sint (a + b) = sint a + sint b"
  using assms by (simp add: sint_word_ariths signed_take_bit_int_eq_self)

lemma sint_word_of_int64:
  "- (2 ^ 63) \<le> k \<Longrightarrow> k < 2 ^ 63 \<Longrightarrow> sint (word_of_int k :: int64) = k"
  by (simp add: sint_sbintrunc' signed_take_bit_int_eq_self)

lemma sint_ucast_uint32 [simp]: "sint (ucast (x :: uint32) :: int64) = uint x"
proof -
  have "0 \<le> uint x" and "uint x < 2 ^ 63"
    using uint_lt2p [of x] by simp_all
  then have "signed_take_bit 63 (uint x) = uint x"
    by (intro signed_take_bit_int_eq_self) (simp_all add: order_trans [OF _ uint_ge_0])
  then show ?thesis
    by (simp add: signed_ucast_eq)
qed

subsection \<open>Runs of bounded length\<close>

text \<open>If the runs from a state are no longer than a bound, one of them goes as far as it can.\<close>

lemma bounded_run_ends:
  assumes "\<And>n c. (R ^^ n) x c \<Longrightarrow> n \<le> b"
  obtains n c where "(R ^^ n) x c" and "\<nexists>c'. R c c'"
proof -
  let ?reach = "\<lambda>n. \<exists>c. (R ^^ n) x c"
  have "?reach 0" by auto
  moreover have "\<forall>n. ?reach n \<longrightarrow> n \<le> b" using assms by blast
  ultimately obtain n where n: "?reach n" "\<forall>m. ?reach m \<longrightarrow> m \<le> n"
    using Nat.ex_has_greatest_nat [of ?reach 0 b] by auto
  then obtain c where c: "(R ^^ n) x c" by blast
  have "\<nexists>c'. R c c'"
  proof
    assume "\<exists>c'. R c c'"
    then obtain c' where "R c c'" by blast
    with c have "?reach (Suc n)" by (blast intro: relpowp_Suc_I)
    with n(2) have "Suc n \<le> n" by blast
    then show False by simp
  qed
  with c that show thesis by blast
qed

end
