(* ===== verification/Go_Strings.thy ===== *)
theory Go_Strings
  imports Prelude
begin

section \<open>The parts of Go's string library the program calls\<close>

text \<open>
  Byte-level models of \<open>strings.TrimSpace\<close>, \<open>HasPrefix\<close>, \<open>HasSuffix\<close>, \<open>TrimPrefix\<close>,
  \<open>Split\<close>, \<open>SplitN\<close>, \<open>Contains\<close>, \<open>ToLower\<close> and of the verb \<open>%d\<close> of \<open>fmt.Sprintf\<close>.
  A Go string is a byte sequence, so \<open>length\<close> is Go's \<open>len\<close> and slicing is \<open>take\<close> and
  \<open>drop\<close>.
\<close>

subsection \<open>White space\<close>

text \<open>
  \<open>unicode.IsSpace\<close> holds of 25 code points. In UTF-8 six are one byte, two are two bytes and
  seventeen are three bytes; the predicates below list the encodings by their length. A lead
  byte is never a continuation byte, so matching the encodings at either end of the string
  agrees with decoding runes there, also in a string that is not valid UTF-8.
\<close>

definition is_space1 :: "char \<Rightarrow> bool" where
  "is_space1 a \<longleftrightarrow> a \<in> {CHR 0x09, CHR 0x0A, CHR 0x0B, CHR 0x0C, CHR 0x0D, CHR 0x20}"

definition is_space2 :: "char \<Rightarrow> char \<Rightarrow> bool" where
  "is_space2 a b \<longleftrightarrow> a = CHR 0xC2 \<and> b \<in> {CHR 0x85, CHR 0xA0}"

definition is_space3 :: "char \<Rightarrow> char \<Rightarrow> char \<Rightarrow> bool" where
  "is_space3 a b c \<longleftrightarrow>
     (a, b, c) \<in> {(CHR 0xE1, CHR 0x9A, CHR 0x80), (CHR 0xE2, CHR 0x81, CHR 0x9F),
                  (CHR 0xE3, CHR 0x80, CHR 0x80)} \<or>
     (a = CHR 0xE2 \<and> b = CHR 0x80 \<and>
      c \<in> {CHR 0x80, CHR 0x81, CHR 0x82, CHR 0x83, CHR 0x84, CHR 0x85, CHR 0x86, CHR 0x87,
            CHR 0x88, CHR 0x89, CHR 0x8A, CHR 0xA8, CHR 0xA9, CHR 0xAF})"

fun trim_by ::
  "(char \<Rightarrow> bool) \<Rightarrow> (char \<Rightarrow> char \<Rightarrow> bool) \<Rightarrow> (char \<Rightarrow> char \<Rightarrow> char \<Rightarrow> bool) \<Rightarrow> string \<Rightarrow> string"
where
  "trim_by s1 s2 s3 (a # b # c # s) =
     (if s1 a then trim_by s1 s2 s3 (b # c # s)
      else if s2 a b then trim_by s1 s2 s3 (c # s)
      else if s3 a b c then trim_by s1 s2 s3 s
      else a # b # c # s)"
| "trim_by s1 s2 s3 [a, b] =
     (if s1 a then trim_by s1 s2 s3 [b] else if s2 a b then [] else [a, b])"
| "trim_by s1 s2 s3 [a] = (if s1 a then [] else [a])"
| "trim_by s1 s2 s3 [] = []"

definition trim_left :: "string \<Rightarrow> string" where
  "trim_left s = trim_by is_space1 is_space2 is_space3 s"

definition trim_right :: "string \<Rightarrow> string" where
  "trim_right s =
     rev (trim_by is_space1 (\<lambda>b a. is_space2 a b) (\<lambda>c b a. is_space3 a b c) (rev s))"

definition trim_space :: "string \<Rightarrow> string" where
  "trim_space s = trim_right (trim_left s)"

text \<open>\<open>strings.TrimSpace(s) == ""\<close>, the test the validators make.\<close>

abbreviation blank :: "string \<Rightarrow> bool" where
  "blank s \<equiv> trim_space s = []"

lemma trim_by_suffix: "suffix (trim_by s1 s2 s3 s) s"
  by (induction s1 s2 s3 s rule: trim_by.induct) (auto intro: suffix_ConsI)

lemma trim_space_infix: "\<exists>xs ys. s = xs @ trim_space s @ ys"
proof -
  obtain xs where xs: "s = xs @ trim_left s"
    using trim_by_suffix [of is_space1 is_space2 is_space3 s]
    by (auto simp: trim_left_def suffix_def)
  have "suffix (rev (trim_right t)) (rev t)" for t
    by (simp add: trim_right_def trim_by_suffix)
  then obtain ys where "rev (trim_left s) = ys @ rev (trim_space s)"
    by (auto simp: trim_space_def suffix_def)
  then have "trim_left s = trim_space s @ rev ys"
    by (metis rev_append rev_rev_ident)
  with xs show ?thesis by metis
qed

lemma blank_Nil [simp]: "blank []"
  by (simp add: trim_space_def trim_left_def trim_right_def)

lemma not_blank_nonempty: "\<not> blank s \<Longrightarrow> s \<noteq> []"
  by auto

subsection \<open>Prefixes, suffixes, infixes and splitting\<close>

definition trim_prefix :: "string \<Rightarrow> string \<Rightarrow> string" where
  "trim_prefix s p = (if prefix p s then drop (length p) s else s)"

definition contains :: "string \<Rightarrow> string \<Rightarrow> bool" where
  "contains s sub \<longleftrightarrow> sublist sub s"

fun split_on :: "char \<Rightarrow> string \<Rightarrow> string list" where
  "split_on c [] = [[]]"
| "split_on c (x # xs) =
     (if x = c then [] # split_on c xs
      else (case split_on c xs of [] \<Rightarrow> [[x]] | y # ys \<Rightarrow> (x # y) # ys))"

text \<open>\<open>strings.SplitN(s, c, 2)\<close>.\<close>

definition split_on2 :: "char \<Rightarrow> string \<Rightarrow> string list" where
  "split_on2 c s =
     (case dropWhile (\<lambda>x. x \<noteq> c) s of
        [] \<Rightarrow> [s]
      | _ # rest \<Rightarrow> [takeWhile (\<lambda>x. x \<noteq> c) s, rest])"

text \<open>\<open>strings.Join(xs, sep)\<close>.\<close>

fun join_with :: "string \<Rightarrow> string list \<Rightarrow> string" where
  "join_with sep [] = []"
| "join_with sep [x] = x"
| "join_with sep (x # y # ys) = x @ sep @ join_with sep (y # ys)"

lemma split_on_not_Nil [simp]: "split_on c s \<noteq> []"
  by (induction s) (auto split: list.splits)

lemma split_on_none: "c \<notin> set xs \<Longrightarrow> split_on c xs = [xs]"
  by (induction xs) auto

lemma split_on_append: "c \<notin> set xs \<Longrightarrow> split_on c (xs @ c # ys) = xs # split_on c ys"
  by (induction xs) auto

lemma hd_split_on: "hd (split_on c s) = takeWhile (\<lambda>x. x \<noteq> c) s"
proof (induction s)
  case (Cons x xs)
  then show ?case
    by (cases "split_on c xs") auto
qed simp

lemma hd_split_on2: "hd (split_on2 c s) = takeWhile (\<lambda>x. x \<noteq> c) s"
proof (cases "dropWhile (\<lambda>x. x \<noteq> c) s")
  case Nil
  then have "takeWhile (\<lambda>x. x \<noteq> c) s = s"
    by (simp add: takeWhile_eq_all_conv)
  with Nil show ?thesis
    by (simp only: split_on2_def list.case list.sel)
qed (simp add: split_on2_def)

lemma split_on2_not_Nil [simp]: "split_on2 c s \<noteq> []"
  by (simp add: split_on2_def split: list.splits)

lemma trim_prefix_append [simp]: "trim_prefix (p @ s) p = s"
  by (simp add: trim_prefix_def)

subsection \<open>Decimal numbers\<close>

definition digit_char :: "nat \<Rightarrow> char" where
  "digit_char d = char_of (48 + d)"

fun nat_digits :: "nat \<Rightarrow> string" where
  "nat_digits n =
     (if n < 10 then [digit_char n] else nat_digits (n div 10) @ [digit_char (n mod 10)])"

declare nat_digits.simps [simp del]

text \<open>\<open>fmt.Sprintf("%d", i)\<close>.\<close>

definition itoa :: "int \<Rightarrow> string" where
  "itoa i = (if i < 0 then CHR ''-'' # nat_digits (nat (- i)) else nat_digits (nat i))"

definition digits_value :: "string \<Rightarrow> nat" where
  "digits_value s = foldl (\<lambda>v c. 10 * v + (of_char c - 48)) 0 s"

lemma of_digit_char: "d < 10 \<Longrightarrow> of_char (digit_char d) = 48 + d"
  by (simp add: digit_char_def)

lemma digits_value_nat_digits: "digits_value (nat_digits n) = n"
proof (induction n rule: nat_digits.induct)
  case (1 n)
  show ?case
  proof (cases "n < 10")
    case True
    then show ?thesis
      by (simp add: nat_digits.simps [of n] digits_value_def of_digit_char)
  next
    case False
    with "1.IH" show ?thesis
      by (simp add: nat_digits.simps [of n] digits_value_def of_digit_char)
  qed
qed

lemma nat_digits_inject [simp]: "nat_digits m = nat_digits n \<longleftrightarrow> m = n"
  by (metis digits_value_nat_digits)

lemma nat_digits_set: "c \<in> set (nat_digits n) \<Longrightarrow> \<exists>d < 10. c = digit_char d"
proof (induction n rule: nat_digits.induct)
  case (1 n)
  then show ?case
    by (cases "n < 10") (auto simp: nat_digits.simps [of n] intro: exI [of _ "n mod 10"])
qed

lemma nat_digits_not_Nil [simp]: "nat_digits n \<noteq> []"
  by (subst nat_digits.simps) simp

lemma digit_char_neq:
  assumes "d < 10" and "of_char c < (48 :: nat) \<or> 57 < (of_char c :: nat)"
  shows "digit_char d \<noteq> c"
  using assms of_digit_char [OF assms(1)] by auto

lemma not_in_nat_digits:
  "of_char c < (48 :: nat) \<or> 57 < (of_char c :: nat) \<Longrightarrow> c \<notin> set (nat_digits n)"
  using nat_digits_set digit_char_neq by blast

lemma minus_notin_nat_digits [simp]: "CHR ''-'' \<notin> set (nat_digits n)"
  by (rule not_in_nat_digits) simp

lemma itoa_not_Nil [simp]: "itoa i \<noteq> []"
  by (simp add: itoa_def)

lemma not_in_itoa:
  "c \<noteq> CHR ''-'' \<Longrightarrow> of_char c < (48 :: nat) \<or> 57 < (of_char c :: nat) \<Longrightarrow> c \<notin> set (itoa i)"
  by (auto simp: itoa_def not_in_nat_digits)

lemma itoa_inject [simp]: "itoa i = itoa j \<longleftrightarrow> i = j"
proof
  assume eq: "itoa i = itoa j"
  have head: "nat_digits n \<noteq> CHR ''-'' # s" for n s
    using minus_notin_nat_digits [of n] by (metis list.set_intros(1))
  from eq show "i = j"
    by (auto simp: itoa_def head head [symmetric] split: if_splits)
qed simp

text \<open>
  A key made of two numbers with a separator that is no digit: the numbers can be read back.
\<close>

lemma append_sep_inject:
  assumes "c \<notin> set xs" and "c \<notin> set xs'"
  shows "xs @ c # ys = xs' @ c # ys' \<longleftrightarrow> xs = xs' \<and> ys = ys'"
  using assms
proof (induction xs arbitrary: xs')
  case Nil
  then show ?case by (cases xs') auto
next
  case (Cons x xs)
  then show ?case by (cases xs') auto
qed

subsection \<open>Lower case\<close>

text \<open>
  \<open>strings.ToLower\<close> as far as it can yield an ASCII string: the ASCII capitals, and the two
  other code points whose lower case is ASCII, U+0130 (to \<open>i\<close>) and U+212A (to \<open>k\<close>). Every other
  non-ASCII rune stays non-ASCII, so its bytes are kept here; a comparison of the result with
  an ASCII literal is exact.
\<close>

definition lower_char :: "char \<Rightarrow> char" where
  "lower_char c = (let n = of_char c :: nat in if 65 \<le> n \<and> n \<le> 90 then char_of (n + 32) else c)"

fun to_lower :: "string \<Rightarrow> string" where
  "to_lower (a # b # c # s) =
     (if a = CHR 0xC4 \<and> b = CHR 0xB0 then CHR ''i'' # to_lower (c # s)
      else if a = CHR 0xE2 \<and> b = CHR 0x84 \<and> c = CHR 0xAA then CHR ''k'' # to_lower s
      else lower_char a # to_lower (b # c # s))"
| "to_lower [a, b] =
     (if a = CHR 0xC4 \<and> b = CHR 0xB0 then ''i'' else [lower_char a, lower_char b])"
| "to_lower [a] = [lower_char a]"
| "to_lower [] = []"

end
