(* ===== verification/Domain.thy ===== *)
theory Domain
  imports Go_Strings
begin

section \<open>The domain: products, commands and their validation\<close>

text \<open>
  \<open>internal/domain/product.go\<close>. The three structs are records with Go's field names (the
  command's fields carry a \<open>c\<close> or a \<open>u\<close>, since HOL field names are global), a nil pointer of
  an update command is \<open>None\<close>, and each \<open>Validate\<close> is a function to \<open>go_error option\<close>, \<open>None\<close>
  for nil, with the checks in the order of the source.
\<close>

subsection \<open>Errors\<close>

text \<open>
  The error values the program tells apart. The five \<open>Err\<close> constructors are the package's
  sentinels; \<open>SqlErrNoRows\<close> and \<open>RedisNil\<close> are the two sentinels of libraries it tests for;
  \<open>Plain\<close> is an \<open>errors.New\<close> or a library's error, known by its text; \<open>Wrap pre e post\<close> is
  \<open>fmt.Errorf("pre%wpost", e)\<close>; \<open>Joined\<close> is \<open>errors.Join\<close>.
\<close>

datatype go_error =
    ErrProductNotFound
  | ErrInvalidPagination
  | ErrProductAlreadyExists
  | ErrInvalidProduct
  | ErrInsufficientStock
  | SqlErrNoRows
  | RedisNil
  | Plain string
  | Wrap string go_error string
  | Joined "go_error list"

type_synonym 'a result = "(go_error, 'a) outcome"

text \<open>\<open>err.Error()\<close>.\<close>

fun error_text :: "go_error \<Rightarrow> string" where
  "error_text ErrProductNotFound = ''product not found''"
| "error_text ErrInvalidPagination = ''invalid pagination''"
| "error_text ErrProductAlreadyExists = ''product already exists''"
| "error_text ErrInvalidProduct = ''invalid product data''"
| "error_text ErrInsufficientStock = ''insufficient stock''"
| "error_text SqlErrNoRows = ''sql: no rows in result set''"
| "error_text RedisNil = ''redis: nil''"
| "error_text (Plain s) = s"
| "error_text (Wrap pre e post) = pre @ error_text e @ post"
| "error_text (Joined es) = join_with [CHR 0x0A] (map error_text es)"

text \<open>
  \<open>errors.Is(err, target)\<close>. Every target in the program is a sentinel, and a sentinel equals
  only itself, so equality of values is Go's equality of pointers there.
\<close>

fun errors_is :: "go_error \<Rightarrow> go_error \<Rightarrow> bool" where
  "errors_is (Wrap pre e post) t \<longleftrightarrow> Wrap pre e post = t \<or> errors_is e t"
| "errors_is (Joined es) t \<longleftrightarrow> Joined es = t \<or> list_ex (\<lambda>e. errors_is e t) es"
| "errors_is e t \<longleftrightarrow> e = t"

fun domain_sentinel :: "go_error \<Rightarrow> bool" where
  "domain_sentinel ErrProductNotFound = True"
| "domain_sentinel ErrInvalidPagination = True"
| "domain_sentinel ErrProductAlreadyExists = True"
| "domain_sentinel ErrInvalidProduct = True"
| "domain_sentinel ErrInsufficientStock = True"
| "domain_sentinel _ = False"

lemma errors_is_refl [simp]: "errors_is e e"
  by (cases e) auto

subsection \<open>Products and commands\<close>

record product =
  ID :: string
  SKU :: string
  Name :: string
  Description :: string
  PriceCents :: int64
  Currency :: string
  Stock :: int32
  Active :: bool

record create_cmd =
  cSKU :: string
  cName :: string
  cDescription :: string
  cPriceCents :: int64
  cCurrency :: string
  cStock :: int32

record update_cmd =
  uID :: string
  uName :: "string option"
  uDescription :: "string option"
  uPriceCents :: "int64 option"
  uActive :: "bool option"

subsection \<open>Validation\<close>

definition product_validate :: "product \<Rightarrow> go_error option" where
  "product_validate p =
     (if ID p = [] then Some (Plain ''product id is required'')
      else if SKU p = [] then Some (Plain ''product sku is required'')
      else if Name p = [] then Some (Plain ''product name is required'')
      else if PriceCents p <s 0 then Some (Plain ''product price must be >= 0'')
      else if Currency p = [] then Some (Plain ''product currency is required'')
      else if Stock p <s 0 then Some (Plain ''product stock must be >= 0'')
      else None)"

definition create_validate :: "create_cmd \<Rightarrow> go_error option" where
  "create_validate c =
     (if trim_space (cSKU c) = [] then Some (Wrap [] ErrInvalidProduct '': sku is required'')
      else if trim_space (cName c) = [] then Some (Wrap [] ErrInvalidProduct '': name is required'')
      else if cPriceCents c <s 0 then Some (Wrap [] ErrInvalidProduct '': price must be >= 0'')
      else if trim_space (cCurrency c) = []
        then Some (Wrap [] ErrInvalidProduct '': currency is required'')
      else if cStock c <s 0 then Some (Wrap [] ErrInvalidProduct '': stock must be >= 0'')
      else None)"

definition update_validate :: "update_cmd \<Rightarrow> go_error option" where
  "update_validate c =
     (if trim_space (uID c) = [] then Some (Wrap [] ErrInvalidProduct '': id is required'')
      else if (case uName c of None \<Rightarrow> False | Some n \<Rightarrow> trim_space n = [])
        then Some (Wrap [] ErrInvalidProduct '': name cannot be empty'')
      else if (case uPriceCents c of None \<Rightarrow> False | Some pc \<Rightarrow> pc <s 0)
        then Some (Wrap [] ErrInvalidProduct '': price must be >= 0'')
      else None)"

text \<open>A product that passes its own \<open>Validate\<close>: the invariant the repositories keep.\<close>

abbreviation product_wf :: "product \<Rightarrow> bool" where
  "product_wf p \<equiv> product_validate p = None"

lemma product_wf_iff:
  "product_wf p \<longleftrightarrow> ID p \<noteq> [] \<and> SKU p \<noteq> [] \<and> Name p \<noteq> [] \<and> Currency p \<noteq> [] \<and>
     0 \<le> sint (PriceCents p) \<and> 0 \<le> sint (Stock p)"
  by (auto simp: product_validate_def word_sless_alt)

lemma create_validate_ok_iff:
  "create_validate c = None \<longleftrightarrow>
     \<not> blank (cSKU c) \<and> \<not> blank (cName c) \<and> \<not> blank (cCurrency c) \<and>
     0 \<le> sint (cPriceCents c) \<and> 0 \<le> sint (cStock c)"
  by (auto simp: create_validate_def word_sless_alt)

lemma update_validate_ok_iff:
  "update_validate c = None \<longleftrightarrow>
     \<not> blank (uID c) \<and> (\<forall>n. uName c = Some n \<longrightarrow> \<not> blank n) \<and>
     (\<forall>pc. uPriceCents c = Some pc \<longrightarrow> 0 \<le> sint pc)"
  by (auto simp: update_validate_def word_sless_alt split: option.splits)

text \<open>Every error of a command's validation wraps \<open>ErrInvalidProduct\<close>, and no other sentinel.\<close>

lemma create_validate_err:
  "create_validate c = Some e \<Longrightarrow> \<exists>why. e = Wrap [] ErrInvalidProduct why"
  by (auto simp: create_validate_def split: if_splits)

lemma update_validate_err:
  "update_validate c = Some e \<Longrightarrow> \<exists>why. e = Wrap [] ErrInvalidProduct why"
  by (auto simp: update_validate_def split: if_splits)

subsection \<open>The product a command makes\<close>

text \<open>
  What both stores build for a creation under a new id, and the field-wise effect of an update
  command: a field whose pointer is nil keeps its value.
\<close>

definition product_of_create :: "string \<Rightarrow> create_cmd \<Rightarrow> product" where
  "product_of_create i c =
     \<lparr>ID = i, SKU = cSKU c, Name = cName c, Description = cDescription c,
      PriceCents = cPriceCents c, Currency = cCurrency c, Stock = cStock c, Active = True\<rparr>"

definition apply_update :: "update_cmd \<Rightarrow> product \<Rightarrow> product" where
  "apply_update c p =
     (let p = (case uName c of None \<Rightarrow> p | Some n \<Rightarrow> p\<lparr>Name := n\<rparr>);
          p = (case uDescription c of None \<Rightarrow> p | Some d \<Rightarrow> p\<lparr>Description := d\<rparr>);
          p = (case uPriceCents c of None \<Rightarrow> p | Some pc \<Rightarrow> p\<lparr>PriceCents := pc\<rparr>)
      in (case uActive c of None \<Rightarrow> p | Some a \<Rightarrow> p\<lparr>Active := a\<rparr>))"

lemma product_of_create_sel [simp]:
  "ID (product_of_create i c) = i"
  "SKU (product_of_create i c) = cSKU c"
  "Stock (product_of_create i c) = cStock c"
  by (simp_all add: product_of_create_def)

lemma apply_update_sel [simp]:
  "ID (apply_update c p) = ID p"
  "SKU (apply_update c p) = SKU p"
  "Currency (apply_update c p) = Currency p"
  "Stock (apply_update c p) = Stock p"
  "Name (apply_update c p) = case_option (Name p) id (uName c)"
  "Description (apply_update c p) = case_option (Description p) id (uDescription c)"
  "PriceCents (apply_update c p) = case_option (PriceCents p) id (uPriceCents c)"
  "Active (apply_update c p) = case_option (Active p) id (uActive c)"
  by (auto simp: apply_update_def Let_def split: option.splits)

lemma product_of_create_wf:
  "create_validate c = None \<Longrightarrow> i \<noteq> [] \<Longrightarrow> product_wf (product_of_create i c)"
  by (auto simp: product_wf_iff create_validate_ok_iff product_of_create_def)

lemma apply_update_wf:
  "update_validate c = None \<Longrightarrow> product_wf p \<Longrightarrow> product_wf (apply_update c p)"
  by (auto simp: product_wf_iff update_validate_ok_iff split: option.splits)

lemma stock_update_sel:
  "ID (p\<lparr>Stock := n\<rparr>) = ID p" "SKU (p\<lparr>Stock := n\<rparr>) = SKU p"
  by simp_all

lemma stock_update_wf:
  "product_wf p \<Longrightarrow> \<not> n <s 0 \<Longrightarrow> product_wf (p\<lparr>Stock := n\<rparr>)"
  by (auto simp: product_wf_iff word_sless_alt)

end
