(* ===== verification/Metrics.thy ===== *)
theory Metrics
  imports Domain
begin

section \<open>Metrics: the collectors, their registration, and the calls on them\<close>

text \<open>
  \<open>internal/observability/metrics.go\<close>. The six collectors are a datatype, their options a
  table in the order of \<open>newMetrics\<close>, and \<open>MustMetrics\<close> a step on the package's two
  variables. Prometheus itself is not modelled: what an operation does to its collectors is
  the list of calls it makes, one \<open>metric_event\<close> for each \<open>WithLabelValues(...).Inc()\<close> and
  \<open>WithLabelValues(...).Observe(...)\<close> (the observed duration is left out).
\<close>

datatype metric_vec =
    CatalogRequestsTotal
  | CatalogRequestDuration
  | GRPCRequestsTotal
  | GRPCRequestDuration
  | CacheRequestsTotal
  | CacheRequestDuration

datatype metric_kind = CounterVec | HistogramVec

record metric_opts =
  mo_kind :: metric_kind
  mo_namespace :: string
  mo_subsystem :: string
  mo_name :: string
  mo_labels :: "string list"

definition newMetrics :: "(metric_vec \<times> metric_opts) list" where
  "newMetrics =
    [(CatalogRequestsTotal,
       \<lparr>mo_kind = CounterVec, mo_namespace = ''catalog'', mo_subsystem = ''service'',
        mo_name = ''requests_total'', mo_labels = [''method'', ''status'']\<rparr>),
     (CatalogRequestDuration,
       \<lparr>mo_kind = HistogramVec, mo_namespace = ''catalog'', mo_subsystem = ''service'',
        mo_name = ''request_duration_seconds'', mo_labels = [''method'']\<rparr>),
     (GRPCRequestsTotal,
       \<lparr>mo_kind = CounterVec, mo_namespace = ''catalog'', mo_subsystem = ''grpc'',
        mo_name = ''requests_total'', mo_labels = [''method'', ''code'']\<rparr>),
     (GRPCRequestDuration,
       \<lparr>mo_kind = HistogramVec, mo_namespace = ''catalog'', mo_subsystem = ''grpc'',
        mo_name = ''request_duration_seconds'', mo_labels = [''method'']\<rparr>),
     (CacheRequestsTotal,
       \<lparr>mo_kind = CounterVec, mo_namespace = ''catalog'', mo_subsystem = ''cache'',
        mo_name = ''requests_total'', mo_labels = [''method'', ''result'']\<rparr>),
     (CacheRequestDuration,
       \<lparr>mo_kind = HistogramVec, mo_namespace = ''catalog'', mo_subsystem = ''cache'',
        mo_name = ''request_duration_seconds'', mo_labels = [''method'', ''operation'']\<rparr>)]"

subsection \<open>The calls on the collectors\<close>

datatype metric_event = Inc metric_vec "string list" | Observe metric_vec "string list"

text \<open>
  \<open>WithLabelValues\<close> panics when the number of values is not the number of labels the collector
  was declared with, and a counter has no \<open>Observe\<close>: an event is well labelled when neither
  goes wrong.
\<close>

fun well_labelled :: "metric_event \<Rightarrow> bool" where
  "well_labelled (Inc v ls) =
     (case map_of newMetrics v of
        None \<Rightarrow> False
      | Some d \<Rightarrow> mo_kind d = CounterVec \<and> length ls = length (mo_labels d))"
| "well_labelled (Observe v ls) =
     (case map_of newMetrics v of
        None \<Rightarrow> False
      | Some d \<Rightarrow> mo_kind d = HistogramVec \<and> length ls = length (mo_labels d))"

lemma well_labelled_simps [simp]:
  "well_labelled (Inc CatalogRequestsTotal ls) \<longleftrightarrow> length ls = 2"
  "well_labelled (Inc GRPCRequestsTotal ls) \<longleftrightarrow> length ls = 2"
  "well_labelled (Inc CacheRequestsTotal ls) \<longleftrightarrow> length ls = 2"
  "well_labelled (Observe CatalogRequestDuration ls) \<longleftrightarrow> length ls = 1"
  "well_labelled (Observe GRPCRequestDuration ls) \<longleftrightarrow> length ls = 1"
  "well_labelled (Observe CacheRequestDuration ls) \<longleftrightarrow> length ls = 2"
  by (simp_all add: newMetrics_def numeral_2_eq_2)

declare well_labelled.simps [simp del]

fun event_vec :: "metric_event \<Rightarrow> metric_vec" where
  "event_vec (Inc v ls) = v"
| "event_vec (Observe v ls) = v"

text \<open>The calls a repository may make: well labelled, and on the cache's collectors only.\<close>

definition cache_event :: "metric_event \<Rightarrow> bool" where
  "cache_event e \<longleftrightarrow>
     well_labelled e \<and> event_vec e \<in> {CacheRequestsTotal, CacheRequestDuration}"

text \<open>The values a counter was incremented with, in order.\<close>

fun inc_labels :: "metric_vec \<Rightarrow> metric_event list \<Rightarrow> string list list" where
  "inc_labels v [] = []"
| "inc_labels v (Inc w ls # es) = (if v = w then ls # inc_labels v es else inc_labels v es)"
| "inc_labels v (Observe w ls # es) = inc_labels v es"

lemma inc_labels_append [simp]: "inc_labels v (xs @ ys) = inc_labels v xs @ inc_labels v ys"
  by (induction v xs rule: inc_labels.induct) auto

lemma inc_labels_cache_events:
  "list_all cache_event ms \<Longrightarrow> v \<notin> {CacheRequestsTotal, CacheRequestDuration} \<Longrightarrow>
     inc_labels v ms = []"
  by (induction v ms rule: inc_labels.induct) (auto simp: cache_event_def)

lemma cache_events_well_labelled: "list_all cache_event ms \<Longrightarrow> list_all well_labelled ms"
  by (auto simp: list_all_iff cache_event_def)

subsection \<open>MustMetrics\<close>

text \<open>
  The package's state: the \<open>sync.Once\<close>, the instance it guards, and the vectors handed to
  \<open>prometheus.MustRegister\<close> so far (which panics on a second registration of a name).
\<close>

record metrics_state =
  metricsOnce :: bool
  metricsInstance :: "(metric_vec \<times> metric_opts) list option"
  registered :: "metric_opts list"

definition metrics_init :: metrics_state where
  "metrics_init = \<lparr>metricsOnce = False, metricsInstance = None, registered = []\<rparr>"

definition MustMetrics ::
  "metrics_state \<Rightarrow> (metric_vec \<times> metric_opts) list option \<times> metrics_state"
where
  "MustMetrics st =
     (let st = (if metricsOnce st then st
                else st\<lparr>metricsOnce := True, metricsInstance := Some newMetrics,
                        registered := registered st @ map snd newMetrics\<rparr>)
      in (metricsInstance st, st))"

fun MustMetrics_n :: "nat \<Rightarrow> metrics_state \<Rightarrow> metrics_state" where
  "MustMetrics_n 0 st = st"
| "MustMetrics_n (Suc n) st = MustMetrics_n n (snd (MustMetrics st))"

lemma MustMetrics_n_done: "metricsOnce st \<Longrightarrow> MustMetrics_n n st = st"
  by (induction n) (auto simp: MustMetrics_def)

text \<open>
  However often \<open>MustMetrics\<close> is called from the start (at least once), the collectors
  are registered exactly once each, under pairwise different fully qualified names, and every
  call returns the same instance.
\<close>

theorem MustMetrics_registers_once:
  "registered (MustMetrics_n (Suc n) metrics_init) = map snd newMetrics \<and>
   fst (MustMetrics (MustMetrics_n n metrics_init)) = Some newMetrics \<and>
   distinct (map (\<lambda>d. (mo_namespace d, mo_subsystem d, mo_name d))
               (registered (MustMetrics_n (Suc n) metrics_init)))"
proof -
  let ?st = "snd (MustMetrics metrics_init)"
  have st: "metricsOnce ?st" "registered ?st = map snd newMetrics"
    "metricsInstance ?st = Some newMetrics"
    by (simp_all add: MustMetrics_def metrics_init_def)
  have "fst (MustMetrics (MustMetrics_n n metrics_init)) = Some newMetrics"
  proof (cases n)
    case 0
    then show ?thesis by (simp add: MustMetrics_def metrics_init_def)
  next
    case (Suc k)
    with st show ?thesis by (simp add: MustMetrics_n_done) (simp add: MustMetrics_def)
  qed
  moreover have "distinct (map (\<lambda>d. (mo_namespace d, mo_subsystem d, mo_name d)) (map snd newMetrics))"
    by (simp add: newMetrics_def)
  ultimately show ?thesis
    using st by (simp add: MustMetrics_n_done)
qed

end
