(* ===== verification/Repository.thy ===== *)
theory Repository
  imports Metrics
begin

section \<open>The repository interface of the catalog service\<close>

text \<open>
  \<open>internal/service/catalog/catalog.go\<close> declares \<open>ProductRepository\<close>; it has three
  implementations, of which the service knows only the five methods. The Go interface is a
  record of five functions over the implementation's state, and what the service relies on is
  stated three times:

  \<^item> \<open>safe_repository\<close>: every method keeps the implementation's invariant, does not panic on
    the arguments the service passes, hands out products that pass \<open>Validate\<close> only, and
    labels its metrics as declared;
  \<^item> \<open>write_repository\<close>: in addition the writing methods are those of a catalogue, a list of
    products with different ids in listing order; what the reading methods answer is left open
    (a cache may answer with an older version). An error that is one of the domain's
    sentinels leaves the catalogue unchanged (other errors, such as that of a failed commit,
    leave that open);
  \<^item> \<open>spec_repository\<close>: in addition the reading methods answer from the catalogue as it is.
\<close>

text \<open>
  A method runs in a context, takes a state and returns an outcome, the metric calls it made
  and the next state. The context is what \<open>ctx.Err()\<close> says when the method asks: nil, or one
  of the package's two errors.
\<close>

datatype ctx_done = Canceled | DeadlineExceeded

type_synonym context_err = "ctx_done option"

fun ctx_error :: "ctx_done \<Rightarrow> go_error" where
  "ctx_error Canceled = Plain ''context canceled''"
| "ctx_error DeadlineExceeded = Plain ''context deadline exceeded''"

lemma ctx_error_simps [simp]:
  "ErrProductNotFound \<noteq> ctx_error d" "SqlErrNoRows \<noteq> ctx_error d" "\<not> domain_sentinel (ctx_error d)"
  by (cases d; simp)+

type_synonym ('s, 'a) act = "'s \<Rightarrow> 'a result \<times> metric_event list \<times> 's"

record 's product_repository =
  repo_List :: "context_err \<Rightarrow> int64 \<Rightarrow> int64 \<Rightarrow> ('s, product list) act"
  repo_GetByID :: "context_err \<Rightarrow> string \<Rightarrow> ('s, product) act"
  repo_Create :: "context_err \<Rightarrow> create_cmd \<Rightarrow> ('s, product) act"
  repo_Update :: "context_err \<Rightarrow> update_cmd \<Rightarrow> ('s, product) act"
  repo_UpdateStock :: "context_err \<Rightarrow> string \<Rightarrow> int32 \<Rightarrow> ('s, product) act"

subsection \<open>Safe actions\<close>

text \<open>
  An action is safe when from a state with the invariant it ends in one, its metric calls
  satisfy \<open>M\<close>, it does not panic, and a value it returns satisfies \<open>Q\<close>.
\<close>

fun ok_or_err :: "('a \<Rightarrow> bool) \<Rightarrow> 'a result \<Rightarrow> bool" where
  "ok_or_err Q (Ok a) = Q a"
| "ok_or_err Q (Err e) = True"
| "ok_or_err Q (Panic m) = False"

definition runs_safe ::
  "('s \<Rightarrow> bool) \<Rightarrow> (metric_event \<Rightarrow> bool) \<Rightarrow> ('a \<Rightarrow> bool) \<Rightarrow> ('s, 'a) act \<Rightarrow> bool"
where
  "runs_safe I M Q m \<longleftrightarrow>
     (\<forall>s. I s \<longrightarrow>
        (case m s of (r, ms, s') \<Rightarrow> I s' \<and> list_all M ms \<and> ok_or_err Q r))"

lemma runs_safeI [inv_intros]:
  "(\<And>s r ms s'. I s \<Longrightarrow> m s = (r, ms, s') \<Longrightarrow>
      I s' \<and> list_all M ms \<and> ok_or_err Q r) \<Longrightarrow> runs_safe I M Q m"
  by (auto simp: runs_safe_def split: prod.splits)

lemma runs_safeD:
  "runs_safe I M Q m \<Longrightarrow> I s \<Longrightarrow> m s = (r, ms, s') \<Longrightarrow>
     I s' \<and> list_all M ms \<and> ok_or_err Q r"
  by (auto simp: runs_safe_def split: prod.splits)

lemma runs_safe_mono:
  "runs_safe I M Q m \<Longrightarrow> (\<And>a. Q a \<Longrightarrow> Q' a) \<Longrightarrow> runs_safe I M Q' m"
  unfolding runs_safe_def by (force elim!: ok_or_err.elims split: prod.splits)

text \<open>
  The arguments of a listing the contract speaks of: a page whose end is an \<open>int\<close> and whose
  length no \<open>make\<close> refuses.
\<close>

definition page_args :: "int64 \<Rightarrow> int64 \<Rightarrow> bool" where
  "page_args limit offset \<longleftrightarrow>
     0 < sint limit \<and> sint limit < 2 ^ 31 \<and> 0 \<le> sint offset \<and>
     sint offset + sint limit < 2 ^ 63"

text \<open>What a listing hands out: valid products, no more than were asked for.\<close>

definition good_page :: "int64 \<Rightarrow> product list \<Rightarrow> bool" where
  "good_page limit ps \<longleftrightarrow> list_all product_wf ps \<and> int (length ps) \<le> sint limit"

locale safe_repository =
  fixes repo :: "'s product_repository"
    and invar :: "'s \<Rightarrow> bool"
  assumes List_safe:
      "page_args limit offset \<Longrightarrow>
         runs_safe invar cache_event (good_page limit) (repo_List repo ctx limit offset)"
    and GetByID_safe: "runs_safe invar cache_event product_wf (repo_GetByID repo ctx i)"
    and Create_safe:
      "create_validate c = None \<Longrightarrow> runs_safe invar cache_event product_wf (repo_Create repo ctx c)"
    and Update_safe:
      "update_validate u = None \<Longrightarrow> runs_safe invar cache_event product_wf (repo_Update repo ctx u)"
    and UpdateStock_safe: "runs_safe invar cache_event product_wf (repo_UpdateStock repo ctx i d)"

subsection \<open>Catalogues\<close>

definition index_by_id :: "product list \<Rightarrow> string \<rightharpoonup> product" where
  "index_by_id ps = map_of (map (\<lambda>p. (ID p, p)) ps)"

definition catalogue_ok :: "product list \<Rightarrow> bool" where
  "catalogue_ok ps \<longleftrightarrow> distinct (map ID ps) \<and> distinct (map SKU ps) \<and> list_all product_wf ps"

definition page :: "int64 \<Rightarrow> int64 \<Rightarrow> product list \<Rightarrow> product list" where
  "page limit offset ps = take (nat (sint limit)) (drop (nat (sint offset)) ps)"

lemma index_by_id_simps [simp]:
  "index_by_id [] = Map.empty"
  "index_by_id (p # ps) = (index_by_id ps)(ID p \<mapsto> p)"
  by (simp_all add: index_by_id_def)

lemma dom_index_by_id [simp]: "dom (index_by_id ps) = ID ` set ps"
  by (simp add: index_by_id_def dom_map_of_conv_image_fst image_image)

lemma index_by_id_None [simp]: "index_by_id ps i = None \<longleftrightarrow> i \<notin> ID ` set ps"
  by (metis domIff dom_index_by_id)

lemma index_by_id_SomeD: "index_by_id ps i = Some p \<Longrightarrow> p \<in> set ps \<and> ID p = i"
  by (induction ps) (auto split: if_splits)

lemma index_by_id_Some_iff:
  "distinct (map ID ps) \<Longrightarrow> index_by_id ps i = Some p \<longleftrightarrow> p \<in> set ps \<and> ID p = i"
  by (induction ps) (auto simp: image_iff)

lemma index_by_id_append_one:
  "ID p \<notin> ID ` set ps \<Longrightarrow> index_by_id (ps @ [p]) = (index_by_id ps)(ID p \<mapsto> p)"
  by (induction ps) (auto simp: fun_upd_twist)

lemma list_ex_SKU [simp]: "list_ex (\<lambda>p. SKU p = k) ps \<longleftrightarrow> k \<in> SKU ` set ps"
  by (auto simp: list_ex_iff)

lemma list_all_page: "list_all P ps \<Longrightarrow> list_all P (page limit offset ps)"
  by (auto simp: page_def list_all_iff dest: in_set_takeD in_set_dropD)

lemma length_page: "0 \<le> sint limit \<Longrightarrow> int (length (page limit offset ps)) \<le> sint limit"
  by (simp add: page_def)

lemma good_page_page:
  "catalogue_ok ps \<Longrightarrow> page_args limit offset \<Longrightarrow> good_page limit (page limit offset ps)"
  by (simp add: good_page_def catalogue_ok_def page_args_def list_all_page length_page)

text \<open>
  Replacing the product with the id of \<open>p\<close> by \<open>p\<close>: the loops that update the slice, which stop
  at the first match.
\<close>

fun replace_first :: "product \<Rightarrow> product list \<Rightarrow> product list" where
  "replace_first p [] = []"
| "replace_first p (q # qs) = (if ID q = ID p then p # qs else q # replace_first p qs)"

lemma map_ID_replace_first [simp]: "map ID (replace_first p ps) = map ID ps"
  by (induction ps) auto

lemma length_replace_first [simp]: "length (replace_first p ps) = length ps"
  by (induction ps) auto

lemma replace_first_notin: "ID p \<notin> ID ` set ps \<Longrightarrow> replace_first p ps = ps"
  by (induction ps) auto

lemma map_SKU_replace_first:
  "q \<in> set ps \<Longrightarrow> ID q = ID p \<Longrightarrow> SKU q = SKU p \<Longrightarrow> distinct (map ID ps) \<Longrightarrow>
     map SKU (replace_first p ps) = map SKU ps"
proof (induction ps)
  case (Cons r rs)
  then show ?case by (cases "r = q") (auto simp: image_iff replace_first_notin)
qed simp

lemma set_replace_first:
  "distinct (map ID ps) \<Longrightarrow> q \<in> set ps \<Longrightarrow> ID q = ID p \<Longrightarrow>
     set (replace_first p ps) = insert p (set ps - {q})"
proof (induction ps)
  case (Cons r rs)
  then show ?case by (cases "ID r = ID p") (auto simp: image_iff)
qed simp

lemma index_by_id_replace_first:
  "ID p \<in> ID ` set ps \<Longrightarrow> index_by_id (replace_first p ps) = (index_by_id ps)(ID p \<mapsto> p)"
  by (induction ps) (auto simp: fun_upd_twist)

lemma catalogue_ok_replace_first:
  assumes "catalogue_ok ps" and "q \<in> set ps" and "ID q = ID p" and "SKU q = SKU p"
    and "product_wf p"
  shows "catalogue_ok (replace_first p ps)"
proof -
  have "set (replace_first p ps) = insert p (set ps - {q})"
    using assms by (intro set_replace_first) (auto simp: catalogue_ok_def)
  with assms show ?thesis
    by (auto simp: catalogue_ok_def map_SKU_replace_first list_all_iff)
qed

lemma catalogue_ok_append_one:
  "catalogue_ok ps \<Longrightarrow> product_wf p \<Longrightarrow> ID p \<notin> ID ` set ps \<Longrightarrow> SKU p \<notin> SKU ` set ps \<Longrightarrow>
     catalogue_ok (ps @ [p])"
  by (auto simp: catalogue_ok_def)

subsection \<open>The functional contract\<close>

text \<open>
  \<open>listing\<close> is the catalogue in listing order. A method that answers with a value or with a
  sentinel of the domain acts on it as said here.
\<close>

locale write_repository = safe_repository repo invar
  for repo :: "'s product_repository" and invar +
  fixes listing :: "'s \<Rightarrow> product list"
  assumes listing_ok: "invar s \<Longrightarrow> catalogue_ok (listing s)"
    and Create_ok:
      "invar s \<Longrightarrow> create_validate c = None \<Longrightarrow> repo_Create repo ctx c s = (Ok p, ms, s') \<Longrightarrow>
         ID p \<notin> ID ` set (listing s) \<and> cSKU c \<notin> SKU ` set (listing s) \<and>
         p = product_of_create (ID p) c \<and> set (listing s') = insert p (set (listing s))"
    and Update_ok:
      "invar s \<Longrightarrow> update_validate u = None \<Longrightarrow> repo_Update repo ctx u s = (Ok p, ms, s') \<Longrightarrow>
         \<exists>q \<in> set (listing s). ID q = uID u \<and> p = apply_update u q \<and>
           set (listing s') = insert p (set (listing s) - {q})"
    and UpdateStock_ok:
      "invar s \<Longrightarrow> repo_UpdateStock repo ctx i d s = (Ok p, ms, s') \<Longrightarrow>
         \<exists>q \<in> set (listing s). ID q = i \<and> p = q\<lparr>Stock := Stock q + d\<rparr> \<and>
           0 \<le> sint (Stock q) + sint d \<and> sint (Stock q) + sint d < 2 ^ 31 \<and>
           set (listing s') = insert p (set (listing s) - {q})"
    and read_frame:
      "invar s \<Longrightarrow> repo_GetByID repo ctx i s = (r, ms, s') \<Longrightarrow> listing s' = listing s"
      "invar s \<Longrightarrow> repo_List repo ctx limit offset s = (r', ms', s'') \<Longrightarrow>
         listing s'' = listing s"
    and sentinel_frame:
      "invar s \<Longrightarrow> repo_Create repo ctx c s = (Err e, ms, s') \<Longrightarrow> domain_sentinel e \<Longrightarrow>
         listing s' = listing s"
      "invar s \<Longrightarrow> repo_Update repo ctx u s = (Err e, ms, s') \<Longrightarrow> domain_sentinel e \<Longrightarrow>
         listing s' = listing s"
      "invar s \<Longrightarrow> repo_UpdateStock repo ctx i d s = (Err e, ms, s') \<Longrightarrow> domain_sentinel e \<Longrightarrow>
         listing s' = listing s"

locale spec_repository = write_repository repo invar listing
  for repo :: "'s product_repository" and invar and listing +
  assumes List_ok:
      "invar s \<Longrightarrow> page_args limit offset \<Longrightarrow>
         repo_List repo ctx limit offset s = (Ok ps, ms, s') \<Longrightarrow>
         ps = page limit offset (listing s) \<and> listing s' = listing s"
    and GetByID_ok:
      "invar s \<Longrightarrow> repo_GetByID repo ctx i s = (Ok p, ms, s') \<Longrightarrow>
         p \<in> set (listing s) \<and> ID p = i \<and> listing s' = listing s"
    and GetByID_missing:
      "invar s \<Longrightarrow> repo_GetByID repo ctx i s = (Err ErrProductNotFound, ms, s') \<Longrightarrow>
         i \<notin> ID ` set (listing s)"

end
