(* ===== verification/In_Memory.thy ===== *)
theory In_Memory
  imports Repository
begin

section \<open>The in-memory repository\<close>

text \<open>
  \<open>internal/repository/in_memory/product_repository.go\<close>: a slice of products in insertion order
  and a map from ids to products, kept in step by hand. Here a method is one
  function of the state, which the mutex justifies (\<open>Concurrent\<close> proves it of the code access by
  access); logging and tracing are left out.
\<close>

record in_memory =
  products :: "product list"
  byID :: "string \<rightharpoonup> product"

subsection \<open>Construction\<close>

definition defaultProducts :: "product list" where
  "defaultProducts =
    [\<lparr>ID = ''prod-001'', SKU = ''SKU-TSHIRT-001'', Name = ''Go T-Shirt'',
      Description = ''Soft cotton t-shirt with Go gopher print'',
      PriceCents = 2499, Currency = ''USD'', Stock = 42, Active = True\<rparr>,
     \<lparr>ID = ''prod-002'', SKU = ''SKU-MUG-001'', Name = ''Observability Mug'',
      Description = ''Ceramic mug for logs, metrics and traces discussions'',
      PriceCents = 1599, Currency = ''USD'', Stock = 30, Active = True\<rparr>,
     \<lparr>ID = ''prod-003'', SKU = ''SKU-STICKER-001'', Name = ''Telemetry Stickers Pack'',
      Description = ''Stickers pack with Kafka, Prometheus and Jaeger themes'',
      PriceCents = 799, Currency = ''USD'', Stock = 120, Active = True\<rparr>,
     \<lparr>ID = ''prod-004'', SKU = ''SKU-HOODIE-001'', Name = ''SRE Hoodie'',
      Description = ''Warm hoodie for incident response nights'',
      PriceCents = 5999, Currency = ''USD'', Stock = 12, Active = True\<rparr>,
     \<lparr>ID = ''prod-005'', SKU = ''SKU-NOTEBOOK-001'', Name = ''Runbook Notebook'',
      Description = ''Notebook for runbooks, postmortems and debug notes'',
      PriceCents = 1299, Currency = ''USD'', Stock = 55, Active = True\<rparr>]"

text \<open>The loop over the seed: it stops at the first product that does not validate.\<close>

fun im_load :: "in_memory \<Rightarrow> product list \<Rightarrow> in_memory result" where
  "im_load r [] = Ok r"
| "im_load r (p # ps) =
     (case product_validate p of
        Some e \<Rightarrow> Err e
      | None \<Rightarrow> im_load (r\<lparr>products := products r @ [p], byID := (byID r)(ID p \<mapsto> p)\<rparr>) ps)"

definition im_NewProductRepository :: "product list \<Rightarrow> in_memory result" where
  "im_NewProductRepository seed =
     (let seed = (if seed = [] then defaultProducts else seed)
      in im_load \<lparr>products = [], byID = Map.empty\<rparr> seed)"

subsection \<open>The methods\<close>

text \<open>
  \<open>List\<close>. \<open>offset + limit\<close> is 64-bit and may wrap. Slicing \<open>products[offset:end]\<close> panics
  unless \<open>0 \<le> offset \<le> end \<le> len\<close>; where it would, \<open>make\<close> may already have panicked on
  its negative or oversized capacity, with the same end for the caller.
\<close>

definition im_List :: "context_err \<Rightarrow> int64 \<Rightarrow> int64 \<Rightarrow> (in_memory, product list) act" where
  [op_defs]: "im_List ctx limit offset r =
     (case ctx of
        Some d \<Rightarrow> (Err (ctx_error d), [], r)
      | None \<Rightarrow>
         (let n = length (products r) in
          if int n \<le> sint offset then (Ok [], [], r)
          else
            let end = offset + limit;
                end = (if int n < sint end then word_of_int (int n) else end)
            in if 0 \<le> sint offset \<and> sint offset \<le> sint end \<and> sint end \<le> int n
               then (Ok (take (nat (sint end - sint offset))
                           (drop (nat (sint offset)) (products r))), [], r)
               else (Panic ''slice bounds out of range'', [], r)))"

definition im_GetByID :: "context_err \<Rightarrow> string \<Rightarrow> (in_memory, product) act" where
  [op_defs]: "im_GetByID ctx i r =
     (case ctx of
        Some d \<Rightarrow> (Err (ctx_error d), [], r)
      | None \<Rightarrow>
         (case byID r i of
            None \<Rightarrow> (Err ErrProductNotFound, [], r)
          | Some p \<Rightarrow> (Ok p, [], r)))"

text \<open>\<open>fmt.Sprintf("prod-%d", n)\<close>.\<close>

definition prod_id :: "nat \<Rightarrow> string" where
  "prod_id n = ''prod-'' @ itoa (int n)"

definition im_append :: "product \<Rightarrow> in_memory \<Rightarrow> in_memory" where
  "im_append p r = r\<lparr>products := products r @ [p], byID := (byID r)(ID p \<mapsto> p)\<rparr>"

definition im_Create :: "context_err \<Rightarrow> create_cmd \<Rightarrow> (in_memory, product) act" where
  [op_defs]: "im_Create ctx c r =
     (if list_ex (\<lambda>p. SKU p = cSKU c) (products r) then (Err ErrProductAlreadyExists, [], r)
      else
        let product =
              \<lparr>ID = prod_id (length (products r) + 1),
               SKU = cSKU c, Name = cName c, Description = cDescription c,
               PriceCents = cPriceCents c, Currency = cCurrency c, Stock = cStock c,
               Active = True\<rparr>
        in (Ok product, [], im_append product r))"

text \<open>The map assignment and the loop over the slice that end both updates.\<close>

definition im_store :: "product \<Rightarrow> in_memory \<Rightarrow> in_memory" where
  "im_store p r =
     r\<lparr>byID := (byID r)(ID p \<mapsto> p), products := replace_first p (products r)\<rparr>"

definition im_Update :: "context_err \<Rightarrow> update_cmd \<Rightarrow> (in_memory, product) act" where
  [op_defs]: "im_Update ctx u r =
     (case byID r (uID u) of
        None \<Rightarrow> (Err ErrProductNotFound, [], r)
      | Some product \<Rightarrow>
         (let product = apply_update u product
          in (Ok product, [], im_store product r)))"

definition im_UpdateStock :: "context_err \<Rightarrow> string \<Rightarrow> int32 \<Rightarrow> (in_memory, product) act" where
  [op_defs]: "im_UpdateStock ctx productID delta r =
     (case byID r productID of
        None \<Rightarrow> (Err ErrProductNotFound, [], r)
      | Some product \<Rightarrow>
         (let newStock = Stock product + delta in
          if newStock <s 0 then (Err ErrInsufficientStock, [], r)
          else
            let product = product\<lparr>Stock := newStock\<rparr>
            in (Ok product, [], im_store product r)))"

definition in_memory_repo :: "in_memory product_repository" where
  "in_memory_repo =
     \<lparr>repo_List = im_List, repo_GetByID = im_GetByID, repo_Create = im_Create,
      repo_Update = im_Update, repo_UpdateStock = im_UpdateStock\<rparr>"

lemma in_memory_repo_sel [simp]:
  "repo_List in_memory_repo = im_List"
  "repo_GetByID in_memory_repo = im_GetByID"
  "repo_Create in_memory_repo = im_Create"
  "repo_Update in_memory_repo = im_Update"
  "repo_UpdateStock in_memory_repo = im_UpdateStock"
  by (simp_all add: in_memory_repo_def)

subsection \<open>The invariant\<close>

text \<open>
  The slice and the map hold the same products; ids and SKUs are different; every product is
  valid; and no id is one that \<open>Create\<close> would still make (\<open>prod-\<close> and a number past the
  length), which is what keeps new ids new.
\<close>

definition im_inv :: "in_memory \<Rightarrow> bool" where
  "im_inv r \<longleftrightarrow>
     catalogue_ok (products r) \<and> byID r = index_by_id (products r) \<and>
     (\<forall>n > length (products r). prod_id n \<notin> ID ` set (products r))"

lemma prod_id_inject [simp]: "prod_id m = prod_id n \<longleftrightarrow> m = n"
  by (simp add: prod_id_def)

lemma prod_id_not_Nil [simp]: "prod_id n \<noteq> []"
  by (simp add: prod_id_def)

lemma im_invD:
  assumes "im_inv r"
  shows "catalogue_ok (products r)" and "byID r = index_by_id (products r)"
    and "distinct (map ID (products r))"
  using assms by (auto simp: im_inv_def catalogue_ok_def)

lemma im_lookup:
  "im_inv r \<Longrightarrow> byID r i = Some p \<Longrightarrow> p \<in> set (products r) \<and> ID p = i \<and> product_wf p"
  by (auto simp: im_inv_def catalogue_ok_def list_all_iff dest!: index_by_id_SomeD)

text \<open>Storing a new version of a product keeps the invariant.\<close>

lemma im_inv_store:
  assumes "im_inv r" and "q \<in> set (products r)" and "ID q = ID p" and "SKU q = SKU p"
    and "product_wf p"
  shows "im_inv (im_store p r)"
proof -
  have "ID ` set (replace_first p (products r)) = ID ` set (products r)"
    by (metis map_ID_replace_first set_map)
  moreover have "ID p \<in> ID ` set (products r)"
    using assms(2,3) by (metis image_eqI)
  ultimately show ?thesis
    using assms
    by (auto simp: im_inv_def im_store_def catalogue_ok_replace_first index_by_id_replace_first)
qed

lemma im_inv_append:
  assumes r: "im_inv r" and wf: "product_wf p"
    and p: "ID p = prod_id (Suc (length (products r)))"
    and sku: "SKU p \<notin> SKU ` set (products r)"
  shows "im_inv (im_append p r)"
proof -
  have "ID p \<notin> ID ` set (products r)"
    using r p by (simp add: im_inv_def)
  then show ?thesis
    using r wf p sku
    by (auto simp: im_inv_def im_append_def catalogue_ok_append_one index_by_id_append_one)
qed

text \<open>Loading a seed whose products are valid and have different ids.\<close>

lemma im_load_ok:
  "list_all product_wf ps \<Longrightarrow> distinct (map ID (products r @ ps)) \<Longrightarrow>
   byID r = index_by_id (products r) \<Longrightarrow>
   im_load r ps = Ok \<lparr>products = products r @ ps, byID = index_by_id (products r @ ps)\<rparr>"
proof (induction ps arbitrary: r)
  case (Cons p ps)
  let ?r = "r\<lparr>products := products r @ [p], byID := (byID r)(ID p \<mapsto> p)\<rparr>"
  have "byID ?r = index_by_id (products ?r)"
    using Cons.prems by (auto simp: index_by_id_append_one)
  with Cons show ?case by simp
qed simp

lemma im_load_err:
  "\<not> list_all product_wf ps \<Longrightarrow> \<exists>e. im_load r ps = Err e"
  by (induction ps arbitrary: r) (auto split: option.splits)


text \<open>The repository of the default products.\<close>

definition im_default :: in_memory where
  "im_default = \<lparr>products = defaultProducts, byID = index_by_id defaultProducts\<rparr>"

lemma im_default_sel [simp]:
  "products im_default = defaultProducts" "byID im_default = index_by_id defaultProducts"
  by (simp_all add: im_default_def)

lemma im_inv_default: "im_inv im_default"
proof -
  have "catalogue_ok defaultProducts"
    by (simp add: catalogue_ok_def defaultProducts_def product_wf_iff)
  moreover have "prod_id n \<notin> ID ` set defaultProducts" if "n > 5" for n
  proof
    assume "prod_id n \<in> ID ` set defaultProducts"
    then have "itoa (int n) \<in> {''001'', ''002'', ''003'', ''004'', ''005''}"
      by (auto simp: defaultProducts_def prod_id_def)
    then have "digits_value (itoa (int n)) \<le> 5"
      by (auto simp: digits_value_def)
    with that show False by (simp add: itoa_def digits_value_nat_digits)
  qed
  ultimately show ?thesis
    by (simp add: im_inv_def) (simp add: defaultProducts_def)
qed

lemma im_New_default: "im_NewProductRepository [] = Ok im_default"
proof -
  have "list_all product_wf defaultProducts" "distinct (map ID defaultProducts)"
    using im_inv_default by (simp_all add: im_inv_def catalogue_ok_def)
  then show ?thesis
    by (simp add: im_NewProductRepository_def im_load_ok im_default_def)
qed

subsection \<open>What the methods do\<close>

lemma im_List_page:
  assumes "page_args limit offset"
  shows "im_List None limit offset r = (Ok (page limit offset (products r)), [], r)"
proof -
  let ?n = "int (length (products r))"
  have sum: "sint (offset + limit) = sint offset + sint limit"
    using assms by (intro sint_add_int64) (auto simp: page_args_def)
  have clamp: "sint (word_of_int ?n :: int64) = ?n" if "?n < sint (offset + limit)"
    using that int64_range [of "offset + limit"] by (intro sint_word_of_int64) auto
  show ?thesis
  proof (cases "?n \<le> sint offset")
    case True
    then show ?thesis by (simp add: im_List_def page_def)
  next
    case False
    then show ?thesis
      using assms sum clamp
      by (cases "?n < sint (offset + limit)")
         (auto simp: im_List_def page_def page_args_def Let_def nat_diff_distrib)
  qed
qed

lemma im_List_canceled: "im_List (Some d) limit offset r = (Err (ctx_error d), [], r)"
  by (simp add: im_List_def)

lemma im_List_result:
  assumes "im_List ctx limit offset r = (res, ms, r')" and "page_args limit offset"
  shows "r' = r \<and> ms = [] \<and>
    (res = Ok (page limit offset (products r)) \<or> (\<exists>d. res = Err (ctx_error d)))"
  using assms by (cases ctx) (auto simp: im_List_page im_List_canceled)

lemma im_GetByID_result:
  "im_GetByID ctx i r = (res, ms, r') \<Longrightarrow> r' = r \<and> ms = [] \<and>
     ((\<exists>p. res = Ok p \<and> byID r i = Some p) \<or>
      (res = Err ErrProductNotFound \<and> byID r i = None) \<or> (\<exists>d. res = Err (ctx_error d)))"
  by (auto simp: im_GetByID_def split: option.splits)

lemma im_Create_result:
  "im_Create ctx c r = (res, ms, r') \<Longrightarrow> ms = [] \<and>
     (res = Err ErrProductAlreadyExists \<and> r' = r \<and> cSKU c \<in> SKU ` set (products r) \<or>
      (\<exists>p. p = product_of_create (prod_id (Suc (length (products r)))) c \<and>
         res = Ok p \<and> cSKU c \<notin> SKU ` set (products r) \<and>
         r' = im_append p r))"
  by (auto simp: im_Create_def Let_def product_of_create_def split: if_splits)

lemma im_Update_result:
  "im_Update ctx u r = (res, ms, r') \<Longrightarrow> ms = [] \<and>
     (res = Err ErrProductNotFound \<and> r' = r \<and> byID r (uID u) = None \<or>
      (\<exists>q p. byID r (uID u) = Some q \<and> p = apply_update u q \<and> res = Ok p \<and>
         r' = im_store p r))"
  by (auto simp: im_Update_def Let_def split: option.splits)

lemma im_UpdateStock_result:
  "im_UpdateStock ctx i d r = (res, ms, r') \<Longrightarrow> ms = [] \<and>
     (res = Err ErrProductNotFound \<and> r' = r \<and> byID r i = None \<or>
      (\<exists>q. byID r i = Some q \<and> Stock q + d <s 0 \<and> res = Err ErrInsufficientStock \<and> r' = r) \<or>
      (\<exists>q p. byID r i = Some q \<and> p = q\<lparr>Stock := Stock q + d\<rparr> \<and> \<not> Stock q + d <s 0 \<and>
         res = Ok p \<and>
         r' = im_store p r))"
  by (auto simp: im_UpdateStock_def Let_def split: option.splits if_splits)

lemma im_inv_Create:
  assumes "im_inv r" and "create_validate c = None" and "im_Create ctx c r = (res, ms, r')"
  shows "im_inv r'"
  using im_Create_result [OF assms(3)] assms(1,2)
  by (auto intro!: im_inv_append [OF _ product_of_create_wf])

lemma im_inv_Update:
  assumes "im_inv r" and "update_validate u = None" and "im_Update ctx u r = (res, ms, r')"
  shows "im_inv r'"
  using im_Update_result [OF assms(3)]
proof (elim conjE disjE exE)
  fix q p
  assume "byID r (uID u) = Some q" and "p = apply_update u q"
    and "r' = im_store p r"
  with im_lookup [OF assms(1)] assms(1,2) show ?thesis
    by (metis im_inv_store apply_update_wf apply_update_sel(1,2))
qed (use assms in simp)

lemma im_inv_UpdateStock:
  assumes "im_inv r" and "im_UpdateStock ctx i d r = (res, ms, r')"
  shows "im_inv r'"
  using im_UpdateStock_result [OF assms(2)]
proof (elim conjE disjE exE)
  fix q p
  assume "byID r i = Some q" and "p = q\<lparr>Stock := Stock q + d\<rparr>" and "\<not> Stock q + d <s 0"
    and "r' = im_store p r"
  with im_lookup [OF assms(1)] assms(1) show ?thesis
    by (metis im_inv_store stock_update_wf stock_update_sel)
qed (use assms in simp_all)

subsection \<open>The in-memory repository is a catalogue\<close>

lemma im_Create_safe:
  assumes "create_validate c = None"
  shows "runs_safe im_inv cache_event product_wf (im_Create ctx c)"
proof (rule runs_safeI)
  fix r res ms r'
  assume r: "im_inv r" "im_Create ctx c r = (res, ms, r')"
  show "im_inv r' \<and> list_all cache_event ms \<and> ok_or_err product_wf res"
    using im_Create_result [OF r(2)] im_inv_Create [OF r(1) assms r(2)]
    by (auto simp: product_of_create_wf [OF assms])
qed

lemma im_Update_safe:
  assumes "update_validate u = None"
  shows "runs_safe im_inv cache_event product_wf (im_Update ctx u)"
proof (rule runs_safeI)
  fix r res ms r'
  assume r: "im_inv r" "im_Update ctx u r = (res, ms, r')"
  show "im_inv r' \<and> list_all cache_event ms \<and> ok_or_err product_wf res"
    using im_Update_result [OF r(2)] im_inv_Update [OF r(1) assms r(2)]
      im_lookup [OF r(1), of "uID u"]
    by (auto simp: apply_update_wf [OF assms])
qed

lemma im_UpdateStock_safe: "runs_safe im_inv cache_event product_wf (im_UpdateStock ctx i d)"
proof (rule runs_safeI)
  fix r res ms r'
  assume r: "im_inv r" "im_UpdateStock ctx i d r = (res, ms, r')"
  show "im_inv r' \<and> list_all cache_event ms \<and> ok_or_err product_wf res"
    using im_UpdateStock_result [OF r(2)] im_inv_UpdateStock [OF r] im_lookup [OF r(1), of i]
    by (auto simp: stock_update_wf)
qed

interpretation im: spec_repository in_memory_repo im_inv products
proof (unfold_locales, goal_cases)
  case (1 limit offset ctx)
  then show ?case
    by (auto intro!: runs_safeI good_page_page dest!: im_List_result dest: im_invD(1))
next
  case (2 ctx i)
  then show ?case
    by (fastforce intro!: runs_safeI dest: im_GetByID_result im_lookup)
next
  case (3 c ctx)
  then show ?case by (simp add: im_Create_safe)
next
  case (4 u ctx)
  then show ?case by (simp add: im_Update_safe)
next
  case (5 ctx i d)
  show ?case by (simp add: im_UpdateStock_safe)
next
  case (6 s)
  then show ?case by (rule im_invD)
next
  case (15 s limit offset ctx ps ms s')
  then show ?case by (auto dest!: im_List_result)
next
  case (16 s ctx i p ms s')
  then show ?case by (auto dest!: im_GetByID_result dest: im_lookup)
next
  case (17 s ctx i ms s')
  then show ?case
    using im_GetByID_result [of ctx i s "Err ErrProductNotFound" ms s']
    by (auto simp: im_inv_def)
next
  case (7 s c ctx p ms s')
  then show ?case
    using im_Create_result [of ctx c s "Ok p" ms s']
    by (auto simp: im_inv_def im_append_def)
next
  case (8 s u ctx p ms s')
  then show ?case
    using im_Update_result [of ctx u s "Ok p" ms s'] im_lookup [of s "uID u"]
    by (fastforce simp: im_store_def set_replace_first im_invD)
next
  case (9 s ctx i d p ms s')
  then show ?case
    using im_UpdateStock_result [of ctx i d s "Ok p" ms s'] im_lookup [of s i]
    by (fastforce simp: im_store_def set_replace_first im_invD add_int32_nonneg_iff product_wf_iff)
next
  case (10 s ctx i r ms s')
  then show ?case by (auto dest!: im_GetByID_result)
next
  case (11 s ctx limit offset r ms s')
  then show ?case
    by (auto simp: im_List_def Let_def split: option.splits if_splits)
next
  case (12 s ctx c e ms s')
  then show ?case by (auto dest!: im_Create_result)
next
  case (13 s ctx u e ms s')
  then show ?case by (auto dest!: im_Update_result)
next
  case (14 s ctx i d e ms s')
  then show ?case by (auto dest!: im_UpdateStock_result)
qed

subsection \<open>Properties\<close>

text \<open>
  C28: \<open>UpdateStock\<close> on every branch. An unknown id is \<open>ErrProductNotFound\<close>; a delta is applied
  exactly when the exact sum is neither negative nor above the largest \<open>int32\<close>, and then the
  slice and the map hold the new version and nothing else has changed; any other delta, one
  whose 32-bit sum wraps included, is \<open>ErrInsufficientStock\<close> and changes nothing.
\<close>

theorem im_UpdateStock_exact:
  assumes "im_inv r"
  shows "im_UpdateStock ctx i d r =
    (case index_by_id (products r) i of
       None \<Rightarrow> (Err ErrProductNotFound, [], r)
     | Some q \<Rightarrow>
         if 0 \<le> sint (Stock q) + sint d \<and> sint (Stock q) + sint d < 2 ^ 31 then
           (Ok (q\<lparr>Stock := Stock q + d\<rparr>), [],
            r\<lparr>products := replace_first (q\<lparr>Stock := Stock q + d\<rparr>) (products r),
              byID := (byID r)(i \<mapsto> q\<lparr>Stock := Stock q + d\<rparr>)\<rparr>)
         else (Err ErrInsufficientStock, [], r))"
proof (cases "index_by_id (products r) i")
  case None
  then have "byID r i = None" using im_invD(2) [OF assms] by simp
  with None show ?thesis by (simp add: im_UpdateStock_def del: index_by_id_None)
next
  case (Some q)
  then have lookup: "byID r i = Some q" using im_invD(2) [OF assms] by simp
  from im_lookup [OF assms this] have q: "ID q = i" "0 \<le> sint (Stock q)"
    by (simp_all add: product_wf_iff)
  show ?thesis
    using lookup Some q add_int32_nonneg_iff [OF q(2), of d]
    by (auto simp: im_UpdateStock_def im_store_def Let_def)
qed

theorem im_UpdateStock_exact_witness:
  "fst (im_UpdateStock None ''prod-001'' 2147483647 im_default) = Err ErrInsufficientStock"
  by (subst im_UpdateStock_exact [OF im_inv_default]) (simp add: defaultProducts_def)

text \<open>
  C29: paging is exact. Reading the in-memory catalogue page by page with a positive limit, at
  the offsets \<open>0, limit, 2 * limit, ...\<close>, gives every product once and in insertion order, as
  long as the last offset fits an \<open>int\<close>.
\<close>

theorem im_pages_cover:
  assumes "0 < sint limit" and "sint limit < 2 ^ 31" and "int n * sint limit < 2 ^ 63"
    and "int (length (products r)) \<le> int n * sint limit"
  shows "concat (map (\<lambda>k.
      case im_List None limit (word_of_int (int k * sint limit)) r of
        (Ok ps, ms, r') \<Rightarrow> ps
      | _ \<Rightarrow> []) [0..<n]) = products r"
proof -
  define l where "l = nat (sint limit)"
  have l: "sint limit = int l" "0 < l" using assms(1) by (simp_all add: l_def)
  have page: "(case im_List None limit (word_of_int (int k * sint limit)) r of
        (Ok ps, ms, r') \<Rightarrow> ps
      | _ \<Rightarrow> []) = take l (drop (k * l) (products r))" if "k < n" for k
  proof -
    have "int k * sint limit + sint limit \<le> int n * sint limit"
    proof -
      have "(int k + 1) * sint limit \<le> int n * sint limit"
        using that assms(1) by (intro mult_right_mono) auto
      then show ?thesis by (simp add: algebra_simps)
    qed
    moreover have "0 \<le> int k * sint limit" using assms(1) by simp
    ultimately have off: "sint (word_of_int (int k * sint limit) :: int64) = int k * sint limit"
      using assms(1-3) by (intro sint_word_of_int64) linarith+
    with \<open>_ + _ \<le> _\<close> assms(1-3) have "page_args limit (word_of_int (int k * sint limit))"
      by (simp only: page_args_def) simp
    from im_List_page [OF this, of r] off show ?thesis
      by (simp only: page_def l) (simp flip: of_nat_mult)
  qed
  have "concat (map (\<lambda>k. take l (drop (k * l) xs)) [0..<m]) = take (m * l) xs"
    for m and xs :: "product list"
  proof (induction m)
    case (Suc m)
    have "Suc m * l = m * l + l" by simp
    with Suc show ?case by (simp only: take_add) simp
  qed simp
  moreover have "length (products r) \<le> n * l"
    using assms(4) l by (simp flip: of_nat_mult)
  moreover have "map (\<lambda>k.
      case im_List None limit (word_of_int (int k * sint limit)) r of
        (Ok ps, ms, r') \<Rightarrow> ps
      | _ \<Rightarrow> []) [0..<n] = map (\<lambda>k. take l (drop (k * l) (products r))) [0..<n]"
    by (rule map_cong [OF refl]) (simp only: page set_upt atLeastLessThan_iff)
  ultimately show ?thesis by (simp only: take_all)
qed

theorem im_pages_cover_witness:
  "concat (map (\<lambda>k.
      case im_List None 2 (word_of_int (int k * 2)) im_default of
        (Ok ps, ms, r') \<Rightarrow> ps
      | _ \<Rightarrow> []) [0..<3]) = defaultProducts"
  using im_pages_cover [of 2 3 im_default] by (simp add: defaultProducts_def)

lemma find_append:
  "find P (xs @ ys) = (case find P xs of None \<Rightarrow> find P ys | Some x \<Rightarrow> Some x)"
  by (induction xs) auto

lemma im_load_exact:
  "im_load r ps =
     (case find (\<lambda>p. \<not> product_wf p) ps of
        Some p \<Rightarrow> Err (the (product_validate p))
      | None \<Rightarrow> Ok \<lparr>products = products r @ ps,
          byID = (\<lambda>i. case find (\<lambda>p. ID p = i) (rev ps) of None \<Rightarrow> byID r i | Some p \<Rightarrow> Some p)\<rparr>)"
proof (induction ps arbitrary: r)
  case (Cons p ps)
  then show ?case
    by (auto simp: find_append fun_upd_def intro!: ext split: option.splits)
qed simp

text \<open>
  The constructor. It succeeds exactly when every product of the seed (of the default
  products, when the seed is empty) is valid, and then holds the seed in order, with an index
  that gives for each id the last product of the seed that has it; otherwise it returns the
  error of the first invalid product.
\<close>

theorem im_New_loads_seed:
  "im_NewProductRepository seed =
     (let ps = (if seed = [] then defaultProducts else seed)
      in case find (\<lambda>p. product_validate p \<noteq> None) ps of
           Some p \<Rightarrow> Err (the (product_validate p))
         | None \<Rightarrow> Ok \<lparr>products = ps, byID = (\<lambda>i. find (\<lambda>p. ID p = i) (rev ps))\<rparr>)"
proof -
  have "im_load \<lparr>products = [], byID = Map.empty\<rparr> ps =
      (case find (\<lambda>p. product_validate p \<noteq> None) ps of
         Some p \<Rightarrow> Err (the (product_validate p))
       | None \<Rightarrow> Ok \<lparr>products = ps, byID = (\<lambda>i. find (\<lambda>p. ID p = i) (rev ps))\<rparr>)" for ps
    by (auto simp: im_load_exact intro!: ext split: option.split)
  then show ?thesis
    by (simp only: im_NewProductRepository_def Let_def)
qed


end
