(* ===== verification/Service.thy ===== *)
theory Service
  imports Repository
begin

section \<open>The catalog service\<close>

text \<open>
  \<open>internal/service/catalog/catalog.go\<close>: each method validates, calls the repository once, and
  records how the request ended. The service is a pointer to a logger and a repository, each
  of which may be nil. Logging and spans are left out; the metric calls are kept, the deferred
  duration last.
\<close>

abbreviation defaultListLimit :: int64 where "defaultListLimit \<equiv> 20"
abbreviation maxListLimit :: int64 where "maxListLimit \<equiv> 100"

datatype logger = Logger

record 's catalog_service =
  svc_logger :: "logger option"
  svc_repository :: "'s product_repository option"

definition NewCatalogService ::
  "logger option \<Rightarrow> 's product_repository option \<Rightarrow> 's catalog_service result"
where
  "NewCatalogService logger repository =
     (if logger = None then Err (Plain ''logger is empty'')
      else case repository of
             None \<Rightarrow> Err (Plain ''repository is empty'')
           | Some r \<Rightarrow> Ok \<lparr>svc_logger = logger, svc_repository = Some r\<rparr>)"

text \<open>The service \<open>NewCatalogService\<close> makes of a repository.\<close>

definition service_of :: "'s product_repository \<Rightarrow> 's catalog_service option" where
  "service_of repo = Some \<lparr>svc_logger = Some Logger, svc_repository = Some repo\<rparr>"

lemma NewCatalogService_service_of:
  "NewCatalogService (Some Logger) (Some repo) = Ok (the (service_of repo))"
  by (simp add: NewCatalogService_def service_of_def)

text \<open>\<open>metrics.CatalogRequestsTotal.WithLabelValues(method, status).Inc()\<close>, and the deferred call.\<close>

definition requests_total :: "string \<Rightarrow> string \<Rightarrow> metric_event" where
  "requests_total method status = Inc CatalogRequestsTotal [method, status]"

definition with_duration ::
  "string \<Rightarrow> 'a result \<times> metric_event list \<times> 's \<Rightarrow> 'a result \<times> metric_event list \<times> 's"
where
  "with_duration method res =
     (case res of (r, ms, s) \<Rightarrow> (r, ms @ [Observe CatalogRequestDuration [method]], s))"

abbreviation nil_dereference :: "'a result" where
  "nil_dereference \<equiv> Panic ''invalid memory address or nil pointer dereference''"

subsection \<open>Listing and reading\<close>

definition effective_limit :: "int64 \<Rightarrow> int64" where
  "effective_limit limit =
     (let limit = (if limit <=s 0 then defaultListLimit else limit)
      in if maxListLimit <s limit then maxListLimit else limit)"

definition uninitialized :: "'s catalog_service option \<Rightarrow> bool" where
  "uninitialized service \<longleftrightarrow>
     (case service of
        None \<Rightarrow> True
      | Some sv \<Rightarrow> svc_repository sv = None \<or> svc_logger sv = None)"

definition ListProducts ::
  "'s catalog_service option \<Rightarrow> context_err \<Rightarrow> int64 \<Rightarrow> int64 \<Rightarrow> ('s, product list) act"
where
  "ListProducts service ctx limit offset s = with_duration ''ListProducts''
     (if uninitialized service then
        (Err (Plain ''catalog service is not initialized''),
         [requests_total ''ListProducts'' ''error''], s)
      else if offset <s 0 then
        (Err ErrInvalidPagination, [requests_total ''ListProducts'' ''invalid_argument''], s)
      else
        let limit = effective_limit limit in
        case repo_List (the (svc_repository (the service))) ctx limit offset s of
          (Err e, ms, s) \<Rightarrow> (Err e, ms @ [requests_total ''ListProducts'' ''error''], s)
        | (Ok products, ms, s) \<Rightarrow>
            (Ok products, ms @ [requests_total ''ListProducts'' ''success''], s)
        | (Panic m, ms, s) \<Rightarrow> (Panic m, ms, s))"

definition GetProduct ::
  "'s catalog_service option \<Rightarrow> context_err \<Rightarrow> string \<Rightarrow> ('s, product) act"
where
  "GetProduct service ctx i s = with_duration ''GetProduct''
     (if uninitialized service then
        (Err (Plain ''catalog service is not initialized''),
         [requests_total ''GetProduct'' ''error''], s)
      else if trim_space i = [] then
        (Err (Plain ''product id is required''),
         [requests_total ''GetProduct'' ''invalid_argument''], s)
      else
        case repo_GetByID (the (svc_repository (the service))) ctx i s of
          (Err e, ms, s) \<Rightarrow>
            (Err e, ms @ [requests_total ''GetProduct''
               (if errors_is e ErrProductNotFound then ''not_found'' else ''error'')], s)
        | (Ok product, ms, s) \<Rightarrow>
            (Ok product, ms @ [requests_total ''GetProduct'' ''success''], s)
        | (Panic m, ms, s) \<Rightarrow> (Panic m, ms, s))"

subsection \<open>Writing\<close>

text \<open>
  The three writing methods do not test for a nil service: they dereference it when the
  command has passed validation, and its logger after the repository has answered.
\<close>

definition with_repository ::
  "'s catalog_service option \<Rightarrow> ('s product_repository \<Rightarrow> ('s, 'a) act) \<Rightarrow>
     (go_error \<Rightarrow> string) \<Rightarrow> string \<Rightarrow> ('s, 'a) act"
where
  "with_repository service call status method s =
     (case service of
        None \<Rightarrow> (nil_dereference, [], s)
      | Some sv \<Rightarrow>
          (case svc_repository sv of
             None \<Rightarrow> (nil_dereference, [], s)
           | Some repo \<Rightarrow>
               (case call repo s of
                  (Panic m, ms, s) \<Rightarrow> (Panic m, ms, s)
                | (Err e, ms, s) \<Rightarrow>
                    if svc_logger sv = None then (nil_dereference, ms, s)
                    else (Err e, ms @ [requests_total method (status e)], s)
                | (Ok product, ms, s) \<Rightarrow>
                    if svc_logger sv = None then (nil_dereference, ms, s)
                    else (Ok product, ms @ [requests_total method ''success''], s))))"

definition CreateProduct ::
  "'s catalog_service option \<Rightarrow> context_err \<Rightarrow> create_cmd \<Rightarrow> ('s, product) act"
where
  "CreateProduct service ctx cmd s = with_duration ''CreateProduct''
     (case create_validate cmd of
        Some e \<Rightarrow> (Err e, [requests_total ''CreateProduct'' ''invalid_argument''], s)
      | None \<Rightarrow>
          with_repository service (\<lambda>repo. repo_Create repo ctx cmd)
            (\<lambda>e. if errors_is e ErrProductAlreadyExists then ''already_exists'' else ''error'')
            ''CreateProduct'' s)"

definition UpdateProduct ::
  "'s catalog_service option \<Rightarrow> context_err \<Rightarrow> update_cmd \<Rightarrow> ('s, product) act"
where
  "UpdateProduct service ctx cmd s = with_duration ''UpdateProduct''
     (case update_validate cmd of
        Some e \<Rightarrow> (Err e, [requests_total ''UpdateProduct'' ''invalid_argument''], s)
      | None \<Rightarrow>
          with_repository service (\<lambda>repo. repo_Update repo ctx cmd)
            (\<lambda>e. if errors_is e ErrProductNotFound then ''not_found'' else ''error'')
            ''UpdateProduct'' s)"

definition UpdateStock ::
  "'s catalog_service option \<Rightarrow> context_err \<Rightarrow> string \<Rightarrow> int32 \<Rightarrow> ('s, product) act"
where
  "UpdateStock service ctx productID delta s = with_duration ''UpdateStock''
     (if trim_space productID = [] then
        (Err (Plain ''product id is required''),
         [requests_total ''UpdateStock'' ''invalid_argument''], s)
      else if delta = 0 then
        (Err (Plain ''delta cannot be zero''),
         [requests_total ''UpdateStock'' ''invalid_argument''], s)
      else
        with_repository service (\<lambda>repo. repo_UpdateStock repo ctx productID delta)
          (\<lambda>e. if errors_is e ErrInsufficientStock then ''insufficient_stock''
               else if errors_is e ErrProductNotFound then ''not_found'' else ''error'')
          ''UpdateStock'' s)"

subsection \<open>Facts about the single steps\<close>

lemma effective_limit_bounds: "0 < sint (effective_limit l)" "sint (effective_limit l) \<le> 100"
  by (auto simp: effective_limit_def Let_def word_sless_alt word_sle_eq)

lemma effective_limit_cases:
  "effective_limit l =
     (if sint l \<le> 0 then 20 else if sint l \<le> 100 then l else 100)"
  by (auto simp: effective_limit_def Let_def word_sless_alt word_sle_eq)

lemma page_args_effective:
  "0 \<le> sint offset \<Longrightarrow> sint offset < 2 ^ 62 \<Longrightarrow> page_args (effective_limit l) offset"
  using effective_limit_bounds [of l] by (simp add: page_args_def)

lemma good_page_effective: "good_page (effective_limit l) ps \<Longrightarrow> good_page maxListLimit ps"
  using effective_limit_bounds [of l] by (simp add: good_page_def)

lemma service_of_simps [simp]:
  "\<not> uninitialized (service_of repo)"
  "svc_repository (the (service_of repo)) = Some repo"
  by (simp_all add: uninitialized_def service_of_def)

lemma with_repository_service_of:
  "with_repository (service_of repo) call status method s =
     (case call repo s of
        (Panic m, ms, s) \<Rightarrow> (Panic m, ms, s)
      | (Err e, ms, s) \<Rightarrow> (Err e, ms @ [requests_total method (status e)], s)
      | (Ok product, ms, s) \<Rightarrow> (Ok product, ms @ [requests_total method ''success''], s))"
  by (simp add: with_repository_def service_of_def split: prod.splits outcome.splits)

lemma well_labelled_requests_total [simp]: "well_labelled (requests_total method status)"
  by (simp add: requests_total_def)

lemma inc_labels_requests_total [simp]:
  "inc_labels v (requests_total method status # ms) =
     (if v = CatalogRequestsTotal then [method, status] # inc_labels v ms else inc_labels v ms)"
  by (simp add: requests_total_def)

text \<open>
  What a request adds to the counter: from a repository that makes cache calls only, the
  service increments \<open>CatalogRequestsTotal\<close> once, with its method and with \<open>success\<close> exactly
  when it returns a value.
\<close>

definition counted :: "string \<Rightarrow> 'a result \<times> metric_event list \<times> 's \<Rightarrow> bool" where
  "counted method res \<longleftrightarrow>
     (case res of (r, ms, s) \<Rightarrow>
        \<exists>status. inc_labels CatalogRequestsTotal ms = [[method, status]] \<and>
          (status = ''success'' \<longleftrightarrow> (\<exists>a. r = Ok a)))"

lemma runs_safe_with_duration:
  "runs_safe I well_labelled Q m \<Longrightarrow>
     runs_safe I well_labelled Q (\<lambda>s. with_duration method (m s))"
  by (fastforce simp: runs_safe_def with_duration_def split: prod.splits)

lemma runs_safe_const_err:
  "list_all M ms \<Longrightarrow> runs_safe I M Q (\<lambda>s. (Err e, ms, s))"
  by (simp add: runs_safe_def)

lemma runs_safe_with_repository:
  assumes "runs_safe I cache_event Q (call repo)"
  shows "runs_safe I well_labelled Q (with_repository (service_of repo) call status method)"
proof (rule runs_safeI)
  fix s r ms s'
  assume s: "I s" "with_repository (service_of repo) call status method s = (r, ms, s')"
  obtain r1 ms1 s1 where call: "call repo s = (r1, ms1, s1)"
    by (metis prod_cases3)
  with assms s(1) have "I s1 \<and> list_all cache_event ms1 \<and> ok_or_err Q r1"
    by (blast dest: runs_safeD)
  with s(2) call show "I s' \<and> list_all well_labelled ms \<and> ok_or_err Q r"
    by (cases r1) (auto simp: with_repository_service_of cache_events_well_labelled)
qed

lemma counted_with_repository:
  assumes "runs_safe I cache_event Q (call repo)" and "I s"
    and "\<And>e. status e \<noteq> ''success''"
  shows "counted method (with_duration method (with_repository (service_of repo) call status method s))"
proof -
  obtain r1 ms1 s1 where call: "call repo s = (r1, ms1, s1)"
    by (metis prod_cases3)
  with assms(1,2) have "list_all cache_event ms1 \<and> ok_or_err Q r1"
    by (blast dest: runs_safeD)
  with call assms(3) show ?thesis
    by (cases r1)
       (auto simp: counted_def with_duration_def with_repository_service_of inc_labels_cache_events)
qed

text \<open>
  Each method either refuses the request without calling the repository, or returns what the
  repository answered and leaves the state it left.
\<close>

lemma with_repository_passes:
  "with_duration m (with_repository (service_of repo) call st me s) = (r, ms, s') \<Longrightarrow>
     \<exists>ms1. call repo s = (r, ms1, s')"
  by (auto simp: with_duration_def with_repository_service_of split: prod.splits outcome.splits)

lemma ListProducts_passes:
  "ListProducts (service_of repo) ctx l off s = (r, ms, s') \<Longrightarrow>
     (off <s 0 \<and> r = Err ErrInvalidPagination \<and> s' = s) \<or>
     (\<not> off <s 0 \<and> (\<exists>ms1. repo_List repo ctx (effective_limit l) off s = (r, ms1, s')))"
  by (auto simp: ListProducts_def with_duration_def Let_def
      split: if_splits prod.splits outcome.splits)

lemma GetProduct_passes:
  "GetProduct (service_of repo) ctx i s = (r, ms, s') \<Longrightarrow>
     (blank i \<and> r = Err (Plain ''product id is required'') \<and> s' = s) \<or>
     (\<not> blank i \<and> (\<exists>ms1. repo_GetByID repo ctx i s = (r, ms1, s')))"
  by (auto simp: GetProduct_def with_duration_def split: if_splits prod.splits outcome.splits)

lemma CreateProduct_passes:
  assumes "CreateProduct (service_of repo) ctx c s = (r, ms, s')"
  shows "(\<exists>e. create_validate c = Some e \<and> r = Err e \<and> s' = s) \<or>
     (create_validate c = None \<and> (\<exists>ms1. repo_Create repo ctx c s = (r, ms1, s')))"
proof (cases "create_validate c")
  case None
  with assms show ?thesis
    by (auto simp: CreateProduct_def dest: with_repository_passes)
next
  case (Some e)
  with assms show ?thesis by (simp add: CreateProduct_def with_duration_def)
qed

lemma UpdateProduct_passes:
  assumes "UpdateProduct (service_of repo) ctx u s = (r, ms, s')"
  shows "(\<exists>e. update_validate u = Some e \<and> r = Err e \<and> s' = s) \<or>
     (update_validate u = None \<and> (\<exists>ms1. repo_Update repo ctx u s = (r, ms1, s')))"
proof (cases "update_validate u")
  case None
  with assms show ?thesis
    by (auto simp: UpdateProduct_def dest: with_repository_passes)
next
  case (Some e)
  with assms show ?thesis by (simp add: UpdateProduct_def with_duration_def)
qed

lemma UpdateStock_passes:
  assumes "UpdateStock (service_of repo) ctx i d s = (r, ms, s')"
  shows "((blank i \<or> d = 0) \<and> s' = s \<and>
       (r = Err (Plain ''product id is required'') \<or> r = Err (Plain ''delta cannot be zero''))) \<or>
     (\<not> blank i \<and> d \<noteq> 0 \<and> (\<exists>ms1. repo_UpdateStock repo ctx i d s = (r, ms1, s')))"
proof (cases "blank i \<or> d = 0")
  case True
  with assms show ?thesis by (auto simp: UpdateStock_def with_duration_def split: if_splits)
next
  case False
  with assms show ?thesis
    by (auto simp: UpdateStock_def dest: with_repository_passes)
qed

lemmas service_passes = ListProducts_passes GetProduct_passes CreateProduct_passes
  UpdateProduct_passes UpdateStock_passes

subsection \<open>The service over a safe repository\<close>

context safe_repository
begin

lemma ListProducts_safe:
  assumes "sint offset < 2 ^ 62"
  shows "runs_safe invar well_labelled (good_page maxListLimit)
    (ListProducts (service_of repo) ctx limit offset)"
proof (cases "offset <s 0")
  case True
  then show ?thesis
    by (simp add: ListProducts_def runs_safe_def with_duration_def)
next
  case False
  then have "page_args (effective_limit limit) offset"
    using assms by (intro page_args_effective) (simp_all add: word_sless_alt)
  then have safe: "runs_safe invar cache_event (good_page (effective_limit limit))
      (repo_List repo ctx (effective_limit limit) offset)"
    by (rule List_safe)
  show ?thesis
  proof (rule runs_safeI)
    fix s r ms s'
    assume s: "invar s" "ListProducts (service_of repo) ctx limit offset s = (r, ms, s')"
    obtain r1 ms1 s1 where call: "repo_List repo ctx (effective_limit limit) offset s = (r1, ms1, s1)"
      by (metis prod_cases3)
    with safe s(1) have "invar s1 \<and> list_all cache_event ms1 \<and>
        ok_or_err (good_page (effective_limit limit)) r1"
      by (blast dest: runs_safeD)
    with s(2) call False show "invar s' \<and> list_all well_labelled ms \<and>
        ok_or_err (good_page maxListLimit) r"
      by (cases r1)
         (auto simp: ListProducts_def with_duration_def cache_events_well_labelled
           intro: good_page_effective)
  qed
qed

lemma GetProduct_safe:
  "runs_safe invar well_labelled product_wf (GetProduct (service_of repo) ctx i)"
proof (rule runs_safeI)
  fix s r ms s'
  assume s: "invar s" "GetProduct (service_of repo) ctx i s = (r, ms, s')"
  obtain r1 ms1 s1 where call: "repo_GetByID repo ctx i s = (r1, ms1, s1)"
    by (metis prod_cases3)
  with GetByID_safe s(1) have "invar s1 \<and> list_all cache_event ms1 \<and> ok_or_err product_wf r1"
    by (blast dest: runs_safeD)
  with s call show "invar s' \<and> list_all well_labelled ms \<and> ok_or_err product_wf r"
    by (cases r1)
       (auto simp: GetProduct_def with_duration_def cache_events_well_labelled split: if_splits)
qed

lemma CreateProduct_safe:
  "runs_safe invar well_labelled product_wf (CreateProduct (service_of repo) ctx cmd)"
  unfolding CreateProduct_def
  by (intro runs_safe_with_duration)
     (cases "create_validate cmd";
      simp add: runs_safe_const_err runs_safe_with_repository Create_safe)

lemma UpdateProduct_safe:
  "runs_safe invar well_labelled product_wf (UpdateProduct (service_of repo) ctx cmd)"
  unfolding UpdateProduct_def
  by (intro runs_safe_with_duration)
     (cases "update_validate cmd";
      simp add: runs_safe_const_err runs_safe_with_repository Update_safe)

lemma UpdateStock_service_safe:
  "runs_safe invar well_labelled product_wf (UpdateStock (service_of repo) ctx i d)"
  unfolding UpdateStock_def
  by (intro runs_safe_with_duration)
     (cases "blank i"; cases "d = 0";
      simp add: runs_safe_const_err runs_safe_with_repository UpdateStock_safe)

end

end
