(* ===== verification/History.thy ===== *)
theory History
  imports Service In_Memory
begin

section \<open>Histories of requests to the service\<close>

text \<open>
  Requests to the service as data, so that properties of a whole history can be stated: one
  step runs one request in its context, a run is a list of them. The steps compose the methods
  of \<open>Service\<close> and add nothing to them.
\<close>

datatype request =
    ReqList int64 int64
  | ReqGet string
  | ReqCreate create_cmd
  | ReqUpdate update_cmd
  | ReqStock string int32

datatype response = Page "product list result" | One "product result"

fun svc_step ::
  "'s catalog_service option \<Rightarrow> context_err \<times> request \<Rightarrow> 's \<Rightarrow> response \<times> metric_event list \<times> 's"
where
  "svc_step sv (ctx, ReqList l off) s =
     (case ListProducts sv ctx l off s of (r, ms, s') \<Rightarrow> (Page r, ms, s'))"
| "svc_step sv (ctx, ReqGet i) s =
     (case GetProduct sv ctx i s of (r, ms, s') \<Rightarrow> (One r, ms, s'))"
| "svc_step sv (ctx, ReqCreate c) s =
     (case CreateProduct sv ctx c s of (r, ms, s') \<Rightarrow> (One r, ms, s'))"
| "svc_step sv (ctx, ReqUpdate u) s =
     (case UpdateProduct sv ctx u s of (r, ms, s') \<Rightarrow> (One r, ms, s'))"
| "svc_step sv (ctx, ReqStock i d) s =
     (case UpdateStock sv ctx i d s of (r, ms, s') \<Rightarrow> (One r, ms, s'))"

fun svc_run ::
  "'s catalog_service option \<Rightarrow> (context_err \<times> request) list \<Rightarrow> 's \<Rightarrow>
     (request \<times> response) list \<times> metric_event list \<times> 's"
where
  "svc_run sv [] s = ([], [], s)"
| "svc_run sv (q # qs) s =
     (case svc_step sv q s of (a, ms, s') \<Rightarrow>
        (case svc_run sv qs s' of (h, ms', s'') \<Rightarrow> ((snd q, a) # h, ms @ ms', s'')))"

text \<open>
  A response in order: no panic, and what is handed out is valid and no longer than the
  service's largest page.
\<close>

fun good_response :: "response \<Rightarrow> bool" where
  "good_response (Page r) = ok_or_err (good_page maxListLimit) r"
| "good_response (One r) = ok_or_err product_wf r"

text \<open>The gRPC transport passes an offset of 32 bits; any offset below \<open>2 ^ 62\<close> is in order.\<close>

fun offset_in_range :: "request \<Rightarrow> bool" where
  "offset_in_range (ReqList l off) = (sint off < 2 ^ 62)"
| "offset_in_range _ = True"

subsection \<open>What a history says of the stock of a product\<close>

text \<open>The change a request and its response grant to the stock of the product \<open>i\<close>.\<close>

fun granted :: "string \<Rightarrow> request \<times> response \<Rightarrow> int" where
  "granted i (ReqStock j d, One (Ok p)) = (if j = i then sint d else 0)"
| "granted i _ = 0"

text \<open>
  A response that settles its request: the value, a sentinel of the domain, or the service's
  own refusal before the repository was called. After any other error (a failed commit, a
  lost connection) the caller does not know what was stored.
\<close>

fun refused :: "request \<Rightarrow> bool" where
  "refused (ReqCreate c) = (create_validate c \<noteq> None)"
| "refused (ReqUpdate u) = (update_validate u \<noteq> None)"
| "refused (ReqStock i d) = (blank i \<or> d = 0)"
| "refused _ = False"

fun settled :: "request \<times> response \<Rightarrow> bool" where
  "settled (q, Page r) = True"
| "settled (ReqGet i, One r) = True"
| "settled (q, One (Ok p)) = True"
| "settled (q, One (Err e)) = (refused q \<or> domain_sentinel e)"
| "settled (q, One (Panic m)) = False"

subsection \<open>Safety of histories\<close>

context safe_repository
begin

lemma svc_step_safe:
  assumes "invar s" and "offset_in_range (snd q)"
    and step: "svc_step (service_of repo) q s = (a, ms, s')"
  shows "invar s' \<and> list_all well_labelled ms \<and> good_response a"
proof -
  obtain ctx req where q: "q = (ctx, req)" by force
  show ?thesis
  proof (cases req)
    case (ReqList l off)
    then show ?thesis
      using assms q ListProducts_safe [of off ctx l] by (auto simp: runs_safe_def split: prod.splits)
  next
    case (ReqGet i)
    then show ?thesis
      using assms q GetProduct_safe [of ctx i] by (auto simp: runs_safe_def split: prod.splits)
  next
    case (ReqCreate c)
    then show ?thesis
      using assms q CreateProduct_safe [of ctx c] by (auto simp: runs_safe_def split: prod.splits)
  next
    case (ReqUpdate u)
    then show ?thesis
      using assms q UpdateProduct_safe [of ctx u] by (auto simp: runs_safe_def split: prod.splits)
  next
    case (ReqStock i d)
    then show ?thesis
      using assms q UpdateStock_service_safe [of ctx i d]
      by (auto simp: runs_safe_def split: prod.splits)
  qed
qed

lemma svc_run_safe:
  "invar s \<Longrightarrow> list_all (\<lambda>q. offset_in_range (snd q)) qs \<Longrightarrow>
   svc_run (service_of repo) qs s = (h, ms, s') \<Longrightarrow>
     invar s' \<and> list_all well_labelled ms \<and> list_all (\<lambda>qa. good_response (snd qa)) h"
proof (induction qs arbitrary: s h ms s')
  case (Cons q qs)
  obtain a ms1 s1 where step: "svc_step (service_of repo) q s = (a, ms1, s1)"
    by (metis prod_cases3)
  obtain h2 ms2 s2 where run: "svc_run (service_of repo) qs s1 = (h2, ms2, s2)"
    by (metis prod_cases3)
  have "invar s1 \<and> list_all well_labelled ms1 \<and> good_response a"
    using svc_step_safe [OF _ _ step] Cons.prems by simp
  with Cons.IH [OF _ _ run] Cons.prems step run show ?case by auto
qed simp

end

subsection \<open>The stock ledger\<close>

context write_repository
begin

lemma ids_distinct: "invar s \<Longrightarrow> distinct (map ID (listing s))"
  using listing_ok by (simp add: catalogue_ok_def)

lemma id_unique:
  "invar s \<Longrightarrow> p \<in> set (listing s) \<Longrightarrow> q \<in> set (listing s) \<Longrightarrow> ID p = ID q \<Longrightarrow> p = q"
  using ids_distinct by (metis distinct_map inj_on_def)

text \<open>
  One settled step: a product stays in the catalogue under its id, and its stock moves by what
  the step granted.
\<close>

definition moves :: "string \<Rightarrow> int \<Rightarrow> 's \<Rightarrow> 's \<Rightarrow> bool" where
  "moves i g s s' \<longleftrightarrow>
     (\<forall>p \<in> set (listing s). ID p = i \<longrightarrow>
        (\<exists>p' \<in> set (listing s'). ID p' = i \<and> sint (Stock p') = sint (Stock p) + g))"

lemma moves_same: "listing s' = listing s \<Longrightarrow> moves i 0 s s'"
  by (auto simp: moves_def)

lemma moves_create:
  "set (listing s') = insert p (set (listing s)) \<Longrightarrow> moves i 0 s s'"
  by (auto simp: moves_def)

lemma moves_update:
  assumes "invar s" and "q \<in> set (listing s)" and "p = apply_update u q"
    and "set (listing s') = insert p (set (listing s) - {q})"
  shows "moves i 0 s s'"
  unfolding moves_def using assms by (auto intro: bexI [of _ p])

lemma moves_stock:
  assumes "invar s" and q: "q \<in> set (listing s)" "ID q = j"
    and p: "p = q\<lparr>Stock := Stock q + d\<rparr>"
    and range: "0 \<le> sint (Stock q) + sint d" "sint (Stock q) + sint d < 2 ^ 31"
    and set: "set (listing s') = insert p (set (listing s) - {q})"
  shows "moves i (if j = i then sint d else 0) s s'"
proof -
  have "0 \<le> sint (Stock q)"
    using listing_ok [OF assms(1)] q by (auto simp: catalogue_ok_def list_all_iff product_wf_iff)
  then have "sint (Stock p) = sint (Stock q) + sint d"
    using range p by (simp add: sint_add_int32)
  with q p set id_unique [OF assms(1)] show ?thesis
    by (auto simp: moves_def)
qed

lemma moves_trans: "moves i g s s1 \<Longrightarrow> moves i h s1 s2 \<Longrightarrow> moves i (g + h) s s2"
  unfolding moves_def by fastforce

lemma svc_step_moves:
  assumes "invar s" and step: "svc_step (service_of repo) q s = (a, ms, s')"
    and "settled (snd q, a)"
  shows "moves i (granted i (snd q, a)) s s'"
proof -
  obtain ctx req where q: "q = (ctx, req)" by force
  show ?thesis
  proof (cases req)
    case (ReqList l off)
    with q step obtain r where a: "a = Page r" "ListProducts (service_of repo) ctx l off s = (r, ms, s')"
      by (auto split: prod.splits)
    then have "listing s' = listing s"
      using ListProducts_passes [OF a(2)] read_frame(2) [OF assms(1)] by auto
    with a q ReqList show ?thesis by (simp add: moves_same)
  next
    case (ReqGet j)
    with q step obtain r where a: "a = One r" "GetProduct (service_of repo) ctx j s = (r, ms, s')"
      by (auto split: prod.splits)
    then have "listing s' = listing s"
      using GetProduct_passes [OF a(2)] read_frame(1) [OF assms(1)] by auto
    with a q ReqGet show ?thesis by (simp add: moves_same)
  next
    case (ReqCreate c)
    with q step obtain r where a: "a = One r" "CreateProduct (service_of repo) ctx c s = (r, ms, s')"
      by (auto split: prod.splits)
    have "moves i 0 s s'"
    proof (cases r)
      case (Ok p)
      with CreateProduct_passes [OF a(2)] obtain ms1
        where "create_validate c = None" "repo_Create repo ctx c s = (Ok p, ms1, s')" by auto
      from Create_ok [OF assms(1) this] show ?thesis by (blast intro: moves_create)
    next
      case (Err e)
      with CreateProduct_passes [OF a(2)] have "listing s' = listing s"
        using assms(3) a q ReqCreate sentinel_frame(1) [OF assms(1)] by auto
      then show ?thesis by (rule moves_same)
    next
      case (Panic m)
      with assms(3) a q ReqCreate show ?thesis by simp
    qed
    with a q ReqCreate show ?thesis by simp
  next
    case (ReqUpdate u)
    with q step obtain r where a: "a = One r" "UpdateProduct (service_of repo) ctx u s = (r, ms, s')"
      by (auto split: prod.splits)
    have "moves i 0 s s'"
    proof (cases r)
      case (Ok p)
      with UpdateProduct_passes [OF a(2)] obtain ms1
        where "update_validate u = None" "repo_Update repo ctx u s = (Ok p, ms1, s')" by auto
      from Update_ok [OF assms(1) this] show ?thesis
        by (blast intro: moves_update [OF assms(1)])
    next
      case (Err e)
      with UpdateProduct_passes [OF a(2)] have "listing s' = listing s"
        using assms(3) a q ReqUpdate sentinel_frame(2) [OF assms(1)] by auto
      then show ?thesis by (rule moves_same)
    next
      case (Panic m)
      with assms(3) a q ReqUpdate show ?thesis by simp
    qed
    with a q ReqUpdate show ?thesis by simp
  next
    case (ReqStock j d)
    with q step obtain r where a: "a = One r" "UpdateStock (service_of repo) ctx j d s = (r, ms, s')"
      by (auto split: prod.splits)
    show ?thesis
    proof (cases r)
      case (Ok p)
      with UpdateStock_passes [OF a(2)] obtain ms1
        where "repo_UpdateStock repo ctx j d s = (Ok p, ms1, s')" by auto
      from UpdateStock_ok [OF assms(1) this] obtain x
        where "x \<in> set (listing s)" "ID x = j" "p = x\<lparr>Stock := Stock x + d\<rparr>"
          "0 \<le> sint (Stock x) + sint d" "sint (Stock x) + sint d < 2 ^ 31"
          "set (listing s') = insert p (set (listing s) - {x})" by blast
      then have "moves i (if j = i then sint d else 0) s s'"
        by (rule moves_stock [OF assms(1)])
      with a q ReqStock Ok show ?thesis by simp
    next
      case (Err e)
      with UpdateStock_passes [OF a(2)] have "listing s' = listing s"
        using assms(3) a q ReqStock sentinel_frame(3) [OF assms(1)] by auto
      with a q ReqStock Err show ?thesis by (simp add: moves_same)
    next
      case (Panic m)
      with assms(3) a q ReqStock show ?thesis by simp
    qed
  qed
qed

lemma svc_run_moves:
  "invar s \<Longrightarrow> list_all (\<lambda>q. offset_in_range (snd q)) qs \<Longrightarrow>
   svc_run (service_of repo) qs s = (h, ms, s') \<Longrightarrow> list_all settled h \<Longrightarrow>
     moves i (sum_list (map (granted i) h)) s s'"
proof (induction qs arbitrary: s h ms s')
  case Nil
  then show ?case by (simp add: moves_same)
next
  case (Cons q qs)
  obtain a ms1 s1 where step: "svc_step (service_of repo) q s = (a, ms1, s1)"
    by (metis prod_cases3)
  obtain h2 ms2 s2 where run: "svc_run (service_of repo) qs s1 = (h2, ms2, s2)"
    by (metis prod_cases3)
  have h: "h = (snd q, a) # h2" "s' = s2"
    using Cons.prems(3) step run by auto
  have "invar s1"
    using svc_step_safe [OF _ _ step] Cons.prems by simp
  then have "moves i (sum_list (map (granted i) h2)) s1 s2"
    using Cons.IH [OF _ _ run] Cons.prems h by simp
  moreover have "moves i (granted i (snd q, a)) s s1"
    using svc_step_moves [OF _ step] Cons.prems h by simp
  ultimately show ?case
    using h by (simp add: moves_trans)
qed

end


text \<open>Three requests to the default catalogue: two are granted, one is refused.\<close>

definition three_requests :: "(context_err \<times> request) list" where
  "three_requests =
     [(None, ReqStock ''prod-001'' 8), (None, ReqStock ''prod-001'' (- 100)),
      (None, ReqStock ''prod-001'' (- 5))]"

lemma three_requests_in_range: "list_all (\<lambda>q. offset_in_range (snd q)) three_requests"
  by (simp add: three_requests_def)

lemma im_UpdateStock_Some:
  "byID r i = Some q \<Longrightarrow> \<not> Stock q + d <s 0 \<Longrightarrow>
     im_UpdateStock ctx i d r =
       (Ok (q\<lparr>Stock := Stock q + d\<rparr>), [], im_store (q\<lparr>Stock := Stock q + d\<rparr>) r)"
  "byID r i = Some q \<Longrightarrow> Stock q + d <s 0 \<Longrightarrow>
     im_UpdateStock ctx i d r = (Err ErrInsufficientStock, [], r)"
  by (simp_all add: im_UpdateStock_def Let_def)

lemma UpdateStock_service_of:
  "\<not> blank i \<Longrightarrow> d \<noteq> 0 \<Longrightarrow> UpdateStock (service_of repo) ctx i d s =
     with_duration ''UpdateStock'' (with_repository (service_of repo)
       (\<lambda>repo. repo_UpdateStock repo ctx i d)
       (\<lambda>e. if errors_is e ErrInsufficientStock then ''insufficient_stock''
            else if errors_is e ErrProductNotFound then ''not_found'' else ''error'')
       ''UpdateStock'' s)"
  by (simp add: UpdateStock_def)

lemma three_requests_run:
  "\<exists>h ms s'. svc_run (service_of in_memory_repo) three_requests im_default = (h, ms, s') \<and>
     list_all settled h \<and> sum_list (map (granted ''prod-001'') h) = 3"
proof -
  have "\<not> blank ''prod-001''" by code_simp
  obtain q where q: "index_by_id defaultProducts ''prod-001'' = Some q" "Stock q = 42" "ID q = ''prod-001''"
    by (simp add: defaultProducts_def)
  with \<open>\<not> blank _\<close> show ?thesis
    by (simp add: three_requests_def UpdateStock_service_of with_repository_service_of
        im_UpdateStock_Some im_store_def word_sless_alt with_duration_def)
qed


text \<open>
  C3: over any safe repository, from a state with its invariant, no history of requests makes
  the service panic or hand out an invalid product or an over-long page, every metric call it
  makes fits its collector, and the invariant holds at the end.
\<close>

theorem service_history_safe:
  assumes "safe_repository repo invar"
    and "invar s" and "list_all (\<lambda>q. offset_in_range (snd q)) qs"
    and "svc_run (service_of repo) qs s = (h, ms, s')"
  shows "invar s' \<and> list_all well_labelled ms \<and> list_all (\<lambda>qa. good_response (snd qa)) h"
  using safe_repository.svc_run_safe [OF assms] .

theorem service_history_safe_witness:
  "im_inv (snd (snd (svc_run (service_of in_memory_repo) three_requests im_default)))"
  using service_history_safe [OF im.safe_repository_axioms im_inv_default three_requests_in_range
      surjective_pairing [THEN trans, OF arg_cong2 [where f = Pair, OF refl surjective_pairing]]]
  by simp

end
