(* ===== verification/Float64.thy ===== *)
theory Float64
  imports Complex_Main "HOL-Library.Log_Nat"
begin

section \<open>float64 as far as the price on the wire needs it\<close>

text \<open>
  Go's \<open>float64(n)\<close> of an \<open>int64\<close> and the division of two \<open>float64\<close> values round the exact
  result to the nearest value with a significand of 53 bits, ties to the even significand
  (IEEE 754 binary64). The values here lie between \<open>0.01\<close> and \<open>2 ^ 63\<close> or are zero, far from
  overflow and from subnormal numbers, so a \<open>float64\<close> is a rational number and an operation is
  the exact operation followed by \<open>to_float64\<close>.
\<close>

definition round_even :: "rat \<Rightarrow> int" where
  "round_even x =
     (let f = \<lfloor>x\<rfloor>; r = x - of_int f
      in if r < 1 / 2 then f else if 1 / 2 < r then f + 1 else if even f then f else f + 1)"

text \<open>The exponent of the leading bit of a positive rational.\<close>

definition leading_exponent :: "rat \<Rightarrow> int" where
  "leading_exponent x =
     (let (a, b) = quotient_of x; k = int (floorlog 2 (nat a)) - int (floorlog 2 (nat b))
      in if 2 powi k \<le> x then k else k - 1)"

definition to_float64 :: "rat \<Rightarrow> rat" where
  "to_float64 x =
     (if x = 0 then 0
      else let u = 2 powi (leading_exponent \<bar>x\<bar> - 52)
           in sgn x * (of_int (round_even (\<bar>x\<bar> / u)) * u))"

lemma round_even_error: "\<bar>of_int (round_even x) - x\<bar> \<le> 1 / 2"
proof -
  define f :: rat where "f = of_int \<lfloor>x\<rfloor>"
  have le: "f \<le> x" and lt: "x < f + 1"
    unfolding f_def by (simp, linarith)
  consider "of_int (round_even x) = f" "x - f \<le> 1 / 2"
    | "of_int (round_even x) = f + 1" "1 / 2 \<le> x - f"
    by (fastforce simp: round_even_def f_def Let_def split: if_splits)
  then show ?thesis
  proof cases
    case 1
    with le show ?thesis by (simp only: abs_le_iff) linarith
  next
    case 2
    with lt show ?thesis by (simp only: abs_le_iff) linarith
  qed
qed

lemma round_even_of_int [simp]: "round_even (of_int n) = n"
  by (simp add: round_even_def)

lemma round_even_nonneg: "0 \<le> x \<Longrightarrow> 0 \<le> round_even x"
  by (simp add: round_even_def Let_def)

lemma quotient_positive:
  assumes "0 < x" and "quotient_of x = (a, b)"
  shows "0 < a" and "0 < b" and "x = of_int a / of_int b"
proof -
  show "0 < b" using assms(2) by (rule quotient_of_denom_pos)
  moreover show "x = of_int a / of_int b" using assms(2) by (rule quotient_of_div)
  ultimately show "0 < a" using assms(1) by (simp add: zero_less_divide_iff)
qed

text \<open>The value lies in the binade of its leading exponent.\<close>

lemma leading_exponent_bounds:
  assumes "0 < x"
  shows "2 powi leading_exponent x \<le> x" and "x < 2 powi (leading_exponent x + 1)"
proof -
  obtain a b where ab: "quotient_of x = (a, b)" by force
  note pos = quotient_positive [OF assms ab]
  define l m where "l = floorlog 2 (nat a)" and "m = floorlog 2 (nat b)"
  have l: "1 \<le> l" "2 ^ (l - 1) \<le> nat a" "nat a < 2 ^ l"
    using floorlog_bounds [of "nat a" 2] pos
    by (auto simp: l_def Suc_le_eq floorlog_def)
  have m: "1 \<le> m" "2 ^ (m - 1) \<le> nat b" "nat b < 2 ^ m"
    using floorlog_bounds [of "nat b" 2] pos
    by (auto simp: m_def Suc_le_eq floorlog_def)
  have a: "2 powi (int l - 1) \<le> (of_int a :: rat)" "(of_int a :: rat) < 2 powi int l"
  proof -
    have "of_nat (2 ^ (l - 1)) \<le> (of_nat (nat a) :: rat)" "(of_nat (nat a) :: rat) < of_nat (2 ^ l)"
      using l by (simp_all only: of_nat_le_iff of_nat_less_iff)
    then show "2 powi (int l - 1) \<le> (of_int a :: rat)" "(of_int a :: rat) < 2 powi int l"
      using l(1) pos by (simp_all add: power_int_def nat_diff_distrib)
  qed
  have b: "2 powi (int m - 1) \<le> (of_int b :: rat)" "(of_int b :: rat) < 2 powi int m"
  proof -
    have "of_nat (2 ^ (m - 1)) \<le> (of_nat (nat b) :: rat)" "(of_nat (nat b) :: rat) < of_nat (2 ^ m)"
      using m by (simp_all only: of_nat_le_iff of_nat_less_iff)
    then show "2 powi (int m - 1) \<le> (of_int b :: rat)" "(of_int b :: rat) < 2 powi int m"
      using m(1) pos by (simp_all add: power_int_def nat_diff_distrib)
  qed
  define k where "k = int l - int m"
  have "x < 2 powi int l / 2 powi (int m - 1)"
    unfolding pos(3) using a b pos by (intro frac_less) auto
  also have "\<dots> = 2 powi (k + 1)"
    using power_int_diff [of "2 :: rat" "int l" "int m - 1"] by (simp add: k_def algebra_simps)
  finally have upper: "x < 2 powi (k + 1)" .
  have "2 powi (int l - 1) / 2 powi int m < x"
    unfolding pos(3) using a b pos by (intro frac_less2) auto
  moreover have "2 powi (int l - 1) / 2 powi int m = (2 powi (k - 1) :: rat)"
    using power_int_diff [of "2 :: rat" "int l - 1" "int m"] by (simp add: k_def algebra_simps)
  ultimately have lower: "2 powi (k - 1) < x" by simp
  have "leading_exponent x = (if 2 powi k \<le> x then k else k - 1)"
    by (simp add: leading_exponent_def ab k_def l_def m_def)
  with upper lower show "2 powi leading_exponent x \<le> x" and "x < 2 powi (leading_exponent x + 1)"
    by auto
qed

text \<open>The rounding is accurate to one part in \<open>2 ^ 53\<close>.\<close>

lemma to_float64_error:
  assumes "0 \<le> x"
  shows "\<bar>to_float64 x - x\<bar> \<le> x / 2 ^ 53"
proof (cases "x = 0")
  case True
  then show ?thesis by (simp add: to_float64_def)
next
  case False
  with assms have x: "0 < x" by simp
  define u :: rat where "u = 2 powi (leading_exponent x - 52)"
  have u: "0 < u" by (simp add: u_def)
  have le: "u * 2 ^ 52 \<le> x"
  proof -
    have "u * 2 powi 52 = 2 powi leading_exponent x"
      using power_int_add [of "2 :: rat" "leading_exponent x - 52" 52] by (simp add: u_def)
    then show ?thesis
      using leading_exponent_bounds(1) [OF x] by simp
  qed
  have "to_float64 x = of_int (round_even (x / u)) * u"
    using x by (simp add: to_float64_def u_def Let_def)
  then have "to_float64 x - x = (of_int (round_even (x / u)) - x / u) * u"
    using u by (simp add: algebra_simps)
  then have "\<bar>to_float64 x - x\<bar> = \<bar>of_int (round_even (x / u)) - x / u\<bar> * u"
    using u by (simp add: abs_mult)
  also have "\<dots> \<le> 1 / 2 * u"
    using u by (intro mult_right_mono round_even_error) simp
  also have "\<dots> \<le> x / 2 ^ 53"
    using le by simp
  finally show ?thesis .
qed

text \<open>An integer of at most 53 bits is a \<open>float64\<close> already.\<close>

lemma to_float64_of_nat:
  assumes "n < 2 ^ 53"
  shows "to_float64 (of_nat n) = of_nat n"
proof (cases "n = 0")
  case True
  then show ?thesis by (simp add: to_float64_def)
next
  case False
  define x :: rat where "x = of_nat n"
  have "of_nat n < (of_nat (2 ^ 53) :: rat)"
    using assms by (simp only: of_nat_less_iff)
  then have x: "0 < x" "x < 2 powi 53"
    using False by (simp_all add: x_def)
  have "2 powi leading_exponent x < (2 powi 53 :: rat)"
    using leading_exponent_bounds(1) [OF x(1)] x(2) by (rule le_less_trans)
  then have e: "leading_exponent x \<le> 52"
    using power_int_increasing [of 53 "leading_exponent x" "2 :: rat"]
    by (cases "53 \<le> leading_exponent x") auto
  define u :: rat where "u = 2 powi (leading_exponent x - 52)"
  have "x / u = of_nat n * 2 powi (52 - leading_exponent x)"
    by (simp add: u_def x_def power_int_diff field_simps)
  also have "\<dots> = of_int (int n * 2 ^ nat (52 - leading_exponent x))"
    using e by (simp add: power_int_def)
  finally have "of_int (round_even (x / u)) = x / u"
    by (metis round_even_of_int)
  moreover have "0 < u" by (simp add: u_def)
  ultimately have "to_float64 x = x"
    using x by (simp add: to_float64_def u_def Let_def)
  then show ?thesis by (simp add: x_def)
qed

end
