(* ===== verification/Grpc_Handler.thy ===== *)
theory Grpc_Handler
  imports Service Float64 In_Memory
begin

section \<open>The gRPC handlers\<close>

text \<open>
  \<open>internal/transport/grpc/v1/handlers/handler.go\<close>: three methods that validate the request
  message, call the service, and turn its answer into a message or a status. The messages are
  generated code outside the repository, of which the handlers use the fields modelled here; a
  request pointer may be nil, and its getters then return zero values. A status error is a code
  and a text.
\<close>

datatype grpc_code = CodeOK | InvalidArgument | NotFound | Internal

fun code_String :: "grpc_code \<Rightarrow> string" where
  "code_String CodeOK = ''OK''"
| "code_String InvalidArgument = ''InvalidArgument''"
| "code_String NotFound = ''NotFound''"
| "code_String Internal = ''Internal''"

datatype grpc_status = Status (status_code: grpc_code) (status_text: string)

record list_request =
  rLimit :: uint32
  rOffset :: uint32

definition GetLimit :: "list_request option \<Rightarrow> uint32" where
  "GetLimit req = (case req of None \<Rightarrow> 0 | Some r \<Rightarrow> rLimit r)"

definition GetOffset :: "list_request option \<Rightarrow> uint32" where
  "GetOffset req = (case req of None \<Rightarrow> 0 | Some r \<Rightarrow> rOffset r)"

definition GetId :: "string option \<Rightarrow> string" where
  "GetId req = (case req of None \<Rightarrow> [] | Some i \<Rightarrow> i)"

record proto_product =
  ppId :: string
  ppSku :: string
  ppName :: string
  ppDescription :: string
  ppPrice :: rat
  ppCurrency :: string
  ppStock :: uint32
  ppActive :: bool
  ppUpdatedAt :: string

record list_response =
  Items :: "proto_product list"
  Total :: uint32

type_synonym ('s, 'a) grpc_act =
  "'s \<Rightarrow> (grpc_status, 'a) outcome \<times> metric_event list \<times> 's"

subsection \<open>The pure parts\<close>

definition validateListProductsRequest :: "list_request option \<Rightarrow> grpc_status option" where
  "validateListProductsRequest req =
     (if req = None then Some (Status InvalidArgument ''request is required'')
      else if 1000 < GetLimit req then Some (Status InvalidArgument ''limit must be <= 1000'')
      else None)"

definition validateGetProductRequest :: "string option \<Rightarrow> grpc_status option" where
  "validateGetProductRequest req =
     (if req = None then Some (Status InvalidArgument ''request is required'')
      else if trim_space (GetId req) = [] then Some (Status InvalidArgument ''id is required'')
      else None)"

text \<open>\<open>float64(p.PriceCents) / 100.0\<close>.\<close>

definition price_of_cents :: "int64 \<Rightarrow> rat" where
  "price_of_cents c = to_float64 (to_float64 (of_int (sint c)) / 100)"

definition toProtoProduct :: "product \<Rightarrow> proto_product" where
  "toProtoProduct p =
     \<lparr>ppId = ID p, ppSku = SKU p, ppName = Name p, ppDescription = Description p,
      ppPrice = price_of_cents (PriceCents p), ppCurrency = Currency p, ppStock = Stock p,
      ppActive = Active p, ppUpdatedAt = []\<rparr>"

definition mapError :: "go_error \<Rightarrow> grpc_status" where
  "mapError e =
     (if errors_is e ErrProductNotFound then Status NotFound (error_text e)
      else if errors_is e ErrInvalidPagination then Status InvalidArgument (error_text e)
      else Status Internal (error_text e))"

text \<open>What the handlers log of a value; a cut may fall inside a rune.\<close>

definition truncate_log :: "string \<Rightarrow> int \<Rightarrow> string" where
  "truncate_log value maxLen =
     (if maxLen \<le> 0 then value
      else if int (length value) \<le> maxLen then value
      else if maxLen \<le> 3 then take (nat maxLen) value
      else take (nat (maxLen - 3)) value @ ''...'')"

subsection \<open>The methods\<close>

definition grpc_total :: "string \<Rightarrow> grpc_code \<Rightarrow> metric_event" where
  "grpc_total method code = Inc GRPCRequestsTotal [method, code_String code]"

definition with_grpc_duration ::
  "string \<Rightarrow> (grpc_status, 'a) outcome \<times> metric_event list \<times> 's \<Rightarrow>
     (grpc_status, 'a) outcome \<times> metric_event list \<times> 's"
where
  "with_grpc_duration method res =
     (case res of (r, ms, s) \<Rightarrow> (r, ms @ [Observe GRPCRequestDuration [method]], s))"

definition NewHandler :: "'s catalog_service option \<Rightarrow> 's catalog_service option result" where
  "NewHandler svc = (if svc = None then Err (Plain ''catalog service is nil'') else Ok svc)"

definition grpc_ListProducts ::
  "'s catalog_service option \<Rightarrow> context_err \<Rightarrow> list_request option \<Rightarrow> ('s, list_response) grpc_act"
where
  "grpc_ListProducts svc ctx req s = with_grpc_duration ''ListProducts''
     (case validateListProductsRequest req of
        Some st \<Rightarrow> (Err st, [grpc_total ''ListProducts'' InvalidArgument], s)
      | None \<Rightarrow>
          (case ListProducts svc ctx (ucast (GetLimit req)) (ucast (GetOffset req)) s of
             (Err e, ms, s) \<Rightarrow>
               (let mapped = mapError e
                in (Err mapped, ms @ [grpc_total ''ListProducts'' (status_code mapped)], s))
           | (Ok prods, ms, s) \<Rightarrow>
               (let items = map toProtoProduct prods
                in (Ok \<lparr>Items = items, Total = of_nat (length items)\<rparr>,
                    ms @ [grpc_total ''ListProducts'' CodeOK], s))
           | (Panic m, ms, s) \<Rightarrow> (Panic m, ms, s)))"

definition grpc_GetProduct ::
  "'s catalog_service option \<Rightarrow> context_err \<Rightarrow> string option \<Rightarrow> ('s, proto_product) grpc_act"
where
  "grpc_GetProduct svc ctx req s = with_grpc_duration ''GetProduct''
     (case validateGetProductRequest req of
        Some st \<Rightarrow> (Err st, [grpc_total ''GetProduct'' InvalidArgument], s)
      | None \<Rightarrow>
          (case GetProduct svc ctx (GetId req) s of
             (Err e, ms, s) \<Rightarrow>
               (let mapped = mapError e
                in (Err mapped, ms @ [grpc_total ''GetProduct'' (status_code mapped)], s))
           | (Ok product, ms, s) \<Rightarrow>
               (Ok (toProtoProduct product), ms @ [grpc_total ''GetProduct'' CodeOK], s)
           | (Panic m, ms, s) \<Rightarrow> (Panic m, ms, s)))"

text \<open>
  The loop of \<open>StreamProducts\<close>. Sending is the stream's own code: a function of the stream's
  state to an error or nil and the next state.
\<close>

fun send_all ::
  "(proto_product \<Rightarrow> 'k \<Rightarrow> go_error option \<times> 'k) \<Rightarrow> product list \<Rightarrow> 'k \<Rightarrow>
     go_error option \<times> 'k"
where
  "send_all send [] k = (None, k)"
| "send_all send (p # ps) k =
     (case send (toProtoProduct p) k of
        (Some e, k) \<Rightarrow> (Some e, k)
      | (None, k) \<Rightarrow> send_all send ps k)"

definition grpc_StreamProducts ::
  "'s catalog_service option \<Rightarrow> (proto_product \<Rightarrow> 'k \<Rightarrow> go_error option \<times> 'k) \<Rightarrow>
     context_err \<Rightarrow> list_request option \<Rightarrow> ('s \<times> 'k, unit) grpc_act"
where
  "grpc_StreamProducts svc send ctx req sk = with_grpc_duration ''StreamProducts''
     (case sk of (s, k) \<Rightarrow>
        (case validateListProductsRequest req of
           Some st \<Rightarrow> (Err st, [grpc_total ''StreamProducts'' InvalidArgument], (s, k))
         | None \<Rightarrow>
             (case ListProducts svc ctx (ucast (GetLimit req)) (ucast (GetOffset req)) s of
                (Err e, ms, s) \<Rightarrow>
                  (let mapped = mapError e
                   in (Err mapped, ms @ [grpc_total ''StreamProducts'' (status_code mapped)], (s, k)))
              | (Ok prods, ms, s) \<Rightarrow>
                  (case send_all send prods k of
                     (Some e, k) \<Rightarrow>
                       (Err (Status Internal ''failed to send stream item''),
                        ms @ [grpc_total ''StreamProducts'' Internal], (s, k))
                   | (None, k) \<Rightarrow> (Ok (), ms @ [grpc_total ''StreamProducts'' CodeOK], (s, k)))
              | (Panic m, ms, s) \<Rightarrow> (Panic m, ms, (s, k)))))"

subsection \<open>The pure parts are right\<close>

lemma truncate_log_length:
  "0 < maxLen \<Longrightarrow> int (length (truncate_log v maxLen)) \<le> maxLen"
  by (auto simp: truncate_log_def)

text \<open>The two roundings of a price of less than \<open>2 ^ 52\<close> cents.\<close>

lemma price_of_cents_error:
  assumes "0 \<le> sint c" and "sint c < 2 ^ 52"
  shows "\<bar>price_of_cents c - of_int (sint c) / 100\<bar> \<le> of_int (sint c) / 100 / 2 ^ 53"
    and "\<bar>price_of_cents c - of_int (sint c) / 100\<bar> < 1 / 200"
proof -
  have "to_float64 (of_nat (nat (sint c))) = of_nat (nat (sint c))"
    using assms by (intro to_float64_of_nat) simp
  with assms have exact: "price_of_cents c = to_float64 (of_int (sint c) / 100)"
    by (simp add: price_of_cents_def)
  have "(of_int 0 :: rat) \<le> of_int (sint c)"
    using assms(1) by (simp only: of_int_le_iff)
  then have "(0 :: rat) \<le> of_int (sint c) / 100" by linarith
  from to_float64_error [OF this]
  show error: "\<bar>price_of_cents c - of_int (sint c) / 100\<bar> \<le> of_int (sint c) / 100 / 2 ^ 53"
    by (simp only: exact)
  have "(of_int (sint c) :: rat) < of_int (2 ^ 52)"
    using assms(2) by (simp only: of_int_less_iff)
  then have "of_int (sint c) / 100 / 2 ^ 53 < (1 / 200 :: rat)" by simp
  with error show "\<bar>price_of_cents c - of_int (sint c) / 100\<bar> < 1 / 200" by linarith
qed



lemma mapError_code:
  "status_code (mapError e) =
     (if errors_is e ErrProductNotFound then NotFound
      else if errors_is e ErrInvalidPagination then InvalidArgument else Internal)"
  by (simp add: mapError_def)

lemma list_request_limit:
  "validateListProductsRequest req = None \<longleftrightarrow> req \<noteq> None \<and> uint (GetLimit req) \<le> 1000"
proof -
  have "1000 < GetLimit req \<longleftrightarrow> 1000 < uint (GetLimit req)"
    by (simp add: word_less_def)
  then show ?thesis by (auto simp: validateListProductsRequest_def)
qed

lemma request_offset_range: "0 \<le> sint (ucast (x :: uint32) :: int64) \<and> sint (ucast x :: int64) < 2 ^ 62"
proof -
  have "uint x < 2 ^ 32" using uint_lt2p [of x] by simp
  then show ?thesis by simp
qed

subsection \<open>Sending\<close>

text \<open>
  Over a stream that appends a message it accepts and keeps nothing of one it refuses, the loop
  sends the products in order up to the first refusal.
\<close>

definition faithful_stream ::
  "(proto_product \<Rightarrow> 'k \<Rightarrow> go_error option \<times> 'k) \<Rightarrow> ('k \<Rightarrow> proto_product list) \<Rightarrow> bool"
where
  "faithful_stream send sent \<longleftrightarrow>
     (\<forall>m k. case send m k of (r, k') \<Rightarrow> sent k' = (if r = None then sent k @ [m] else sent k))"

lemma faithful_streamD:
  "faithful_stream send sent \<Longrightarrow> send m k = (r, k') \<Longrightarrow>
     sent k' = (if r = None then sent k @ [m] else sent k)"
  by (auto simp: faithful_stream_def split: prod.splits)

lemma send_all_prefix:
  assumes "faithful_stream send sent"
  shows "send_all send ps k = (r, k') \<Longrightarrow>
    \<exists>n. sent k' = sent k @ map toProtoProduct (take n ps) \<and>
      (if r = None then n = length ps else n < length ps)"
proof (induction ps arbitrary: k)
  case Nil
  then show ?case by simp
next
  case (Cons p ps)
  obtain r1 k1 where send: "send (toProtoProduct p) k = (r1, k1)" by force
  show ?case
  proof (cases r1)
    case (Some e)
    with Cons.prems faithful_streamD [OF assms send] send show ?thesis
      by (intro exI [of _ 0]) auto
  next
    case None
    with Cons.prems send have "send_all send ps k1 = (r, k')" by simp
    from Cons.IH [OF this] obtain n where
      "sent k' = sent k1 @ map toProtoProduct (take n ps)"
      "if r = None then n = length ps else n < length ps" by blast
    with None faithful_streamD [OF assms send] show ?thesis
      by (intro exI [of _ "Suc n"]) auto
  qed
qed

subsection \<open>The methods over a repository\<close>

lemma grpc_total_labels [simp]:
  "inc_labels GRPCRequestsTotal (grpc_total method code # ms) =
     [method, code_String code] # inc_labels GRPCRequestsTotal ms"
  "well_labelled (grpc_total method code)"
  by (simp_all add: grpc_total_def)

text \<open>
  What is counted of a request: one increment of \<open>GRPCRequestsTotal\<close>, with the method and the
  code the caller receives; and every metric call fits its collector.
\<close>

fun code_of :: "(grpc_status, 'a) outcome \<Rightarrow> grpc_code option" where
  "code_of (Ok a) = Some CodeOK"
| "code_of (Err st) = Some (status_code st)"
| "code_of (Panic m) = None"

definition grpc_counted ::
  "string \<Rightarrow> (grpc_status, 'a) outcome \<times> metric_event list \<times> 's \<Rightarrow> bool"
where
  "grpc_counted method res \<longleftrightarrow>
     (case res of (r, ms, s) \<Rightarrow>
        (\<exists>c. code_of r = Some c \<and> inc_labels GRPCRequestsTotal ms = [[method, code_String c]]) \<and>
        list_all well_labelled ms)"

text \<open>The service makes no call on the handlers' counter.\<close>

definition quiet :: "metric_event list \<Rightarrow> bool" where
  "quiet ms \<longleftrightarrow> list_all well_labelled ms \<and> inc_labels GRPCRequestsTotal ms = []"

lemma quiet_counted:
  "quiet ms \<Longrightarrow> code_of r = Some c \<Longrightarrow>
     grpc_counted method (with_grpc_duration method (r, ms @ [grpc_total method c], s))"
  by (auto simp: quiet_def grpc_counted_def with_grpc_duration_def)

lemma refused_counted:
  "status_code st = c \<Longrightarrow>
     grpc_counted method (with_grpc_duration method (Err st, [grpc_total method c], s))"
  using quiet_counted [of "[]" "Err st" c] by (simp add: quiet_def)

lemma quiet_Nil [simp]: "quiet []"
  by (simp add: quiet_def)

context safe_repository
begin

lemma ListProducts_quiet:
  assumes "invar s" and "sint off < 2 ^ 62"
    and run: "ListProducts (service_of repo) ctx l off s = (r, ms, s')"
  shows "quiet ms \<and> ok_or_err (good_page maxListLimit) r \<and> invar s'"
proof -
  have safe: "list_all well_labelled ms \<and> ok_or_err (good_page maxListLimit) r \<and> invar s'"
    using ListProducts_safe [OF assms(2), of ctx l] run assms(1) by (auto dest: runs_safeD)
  have "inc_labels GRPCRequestsTotal ms = []"
  proof (cases "off <s 0")
    case True
    with run show ?thesis by (auto simp: ListProducts_def with_duration_def requests_total_def)
  next
    case False
    obtain r1 ms1 s1 where call: "repo_List repo ctx (effective_limit l) off s = (r1, ms1, s1)"
      by (metis prod_cases3)
    have "page_args (effective_limit l) off"
      using False assms(2) by (intro page_args_effective) (simp_all add: word_sless_alt)
    then have "list_all cache_event ms1"
      using List_safe call assms(1) by (blast dest: runs_safeD)
    then have "inc_labels GRPCRequestsTotal ms1 = []"
      by (rule inc_labels_cache_events) simp
    with False run call show ?thesis
      by (cases r1) (auto simp: ListProducts_def with_duration_def requests_total_def Let_def)
  qed
  with safe show ?thesis by (simp add: quiet_def)
qed

lemma GetProduct_quiet:
  assumes "invar s" and run: "GetProduct (service_of repo) ctx i s = (r, ms, s')"
  shows "quiet ms \<and> ok_or_err product_wf r \<and> invar s'"
proof -
  have safe: "list_all well_labelled ms \<and> ok_or_err product_wf r \<and> invar s'"
    using GetProduct_safe [of ctx i] run assms(1) by (auto dest: runs_safeD)
  obtain r1 ms1 s1 where call: "repo_GetByID repo ctx i s = (r1, ms1, s1)"
    by (metis prod_cases3)
  have "list_all cache_event ms1"
    using GetByID_safe call assms(1) by (blast dest: runs_safeD)
  then have "inc_labels GRPCRequestsTotal ms1 = []"
    by (rule inc_labels_cache_events) simp
  with run call have "inc_labels GRPCRequestsTotal ms = []"
    by (cases r1) (auto simp: GetProduct_def with_duration_def requests_total_def split: if_splits)
  with safe show ?thesis by (simp add: quiet_def)
qed

lemma grpc_ListProducts_counted:
  assumes "invar s"
  shows "grpc_counted ''ListProducts'' (grpc_ListProducts (service_of repo) ctx req s)"
proof (cases "validateListProductsRequest req")
  case (Some st)
  then have "status_code st = InvalidArgument"
    by (auto simp: validateListProductsRequest_def split: if_splits)
  with Some refused_counted show ?thesis by (simp add: grpc_ListProducts_def)
next
  case None
  obtain r ms s' where run: "ListProducts (service_of repo) ctx (ucast (GetLimit req))
      (ucast (GetOffset req)) s = (r, ms, s')" by (metis prod_cases3)
  with ListProducts_quiet [OF assms _ run] request_offset_range [of "GetOffset req"]
  have "quiet ms" "ok_or_err (good_page maxListLimit) r" by simp_all
  with None run show ?thesis
    by (cases r) (auto simp: grpc_ListProducts_def Let_def intro!: quiet_counted)
qed

lemma grpc_GetProduct_counted:
  assumes "invar s"
  shows "grpc_counted ''GetProduct'' (grpc_GetProduct (service_of repo) ctx i s)"
proof (cases "validateGetProductRequest i")
  case (Some st)
  then have "status_code st = InvalidArgument"
    by (auto simp: validateGetProductRequest_def split: if_splits)
  with Some refused_counted show ?thesis by (simp add: grpc_GetProduct_def)
next
  case None
  obtain r ms s' where run: "GetProduct (service_of repo) ctx (GetId i) s = (r, ms, s')"
    by (metis prod_cases3)
  with GetProduct_quiet [OF assms run] have "quiet ms" "ok_or_err product_wf r" by simp_all
  with None run show ?thesis
    by (cases r) (auto simp: grpc_GetProduct_def Let_def intro!: quiet_counted)
qed

lemma grpc_StreamProducts_counted:
  assumes "invar s"
  shows "grpc_counted ''StreamProducts''
    (grpc_StreamProducts (service_of repo) send ctx req (s, k))"
proof (cases "validateListProductsRequest req")
  case (Some st)
  then have "status_code st = InvalidArgument"
    by (auto simp: validateListProductsRequest_def split: if_splits)
  with Some refused_counted show ?thesis by (simp add: grpc_StreamProducts_def)
next
  case None
  obtain r ms s' where run: "ListProducts (service_of repo) ctx (ucast (GetLimit req))
      (ucast (GetOffset req)) s = (r, ms, s')" by (metis prod_cases3)
  with ListProducts_quiet [OF assms _ run] request_offset_range [of "GetOffset req"]
  have "quiet ms" "ok_or_err (good_page maxListLimit) r" by simp_all
  with None run show ?thesis
    by (cases r)
       (auto simp: grpc_StreamProducts_def Let_def intro!: quiet_counted
         split: prod.splits option.splits)
qed

end

text \<open>
  C30: over any safe repository none of the three gRPC methods panics, whatever the request; each
  counts the request once, under its own name and with exactly the code the caller receives, and
  every metric call it makes fits its collector.
\<close>

theorem grpc_counts_each_request:
  assumes "safe_repository repo invar" and "invar s"
  shows "grpc_counted ''ListProducts'' (grpc_ListProducts (service_of repo) ctx req s) \<and>
    grpc_counted ''GetProduct'' (grpc_GetProduct (service_of repo) ctx i s) \<and>
    grpc_counted ''StreamProducts'' (grpc_StreamProducts (service_of repo) send ctx req (s, k))"
  by (intro conjI safe_repository.grpc_ListProducts_counted [OF assms]
      safe_repository.grpc_GetProduct_counted [OF assms]
      safe_repository.grpc_StreamProducts_counted [OF assms])

theorem grpc_counts_each_request_witness:
  "grpc_counted ''GetProduct'' (grpc_GetProduct (service_of in_memory_repo) None (Some ''prod-9'')
     im_default)"
  by (rule grpc_counts_each_request [THEN conjunct2, THEN conjunct1,
        OF im.safe_repository_axioms im_inv_default])

lemma grpc_list_page:
  assumes "spec_repository repo invar listing" and "invar s"
    and "grpc_ListProducts (service_of repo) ctx req s = (Ok resp, ms, s')"
  shows "\<exists>r. req = Some r \<and> uint (rLimit r) \<le> 1000 \<and>
    Items resp = map toProtoProduct
      (page (if rLimit r = 0 then 20 else if uint (rLimit r) \<le> 100 then ucast (rLimit r) else 100)
        (ucast (rOffset r)) (listing s)) \<and>
    uint (Total resp) = int (length (Items resp)) \<and> length (Items resp) \<le> 100 \<and>
    listing s' = listing s"
proof -
  have valid: "validateListProductsRequest req = None"
    using assms(3) by (auto simp: grpc_ListProducts_def with_grpc_duration_def split: option.splits)
  then obtain r where r: "req = Some r" "uint (rLimit r) \<le> 1000"
    by (auto simp: list_request_limit GetLimit_def)
  let ?off = "ucast (rOffset r) :: int64"
  let ?lim = "effective_limit (ucast (rLimit r))"
  have args: "page_args ?lim ?off"
    using request_offset_range [of "rOffset r"] by (intro page_args_effective) simp_all
  obtain ps ms1 where run: "ListProducts (service_of repo) ctx (ucast (rLimit r)) ?off s = (Ok ps, ms1, s')"
    and resp: "resp = \<lparr>Items = map toProtoProduct ps, Total = of_nat (length ps)\<rparr>"
    using assms(3) valid r
    by (auto simp: grpc_ListProducts_def with_grpc_duration_def GetLimit_def GetOffset_def Let_def
        split: prod.splits outcome.splits)
  then obtain ms2 where "repo_List repo ctx ?lim ?off s = (Ok ps, ms2, s')"
    using ListProducts_passes [OF run] by auto
  then have ps: "ps = page ?lim ?off (listing s)" "listing s' = listing s"
    using spec_repository.List_ok [OF assms(1,2) args] by blast+
  have len: "length ps \<le> 100"
    using effective_limit_bounds [of "ucast (rLimit r)"] ps(1)
      length_page [of ?lim ?off "listing s"] by simp
  then have "uint (Total resp) = int (length (Items resp))"
    using resp by (simp add: take_bit_nat_eq_self unsigned_of_nat)
  moreover have "?lim = (if rLimit r = 0 then 20 else if uint (rLimit r) \<le> 100 then ucast (rLimit r) else 100)"
  proof -
    have "0 \<le> uint (rLimit r)" and "uint (rLimit r) = 0 \<longleftrightarrow> rLimit r = 0"
      by (simp_all add: uint_0_iff)
    then show ?thesis by (simp add: effective_limit_cases)
  qed
  ultimately show ?thesis using r resp ps len by simp
qed

text \<open>
  A listing over gRPC. When \<open>ListProducts\<close> answers with a message, the request was there and
  its limit at most 1000; the items are, in catalogue order, the products of the page the request
  names, with the limit replaced by 20 when it is 0 and by 100 when it is larger; \<open>total\<close> is the
  number of items sent (never more than 100), not the size of the catalogue; and nothing changed.
\<close>

theorem grpc_ListProducts_page:
  assumes "spec_repository repo invar listing" and "invar s"
    and "grpc_ListProducts (service_of repo) ctx req s = (Ok resp, ms, s')"
  shows "\<exists>r. req = Some r \<and> uint (rLimit r) \<le> 1000 \<and>
    Items resp = map toProtoProduct
      (page (if rLimit r = 0 then 20 else if uint (rLimit r) \<le> 100 then ucast (rLimit r) else 100)
        (ucast (rOffset r)) (listing s)) \<and>
    uint (Total resp) = int (length (Items resp)) \<and> length (Items resp) \<le> 100 \<and>
    listing s' = listing s"
  by (rule grpc_list_page [OF assms])

theorem grpc_ListProducts_page_witness:
  "\<exists>resp ms s'. grpc_ListProducts (service_of in_memory_repo) None (Some \<lparr>rLimit = 2, rOffset = 3\<rparr>)
      im_default = (Ok resp, ms, s') \<and>
    map ppId (Items resp) = [''prod-004'', ''prod-005'']"
proof -
  let ?s = im_default
  let ?req = "Some \<lparr>rLimit = 2, rOffset = 3\<rparr>"
  have "page_args 2 (3 :: int64)" by (simp add: page_args_def)
  then have list: "im_List None 2 3 ?s = (Ok (page 2 3 defaultProducts), [], ?s)"
    using im_List_page [of 2 3 ?s] by simp
  have "validateListProductsRequest ?req = None"
    by (simp add: list_request_limit GetLimit_def)
  moreover have "effective_limit 2 = 2" by (simp add: effective_limit_cases)
  ultimately obtain resp ms where run:
    "grpc_ListProducts (service_of in_memory_repo) None ?req ?s = (Ok resp, ms, ?s)"
    using list
    by (simp add: grpc_ListProducts_def with_grpc_duration_def GetLimit_def GetOffset_def Let_def
        ListProducts_def with_duration_def word_sless_alt)
  from grpc_ListProducts_page [OF im.spec_repository_axioms im_inv_default run]
  have "Items resp = map toProtoProduct (page 2 3 defaultProducts)" by simp
  then have "map ppId (Items resp) = [''prod-004'', ''prod-005'']"
    by (simp add: page_def defaultProducts_def toProtoProduct_def)
  with run show ?thesis by (intro exI conjI)
qed

lemma grpc_stream_list:
  assumes law: "faithful_stream send sent"
    and stream: "grpc_StreamProducts svc send ctx req (s, k) = (r, ms, (s', k'))"
    and list: "grpc_ListProducts svc ctx req s = (r', ms', s'')"
  shows "s' = s'' \<and>
    (case r' of
       Ok resp \<Rightarrow> \<exists>n. sent k' = sent k @ take n (Items resp) \<and>
         (r = Ok () \<and> n = length (Items resp) \<or>
          r = Err (Status Internal ''failed to send stream item'') \<and> n < length (Items resp))
     | Err st \<Rightarrow> r = Err st \<and> k' = k
     | Panic m \<Rightarrow> r = Panic m \<and> k' = k)"
proof (cases "validateListProductsRequest req")
  case (Some st)
  with stream list show ?thesis
    by (auto simp: grpc_StreamProducts_def grpc_ListProducts_def with_grpc_duration_def)
next
  case None
  obtain r1 ms1 s1 where run: "ListProducts svc ctx (ucast (GetLimit req)) (ucast (GetOffset req)) s
      = (r1, ms1, s1)" by (metis prod_cases3)
  show ?thesis
  proof (cases r1)
    case (Ok ps)
    obtain e k1 where send: "send_all send ps k = (e, k1)" by force
    from send_all_prefix [OF law send] obtain n where
      "sent k1 = sent k @ map toProtoProduct (take n ps)"
      "if e = None then n = length ps else n < length ps" by blast
    with None run Ok send stream list show ?thesis
      by (cases e)
         (auto simp: grpc_StreamProducts_def grpc_ListProducts_def with_grpc_duration_def Let_def
           take_map)
  next
    case (Err e)
    with None run stream list show ?thesis
      by (auto simp: grpc_StreamProducts_def grpc_ListProducts_def with_grpc_duration_def Let_def)
  next
    case (Panic m)
    with None run stream list show ?thesis
      by (auto simp: grpc_StreamProducts_def grpc_ListProducts_def with_grpc_duration_def Let_def)
  qed
qed

text \<open>
  C31: streaming agrees with listing. Over any repository, when \<open>ListProducts\<close> would answer a
  request with items, \<open>StreamProducts\<close> sends exactly those items in that order, or, when the
  stream refuses one, a proper prefix of them and then fails with \<open>Internal\<close>; when
  \<open>ListProducts\<close> would fail, it fails with the same status and sends nothing. The stream is
  any that adds an accepted message to what it has sent and a refused one not.
\<close>

theorem grpc_StreamProducts_as_List:
  assumes law: "faithful_stream send sent"
    and stream: "grpc_StreamProducts svc send ctx req (s, k) = (r, ms, (s', k'))"
    and list: "grpc_ListProducts svc ctx req s = (r', ms', s'')"
  shows "s' = s'' \<and>
    (case r' of
       Ok resp \<Rightarrow> \<exists>n. sent k' = sent k @ take n (Items resp) \<and>
         (r = Ok () \<and> n = length (Items resp) \<or>
          r = Err (Status Internal ''failed to send stream item'') \<and> n < length (Items resp))
     | Err st \<Rightarrow> r = Err st \<and> k' = k
     | Panic m \<Rightarrow> r = Panic m \<and> k' = k)"
  by (rule grpc_stream_list [OF assms])

text \<open>The witness's stream accepts two messages.\<close>

theorem grpc_StreamProducts_as_List_witness:
  "let send = (\<lambda>m k. if length k < 2 then (None, k @ [m]) else (Some (Plain ''closed''), k));
       s = im_default;
       req = Some \<lparr>rLimit = 3, rOffset = 0\<rparr>
   in \<exists>r ms s' k' n resp.
        grpc_StreamProducts (service_of in_memory_repo) send None req (s, []) = (r, ms, (s', k')) \<and>
        fst (grpc_ListProducts (service_of in_memory_repo) None req s) = Ok resp \<and>
        k' = take n (Items resp)"
proof -
  define send :: "proto_product \<Rightarrow> proto_product list \<Rightarrow> go_error option \<times> proto_product list"
    where "send m k = (if length k < 2 then (None, k @ [m]) else (Some (Plain ''closed''), k))" for m k
  let ?s = im_default
  let ?req = "Some \<lparr>rLimit = 3, rOffset = 0\<rparr>"
  have "page_args 3 (0 :: int64)" by (simp add: page_args_def)
  then have "im_List None 3 0 ?s = (Ok (page 3 0 defaultProducts), [], ?s)"
    using im_List_page [of 3 0 ?s] by simp
  moreover have "validateListProductsRequest ?req = None"
    by (simp add: list_request_limit GetLimit_def)
  moreover have "effective_limit 3 = 3" by (simp add: effective_limit_cases)
  ultimately obtain resp ms1 where list:
    "grpc_ListProducts (service_of in_memory_repo) None ?req ?s = (Ok resp, ms1, ?s)"
    by (simp add: grpc_ListProducts_def with_grpc_duration_def GetLimit_def GetOffset_def Let_def
        ListProducts_def with_duration_def word_sless_alt)
  obtain r ms s' k' where stream:
    "grpc_StreamProducts (service_of in_memory_repo) send None ?req (?s, []) = (r, ms, (s', k'))"
    by (metis prod_cases4)
  have "faithful_stream send (\<lambda>k. k)"
    by (simp add: faithful_stream_def send_def)
  from grpc_StreamProducts_as_List [OF this stream list]
  have "\<exists>n. k' = take n (Items resp)" by auto
  then have "\<exists>r ms s' k' n resp.
        grpc_StreamProducts (service_of in_memory_repo) send None ?req (?s, []) = (r, ms, (s', k')) \<and>
        fst (grpc_ListProducts (service_of in_memory_repo) None ?req ?s) = Ok resp \<and>
        k' = take n (Items resp)"
    using stream list by (elim exE) (intro exI conjI, assumption, simp, assumption)
  then show ?thesis by (simp only: Let_def send_def [abs_def])
qed

end
