(* ===== verification/Go_Json.thy ===== *)
theory Go_Json
  imports Go_Strings
begin

section \<open>JSON the way Go's encoding/json writes and reads it\<close>

text \<open>
  The cache, the event payloads and the HTTP bodies go through \<open>encoding/json\<close> of the standard
  library. This theory models what of it they use: UTF-8 recognition, the string encoder with
  its HTML escapes, the string decoder with its escapes and surrogates, values as trees, a
  printer and a parser for them. Numbers are kept as their literals. The decoder's nesting
  limit of ten thousand levels is left out: the structs decoded here are two levels deep, and a
  deeper body is refused by their fields anyway.
\<close>

subsection \<open>UTF-8\<close>

definition byte :: "char \<Rightarrow> nat" where
  "byte c = of_char c"

definition cont_byte :: "char \<Rightarrow> bool" where
  "cont_byte c \<longleftrightarrow> 0x80 \<le> byte c \<and> byte c \<le> 0xBF"

text \<open>
  \<open>utf8.DecodeRune\<close>: the length of the rune a string starts with, 0 for an invalid one. A lead
  byte fixes the length, and four of them narrow the range of the byte after them.
\<close>

definition lead_len :: "char \<Rightarrow> nat" where
  "lead_len a =
     (let n = byte a in
      if n < 0x80 then 1
      else if 0xC2 \<le> n \<and> n \<le> 0xDF then 2
      else if 0xE0 \<le> n \<and> n \<le> 0xEF then 3
      else if 0xF0 \<le> n \<and> n \<le> 0xF4 then 4
      else 0)"

fun second_ok :: "char \<Rightarrow> string \<Rightarrow> bool" where
  "second_ok a [] \<longleftrightarrow> True"
| "second_ok a (b # t) \<longleftrightarrow>
     (byte a = 0xE0 \<longrightarrow> 0xA0 \<le> byte b) \<and> (byte a = 0xED \<longrightarrow> byte b \<le> 0x9F) \<and>
     (byte a = 0xF0 \<longrightarrow> 0x90 \<le> byte b) \<and> (byte a = 0xF4 \<longrightarrow> byte b \<le> 0x8F)"

fun utf8_len :: "string \<Rightarrow> nat" where
  "utf8_len [] = 0"
| "utf8_len (a # t) =
     (if lead_len a - 1 \<le> length t \<and> list_all cont_byte (take (lead_len a - 1) t) \<and> second_ok a t
      then lead_len a else 0)"

declare utf8_len.simps(2) [simp del]

lemma utf8_len_le: "utf8_len s \<le> length s"
  by (cases s) (auto simp: utf8_len.simps(2))

lemma lead_len_ascii: "byte c < 128 \<longleftrightarrow> lead_len c = 1"
  by (auto simp: lead_len_def Let_def)

lemma second_ok_ascii: "byte c < 128 \<Longrightarrow> second_ok c t"
  by (cases t) auto

lemma utf8_len_ascii [simp]: "byte c < 128 \<Longrightarrow> utf8_len (c # s) = 1"
  by (simp add: utf8_len.simps(2) lead_len_ascii second_ok_ascii)

lemma utf8_len_prefix:
  assumes "0 < utf8_len s"
  shows "utf8_len (take (utf8_len s) s @ t) = utf8_len s"
proof (cases s)
  case (Cons a u)
  with assms have len: "utf8_len s = lead_len a" and ok: "lead_len a - 1 \<le> length u"
      "list_all cont_byte (take (lead_len a - 1) u)" "second_ok a u"
    by (auto simp: utf8_len.simps(2) split: if_splits)
  obtain m where m: "lead_len a = Suc m" using assms len by (cases "lead_len a") auto
  have "second_ok a (take m u @ t)"
  proof (cases m)
    case 0
    with m show ?thesis by (simp add: second_ok_ascii lead_len_ascii)
  next
    case (Suc k)
    with ok m show ?thesis by (cases u) auto
  qed
  with Cons len ok m show ?thesis by (simp add: utf8_len.simps(2))
qed (use assms in simp)

lemma utf8_len_nonascii_ge2:
  "\<not> byte c < 128 \<Longrightarrow> utf8_len (c # s) \<noteq> 0 \<Longrightarrow> 2 \<le> utf8_len (c # s)"
  by (auto simp: utf8_len.simps(2) lead_len_def Let_def split: if_splits)

text \<open>\<open>utf8.AppendRune\<close> for a code point that is not a surrogate.\<close>

definition utf8_of :: "nat \<Rightarrow> string" where
  "utf8_of n =
     (if n < 0x80 then [char_of n]
      else if n < 0x800 then [char_of (0xC0 + n div 64), char_of (0x80 + n mod 64)]
      else if n < 0x10000 then
        [char_of (0xE0 + n div 4096), char_of (0x80 + n div 64 mod 64), char_of (0x80 + n mod 64)]
      else
        [char_of (0xF0 + n div 262144), char_of (0x80 + n div 4096 mod 64),
         char_of (0x80 + n div 64 mod 64), char_of (0x80 + n mod 64)])"

abbreviation replacement_char :: string where
  "replacement_char \<equiv> [CHR 0xEF, CHR 0xBF, CHR 0xBD]"

text \<open>\<open>strings.ToValidUTF8\<close> with one replacement per bad byte: what a round trip does to a string.\<close>

function to_valid_utf8 :: "string \<Rightarrow> string" where
  "to_valid_utf8 s =
     (case s of
        [] \<Rightarrow> []
      | c # t \<Rightarrow>
          if utf8_len s = 0 then replacement_char @ to_valid_utf8 t
          else take (utf8_len s) s @ to_valid_utf8 (drop (utf8_len s) s))"
  by pat_completeness auto
termination
  by (relation "measure length") (auto split: list.splits)

declare to_valid_utf8.simps [simp del]

function valid_utf8 :: "string \<Rightarrow> bool" where
  "valid_utf8 s =
     (if s = [] then True
      else if utf8_len s = 0 then False else valid_utf8 (drop (utf8_len s) s))"
  by pat_completeness auto
termination
  by (relation "measure length") auto

declare valid_utf8.simps [simp del]

lemma valid_utf8_Nil [simp]: "valid_utf8 []"
  by (simp add: valid_utf8.simps)

lemma to_valid_utf8_id: "valid_utf8 s \<Longrightarrow> to_valid_utf8 s = s"
proof (induction s rule: valid_utf8.induct)
  case (1 s)
  show ?case
  proof (cases "s = []")
    case True
    then show ?thesis by (simp add: to_valid_utf8.simps)
  next
    case False
    with 1 have "utf8_len s \<noteq> 0" "valid_utf8 (drop (utf8_len s) s)"
      by (simp_all add: valid_utf8.simps [of s] split: if_splits)
    with 1 False have "to_valid_utf8 (drop (utf8_len s) s) = drop (utf8_len s) s" by simp
    with False \<open>utf8_len s \<noteq> 0\<close> show ?thesis
      by (subst to_valid_utf8.simps) (auto split: list.split)
  qed
qed

subsection \<open>Strings\<close>

definition hex_char :: "nat \<Rightarrow> char" where
  "hex_char n = (if n < 10 then char_of (48 + n) else char_of (87 + n))"

text \<open>How the encoder writes an ASCII byte, with the HTML escapes \<open>json.Marshal\<close> turns on.\<close>

definition enc_ascii :: "char \<Rightarrow> string" where
  "enc_ascii c =
     (if c = CHR 0x22 then [CHR 0x5C, CHR 0x22]
      else if c = CHR 0x5C then [CHR 0x5C, CHR 0x5C]
      else if c = CHR 0x08 then [CHR 0x5C, CHR ''b'']
      else if c = CHR 0x0C then [CHR 0x5C, CHR ''f'']
      else if c = CHR 0x0A then [CHR 0x5C, CHR ''n'']
      else if c = CHR 0x0D then [CHR 0x5C, CHR ''r'']
      else if c = CHR 0x09 then [CHR 0x5C, CHR ''t'']
      else if byte c < 0x20 \<or> c \<in> {CHR ''<'', CHR ''>'', CHR ''&''}
        then [CHR 0x5C, CHR ''u'', CHR ''0'', CHR ''0'', hex_char (byte c div 16), hex_char (byte c mod 16)]
      else [c])"

function enc_body :: "string \<Rightarrow> string" where
  "enc_body s =
     (case s of
        [] \<Rightarrow> []
      | c # t \<Rightarrow>
          if byte c < 128 then enc_ascii c @ enc_body t
          else if utf8_len s = 0 then CHR 0x5C # ''ufffd'' @ enc_body t
          else
            (if take 3 s = [CHR 0xE2, CHR 0x80, CHR 0xA8] then CHR 0x5C # ''u2028''
             else if take 3 s = [CHR 0xE2, CHR 0x80, CHR 0xA9] then CHR 0x5C # ''u2029''
             else take (utf8_len s) s) @ enc_body (drop (utf8_len s) s))"
  by pat_completeness auto
termination
  by (relation "measure length") (auto split: list.splits)

declare enc_body.simps [simp del]

definition enc_string :: "string \<Rightarrow> string" where
  "enc_string s = CHR 0x22 # enc_body s @ [CHR 0x22]"

definition hex_val :: "char \<Rightarrow> nat option" where
  "hex_val c =
     (let n = byte c in
      if 48 \<le> n \<and> n \<le> 57 then Some (n - 48)
      else if 97 \<le> n \<and> n \<le> 102 then Some (n - 87)
      else if 65 \<le> n \<and> n \<le> 70 then Some (n - 55)
      else None)"

fun hex4 :: "string \<Rightarrow> (nat \<times> string) option" where
  "hex4 (a # b # c # d # t) =
     (case (hex_val a, hex_val b, hex_val c, hex_val d) of
        (Some w, Some x, Some y, Some z) \<Rightarrow> Some (4096 * w + 256 * x + 16 * y + z, t)
      | _ \<Rightarrow> None)"
| "hex4 _ = None"

text \<open>
  The rune of a \<open>\u\<close> escape whose hexadecimal digits start the string: a surrogate takes the
  escape after it into account and is replaced when the two make no pair.
\<close>

definition dec_unicode :: "string \<Rightarrow> (string \<times> string) option" where
  "dec_unicode s =
     (case hex4 s of
        None \<Rightarrow> None
      | Some (n, t) \<Rightarrow>
          if 0xD800 \<le> n \<and> n < 0xE000 then
            (case t of
               a # b # u \<Rightarrow>
                 (case (a = CHR 0x5C \<and> b = CHR ''u'', hex4 u) of
                    (True, Some (m, v)) \<Rightarrow>
                      if n < 0xDC00 \<and> 0xDC00 \<le> m \<and> m < 0xE000
                      then Some (utf8_of (0x10000 + (n - 0xD800) * 1024 + (m - 0xDC00)), v)
                      else Some (replacement_char, t)
                  | _ \<Rightarrow> Some (replacement_char, t))
             | _ \<Rightarrow> Some (replacement_char, t))
          else Some (utf8_of n, t))"

definition simple_escape :: "char \<Rightarrow> char option" where
  "simple_escape e =
     (if e \<in> {CHR 0x22, CHR 0x5C, CHR ''/''} then Some e
      else if e = CHR ''b'' then Some (CHR 0x08)
      else if e = CHR ''f'' then Some (CHR 0x0C)
      else if e = CHR ''n'' then Some (CHR 0x0A)
      else if e = CHR ''r'' then Some (CHR 0x0D)
      else if e = CHR ''t'' then Some (CHR 0x09)
      else None)"

lemma hex4_length: "hex4 s = Some (n, t) \<Longrightarrow> length s = length t + 4"
  by (cases s rule: hex4.cases) (auto split: option.splits)

lemma dec_unicode_length: "dec_unicode s = Some (r, t) \<Longrightarrow> length t < length s"
  by (auto simp: dec_unicode_def dest!: hex4_length split: option.splits list.splits if_splits bool.splits)

definition add_front :: "string \<Rightarrow> (string \<times> 'a) option \<Rightarrow> (string \<times> 'a) option" where
  "add_front r x = map_option (\<lambda>(s, t). (r @ s, t)) x"

text \<open>The body of a string literal up to its closing quote, and what is left after it.\<close>

function dec_body :: "string \<Rightarrow> (string \<times> string) option" where
  "dec_body s =
     (case s of
        [] \<Rightarrow> None
      | c # t \<Rightarrow>
          if c = CHR 0x22 then Some ([], t)
          else if c = CHR 0x5C then
            (case t of
               [] \<Rightarrow> None
             | e # u \<Rightarrow>
                 if e = CHR ''u'' then
                   (case dec_unicode u of
                      None \<Rightarrow> None
                    | Some (r, v) \<Rightarrow> add_front r (dec_body v))
                 else
                   (case simple_escape e of
                      None \<Rightarrow> None
                    | Some x \<Rightarrow> add_front [x] (dec_body u)))
          else if byte c < 0x20 then None
          else if utf8_len s = 0 then add_front replacement_char (dec_body t)
          else add_front (take (utf8_len s) s) (dec_body (drop (utf8_len s) s)))"
  by pat_completeness auto
termination
  by (relation "measure length") (auto split: list.splits dest!: dec_unicode_length)

declare dec_body.simps [simp del]

lemma add_front_Some [simp]: "add_front r (Some (s, t)) = Some (r @ s, t)"
  by (simp add: add_front_def)

lemma hex_val_char [simp]: "n < 16 \<Longrightarrow> hex_val (hex_char n) = Some n"
  by (simp add: hex_val_def hex_char_def byte_def Let_def)

lemma byte_less_256: "byte c < 256"
  by (simp add: byte_def)

lemma char_of_byte [simp]: "char_of (byte c) = c"
  by (simp add: byte_def)

lemma hex4_low:
  "byte c < 128 \<Longrightarrow>
     hex4 (CHR ''0'' # CHR ''0'' # hex_char (byte c div 16) # hex_char (byte c mod 16) # t) =
       Some (byte c, t)"
proof -
  assume "byte c < 128"
  moreover have "hex_val (CHR ''0'') = Some 0" by (simp add: hex_val_def byte_def)
  moreover have "16 * (byte c div 16) + byte c mod 16 = byte c" by simp
  ultimately show ?thesis by simp
qed

lemma dec_body_ascii:
  assumes "byte c < 128"
  shows "dec_body (enc_ascii c @ t) = add_front [c] (dec_body t)"
proof -
  have uni: "dec_unicode (CHR ''0'' # CHR ''0'' # hex_char (byte c div 16) #
      hex_char (byte c mod 16) # t) = Some ([c], t)"
    using assms by (simp only: dec_unicode_def hex4_low) (simp add: utf8_of_def)
  consider (esc) x where "enc_ascii c = [CHR 0x5C, x]" "x \<noteq> CHR ''u''" "simple_escape x = Some c"
    | (uni) "enc_ascii c = [CHR 0x5C, CHR ''u'', CHR ''0'', CHR ''0'', hex_char (byte c div 16),
        hex_char (byte c mod 16)]"
    | (raw) "enc_ascii c = [c]" "c \<noteq> CHR 0x22" "c \<noteq> CHR 0x5C" "\<not> byte c < 0x20"
    by (fastforce simp: enc_ascii_def simple_escape_def split: if_splits)
  then show ?thesis
  proof cases
    case esc
    then show ?thesis by (subst dec_body.simps) simp
  next
    case uni': uni
    show ?thesis by (subst uni', subst dec_body.simps) (simp add: uni)
  next
    case raw
    then show ?thesis using assms by (subst raw(1), subst dec_body.simps) simp
  qed
qed

lemma dec_body_rune:
  assumes "\<not> byte c < 128" and "utf8_len (c # s) \<noteq> 0"
  shows "dec_body (take (utf8_len (c # s)) (c # s) @ t) =
    add_front (take (utf8_len (c # s)) (c # s)) (dec_body t)"
proof -
  let ?n = "utf8_len (c # s)" and ?r = "take (utf8_len (c # s)) (c # s)"
  have n: "utf8_len (?r @ t) = ?n"
    using assms(2) by (intro utf8_len_prefix) simp
  moreover have "length ?r = ?n"
    using utf8_len_le [of "c # s"] by simp
  ultimately have split: "take (utf8_len (?r @ t)) (?r @ t) = ?r" "drop (utf8_len (?r @ t)) (?r @ t) = t"
    by simp_all
  obtain u where u: "?r @ t = c # u"
    using assms(2) by (cases ?n) auto
  have "c \<noteq> CHR 0x22" "c \<noteq> CHR 0x5C" "\<not> byte c < 0x20"
    using assms(1) by (auto simp: byte_def)
  with split n assms(2) show ?thesis
    unfolding u by (subst dec_body.simps) simp
qed

lemma dec_unicode_consts:
  "dec_unicode (CHR ''f'' # CHR ''f'' # CHR ''f'' # CHR ''d'' # t) = Some (replacement_char, t)"
  "dec_unicode (CHR ''2'' # CHR ''0'' # CHR ''2'' # CHR ''8'' # t) =
     Some ([CHR 0xE2, CHR 0x80, CHR 0xA8], t)"
  "dec_unicode (CHR ''2'' # CHR ''0'' # CHR ''2'' # CHR ''9'' # t) =
     Some ([CHR 0xE2, CHR 0x80, CHR 0xA9], t)"
  by (simp_all add: dec_unicode_def hex_val_def byte_def utf8_of_def char_of_def bit_0)

lemma dec_body_escape:
  "dec_unicode u = Some (r, v) \<Longrightarrow> dec_body (CHR 0x5C # CHR ''u'' # u) = add_front r (dec_body v)"
  by (subst dec_body.simps) simp

lemma utf8_len_separator:
  assumes "take 3 s = [CHR 0xE2, CHR 0x80, x]" and "x = CHR 0xA8 \<or> x = CHR 0xA9"
  shows "utf8_len s = 3"
proof -
  obtain t where "s = CHR 0xE2 # CHR 0x80 # x # t"
    using assms(1) by (metis append_Cons append_Nil append_take_drop_id)
  with assms(2) show ?thesis
    by (auto simp: utf8_len.simps(2) lead_len_def byte_def cont_byte_def numeral_2_eq_2)
qed

lemma dec_enc_body:
  "dec_body (enc_body s @ CHR 0x22 # rest) = Some (to_valid_utf8 s, rest)"
proof (induction s rule: enc_body.induct)
  case (1 s)
  show ?case
  proof (cases s)
    case Nil
    then show ?thesis
      by (simp add: enc_body.simps to_valid_utf8.simps) (simp add: dec_body.simps)
  next
    case (Cons c t)
    let ?n = "utf8_len s" and ?r = "take (utf8_len s) s"
    consider (ascii) "byte c < 128" | (bad) "\<not> byte c < 128" "?n = 0"
      | (ls) "\<not> byte c < 128" "?n \<noteq> 0" "take 3 s = [CHR 0xE2, CHR 0x80, CHR 0xA8]"
      | (ps) "\<not> byte c < 128" "?n \<noteq> 0" "take 3 s = [CHR 0xE2, CHR 0x80, CHR 0xA9]"
      | (rune) "\<not> byte c < 128" "?n \<noteq> 0" "take 3 s \<noteq> [CHR 0xE2, CHR 0x80, CHR 0xA8]"
          "take 3 s \<noteq> [CHR 0xE2, CHR 0x80, CHR 0xA9]"
      by blast
    then show ?thesis
    proof cases
      case ascii
      with Cons 1(1) [OF Cons] show ?thesis
        by (subst enc_body.simps, subst to_valid_utf8.simps) (simp add: dec_body_ascii)
    next
      case bad
      with Cons 1(2) [OF Cons] show ?thesis
        by (subst enc_body.simps, subst to_valid_utf8.simps)
           (simp add: dec_body_escape [OF dec_unicode_consts(1)])
    next
      case ls
      with utf8_len_separator have "?n = 3" by blast
      with ls Cons 1(3) [OF Cons] show ?thesis
        by (subst enc_body.simps, subst to_valid_utf8.simps)
           (simp add: dec_body_escape [OF dec_unicode_consts(2)])
    next
      case ps
      with utf8_len_separator have "?n = 3" by blast
      with ps Cons 1(3) [OF Cons] show ?thesis
        by (subst enc_body.simps, subst to_valid_utf8.simps)
           (simp add: dec_body_escape [OF dec_unicode_consts(3)])
    next
      case rune
      have "enc_body s = ?r @ enc_body (drop ?n s)"
        using rune Cons by (subst enc_body.simps) auto
      moreover have "to_valid_utf8 s = ?r @ to_valid_utf8 (drop ?n s)"
        using rune Cons by (subst to_valid_utf8.simps) simp
      ultimately show ?thesis
        using 1(3) [OF Cons] rune Cons dec_body_rune [of c t "enc_body (drop ?n s) @ CHR 0x22 # rest"]
        by simp
    qed
  qed
qed

subsection \<open>Values\<close>

datatype json =
    JNull
  | JBool bool
  | JNum string
  | JStr string
  | JArr "json list"
  | JObj "(string \<times> json) list"

text \<open>\<open>json.Marshal\<close>: no white space, the members in the order given.\<close>

fun print_json :: "json \<Rightarrow> string"
  and print_elems :: "json list \<Rightarrow> string"
  and print_members :: "(string \<times> json) list \<Rightarrow> string"
where
  "print_json JNull = ''null''"
| "print_json (JBool b) = (if b then ''true'' else ''false'')"
| "print_json (JNum lit) = lit"
| "print_json (JStr s) = enc_string s"
| "print_json (JArr js) = CHR ''['' # print_elems js @ '']''"
| "print_json (JObj ms) = CHR ''{'' # print_members ms @ ''}''"
| "print_elems [] = []"
| "print_elems (j # js) =
     print_json j @ (if js = [] then [] else CHR '','' # print_elems js)"
| "print_members [] = []"
| "print_members ((k, j) # ms) =
     enc_string k @ CHR '':'' # print_json j @
       (if ms = [] then [] else CHR '','' # print_members ms)"

definition is_ws :: "char \<Rightarrow> bool" where
  "is_ws c \<longleftrightarrow> c \<in> {CHR 0x20, CHR 0x09, CHR 0x0A, CHR 0x0D}"

definition skip_ws :: "string \<Rightarrow> string" where
  "skip_ws s = dropWhile is_ws s"

definition is_digit :: "char \<Rightarrow> bool" where
  "is_digit c \<longleftrightarrow> 48 \<le> byte c \<and> byte c \<le> 57"

text \<open>A number literal at the front: sign, integer part, fraction, exponent.\<close>

definition scan_digits :: "string \<Rightarrow> (string \<times> string) option" where
  "scan_digits s =
     (if takeWhile is_digit s = [] then None
      else Some (takeWhile is_digit s, dropWhile is_digit s))"

definition scan_int :: "string \<Rightarrow> (string \<times> string) option" where
  "scan_int s =
     (case s of
        [] \<Rightarrow> None
      | c # t \<Rightarrow> if c = CHR ''0'' then Some (''0'', t) else scan_digits s)"

definition scan_frac :: "string \<Rightarrow> (string \<times> string) option" where
  "scan_frac s =
     (case s of
        [] \<Rightarrow> Some ([], [])
      | c # t \<Rightarrow>
          if c = CHR ''.'' then map_option (\<lambda>(d, u). (c # d, u)) (scan_digits t)
          else Some ([], s))"

definition scan_exp :: "string \<Rightarrow> (string \<times> string) option" where
  "scan_exp s =
     (case s of
        [] \<Rightarrow> Some ([], [])
      | c # t \<Rightarrow>
          if c \<in> {CHR ''e'', CHR ''E''} then
            (case t of
               [] \<Rightarrow> None
             | g # u \<Rightarrow>
                 if g \<in> {CHR ''+'', CHR ''-''}
                 then map_option (\<lambda>(d, v). (c # g # d, v)) (scan_digits u)
                 else map_option (\<lambda>(d, v). (c # d, v)) (scan_digits t))
          else Some ([], s))"

definition scan_number :: "string \<Rightarrow> (string \<times> string) option" where
  "scan_number s =
     (let (sign, s1) = (case s of [] \<Rightarrow> ([], s) | c # t \<Rightarrow> if c = CHR ''-'' then ([c], t) else ([], s))
      in case scan_int s1 of
           None \<Rightarrow> None
         | Some (i, s2) \<Rightarrow>
             (case scan_frac s2 of
                None \<Rightarrow> None
              | Some (f, s3) \<Rightarrow>
                  (case scan_exp s3 of
                     None \<Rightarrow> None
                   | Some (e, s4) \<Rightarrow> Some (sign @ i @ f @ e, s4))))"

definition strip_literal :: "string \<Rightarrow> string \<Rightarrow> string option" where
  "strip_literal lit s = (if prefix lit s then Some (drop (length lit) s) else None)"

text \<open>
  A value at the front of the string and what is left after it. The fuel counts nested calls;
  each call but that of a list for its next element has consumed a byte, so twice the length
  of the text is enough.
\<close>

fun parse_value :: "nat \<Rightarrow> string \<Rightarrow> (json \<times> string) option"
  and parse_elems :: "nat \<Rightarrow> string \<Rightarrow> (json list \<times> string) option"
  and parse_members :: "nat \<Rightarrow> string \<Rightarrow> ((string \<times> json) list \<times> string) option"
where
  "parse_value 0 s = None"
| "parse_value (Suc n) s =
     (case skip_ws s of
        [] \<Rightarrow> None
      | c # t \<Rightarrow>
          if c = CHR ''{'' then
            (case skip_ws t of
               [] \<Rightarrow> None
             | d # u \<Rightarrow>
                 if d = CHR ''}'' then Some (JObj [], u)
                 else map_option (\<lambda>(ms, v). (JObj ms, v)) (parse_members n (d # u)))
          else if c = CHR ''['' then
            (case skip_ws t of
               [] \<Rightarrow> None
             | d # u \<Rightarrow>
                 if d = CHR '']'' then Some (JArr [], u)
                 else map_option (\<lambda>(js, v). (JArr js, v)) (parse_elems n (d # u)))
          else if c = CHR 0x22 then map_option (\<lambda>(x, u). (JStr x, u)) (dec_body t)
          else if c = CHR ''t'' then map_option (\<lambda>u. (JBool True, u)) (strip_literal ''rue'' t)
          else if c = CHR ''f'' then map_option (\<lambda>u. (JBool False, u)) (strip_literal ''alse'' t)
          else if c = CHR ''n'' then map_option (\<lambda>u. (JNull, u)) (strip_literal ''ull'' t)
          else map_option (\<lambda>(l, u). (JNum l, u)) (scan_number (c # t)))"
| "parse_elems 0 s = None"
| "parse_elems (Suc n) s =
     (case parse_value n s of
        None \<Rightarrow> None
      | Some (j, t) \<Rightarrow>
          (case skip_ws t of
             [] \<Rightarrow> None
           | c # u \<Rightarrow>
               if c = CHR '','' then map_option (\<lambda>(js, v). (j # js, v)) (parse_elems n u)
               else if c = CHR '']'' then Some ([j], u)
               else None))"
| "parse_members 0 s = None"
| "parse_members (Suc n) s =
     (case skip_ws s of
        [] \<Rightarrow> None
      | q # t \<Rightarrow>
          if q \<noteq> CHR 0x22 then None
          else
            (case dec_body t of
               None \<Rightarrow> None
             | Some (k, u) \<Rightarrow>
                 (case skip_ws u of
                    [] \<Rightarrow> None
                  | c # v \<Rightarrow>
                      if c \<noteq> CHR '':'' then None
                      else
                        (case parse_value n v of
                           None \<Rightarrow> None
                         | Some (j, w) \<Rightarrow>
                             (case skip_ws w of
                                [] \<Rightarrow> None
                              | e # x \<Rightarrow>
                                  if e = CHR '','' then
                                    map_option (\<lambda>(ms, y). ((k, j) # ms, y)) (parse_members n x)
                                  else if e = CHR ''}'' then Some ([(k, j)], x)
                                  else None)))))"

declare parse_value.simps(2) [simp del] parse_elems.simps(2) [simp del] parse_members.simps(2) [simp del]

definition parse_first :: "string \<Rightarrow> (json \<times> string) option" where
  "parse_first s = parse_value (2 * length s + 2) s"

text \<open>\<open>json.Unmarshal\<close> wants the whole text to be one value; a \<open>Decoder\<close> reads the first.\<close>

definition json_unmarshal :: "string \<Rightarrow> json option" where
  "json_unmarshal s =
     (case parse_first s of
        None \<Rightarrow> None
      | Some (j, t) \<Rightarrow> if skip_ws t = [] then Some j else None)"

definition json_decode :: "string \<Rightarrow> json option" where
  "json_decode s = map_option fst (parse_first s)"

subsection \<open>What is printed is read back\<close>

text \<open>
  The values the program marshals hold integers, written by \<open>itoa\<close>, and any strings. Reading back
  gives the same value with each string made valid UTF-8.
\<close>

fun int_json :: "json \<Rightarrow> bool" where
  "int_json (JNum lit) \<longleftrightarrow> (\<exists>k. lit = itoa k)"
| "int_json (JArr js) \<longleftrightarrow> (\<forall>j \<in> set js. int_json j)"
| "int_json (JObj ms) \<longleftrightarrow> (\<forall>kj \<in> set ms. int_json (snd kj))"
| "int_json _ \<longleftrightarrow> True"

fun clean_json :: "json \<Rightarrow> json"
  and clean_elems :: "json list \<Rightarrow> json list"
  and clean_members :: "(string \<times> json) list \<Rightarrow> (string \<times> json) list"
where
  "clean_json (JStr s) = JStr (to_valid_utf8 s)"
| "clean_json (JArr js) = JArr (clean_elems js)"
| "clean_json (JObj ms) = JObj (clean_members ms)"
| "clean_json j = j"
| "clean_elems [] = []"
| "clean_elems (j # js) = clean_json j # clean_elems js"
| "clean_members [] = []"
| "clean_members ((k, j) # ms) = (to_valid_utf8 k, clean_json j) # clean_members ms"

fun wf_json :: "json \<Rightarrow> bool" where
  "wf_json (JNum lit) \<longleftrightarrow> (\<exists>k. lit = itoa k)"
| "wf_json (JStr s) \<longleftrightarrow> valid_utf8 s"
| "wf_json (JArr js) \<longleftrightarrow> (\<forall>j \<in> set js. wf_json j)"
| "wf_json (JObj ms) \<longleftrightarrow> (\<forall>(k, j) \<in> set ms. valid_utf8 k \<and> wf_json j)"
| "wf_json _ \<longleftrightarrow> True"

lemma wf_json_clean:
  "wf_json j \<Longrightarrow> int_json j \<and> clean_json j = j"
  "\<forall>j \<in> set js. wf_json j \<Longrightarrow> (\<forall>j \<in> set js. int_json j) \<and> clean_elems js = js"
  "\<forall>(k, j) \<in> set ms. valid_utf8 k \<and> wf_json j \<Longrightarrow>
     (\<forall>kj \<in> set ms. int_json (snd kj)) \<and> clean_members ms = ms"
  by (induction j and js and ms rule: clean_json_clean_elems_clean_members.induct)
     (auto simp: to_valid_utf8_id)

definition ends_number :: "string \<Rightarrow> bool" where
  "ends_number s \<longleftrightarrow>
     s = [] \<or> \<not> is_digit (hd s) \<and> hd s \<notin> {CHR ''.'', CHR ''e'', CHR ''E''}"

lemma ends_number_simps [simp]:
  "ends_number []" "ends_number (CHR '','' # s)" "ends_number (CHR '']'' # s)"
  "ends_number (CHR ''}'' # s)"
  by (simp_all add: ends_number_def is_digit_def byte_def)

lemma nat_digits_is_digit: "c \<in> set (nat_digits n) \<Longrightarrow> is_digit c"
  using nat_digits_set [of c n] by (auto simp: is_digit_def byte_def of_digit_char)

lemma takeWhile_digits:
  "ends_number s \<Longrightarrow> takeWhile is_digit (nat_digits n @ s) = nat_digits n"
  "ends_number s \<Longrightarrow> dropWhile is_digit (nat_digits n @ s) = s"
  by (cases s; simp add: takeWhile_append2 dropWhile_append2 nat_digits_is_digit ends_number_def)+

lemma hd_nat_digits_0: "hd (nat_digits n) = CHR ''0'' \<Longrightarrow> n = 0"
proof (induction n rule: nat_digits.induct)
  case (1 n)
  show ?case
  proof (cases "n < 10")
    case True
    with 1(2) have "(of_char (digit_char n) :: nat) = of_char (CHR ''0'')"
      by (simp add: nat_digits.simps [of n])
    with True show ?thesis by (simp add: of_digit_char)
  next
    case False
    with 1 have "n div 10 = 0" by (simp add: nat_digits.simps [of n])
    with False show ?thesis by simp
  qed
qed

lemma nat_digits_0: "nat_digits 0 = ''0''"
  by (simp add: nat_digits.simps digit_char_def char_of_def bit_0)

lemma scan_int_digits:
  assumes "ends_number s"
  shows "scan_int (nat_digits n @ s) = Some (nat_digits n, s)"
proof (cases "n = 0")
  case True
  then show ?thesis by (simp add: nat_digits_0 scan_int_def)
next
  case False
  then obtain c t where ct: "nat_digits n = c # t" "c \<noteq> CHR ''0''"
    using hd_nat_digits_0 [of n] by (cases "nat_digits n") auto
  with takeWhile_digits [OF assms, of n] show ?thesis
    by (simp add: scan_int_def scan_digits_def)
qed

lemma scan_number_itoa:
  assumes "ends_number s"
  shows "scan_number (itoa k @ s) = Some (itoa k, s)"
proof -
  have rest: "scan_frac s = Some ([], s)" "scan_exp s = Some ([], s)"
    using assms by (auto simp: scan_frac_def scan_exp_def ends_number_def split: list.splits)
  have "scan_number (nat_digits n @ s) = Some (nat_digits n, s)" for n
  proof -
    obtain c t where ct: "nat_digits n = c # t" "c \<noteq> CHR ''-''"
      by (metis list.exhaust list.set_intros(1) minus_notin_nat_digits nat_digits_not_Nil)
    with scan_int_digits [OF assms, of n] rest show ?thesis
      by (simp add: scan_number_def)
  qed
  moreover have "scan_number (CHR ''-'' # nat_digits n @ s) = Some (CHR ''-'' # nat_digits n, s)" for n
    using scan_int_digits [OF assms, of n] rest by (simp add: scan_number_def)
  ultimately show ?thesis by (simp add: itoa_def)
qed

lemma skip_ws_Cons [simp]: "\<not> is_ws c \<Longrightarrow> skip_ws (c # s) = c # s"
  by (simp add: skip_ws_def)

lemma is_ws_simps [simp]:
  "\<not> is_ws (CHR ''{'')" "\<not> is_ws (CHR ''}'')" "\<not> is_ws (CHR ''['')" "\<not> is_ws (CHR '']'')"
  "\<not> is_ws (CHR 0x22)" "\<not> is_ws (CHR '','')" "\<not> is_ws (CHR '':'')" "\<not> is_ws (CHR ''t'')"
  "\<not> is_ws (CHR ''f'')" "\<not> is_ws (CHR ''n'')"
  by (simp_all add: is_ws_def)

text \<open>The fuel that reading back a printed value takes.\<close>

fun json_fuel :: "json \<Rightarrow> nat"
  and elems_fuel :: "json list \<Rightarrow> nat"
  and members_fuel :: "(string \<times> json) list \<Rightarrow> nat"
where
  "json_fuel (JArr js) = Suc (elems_fuel js)"
| "json_fuel (JObj ms) = Suc (members_fuel ms)"
| "json_fuel _ = 1"
| "elems_fuel [] = 0"
| "elems_fuel (j # js) = Suc (json_fuel j + elems_fuel js)"
| "members_fuel [] = 0"
| "members_fuel ((k, j) # ms) = Suc (json_fuel j + members_fuel ms)"

lemma fuel_bounds:
  "int_json j \<Longrightarrow> json_fuel j \<le> 2 * length (print_json j) + 1"
  "\<forall>j \<in> set js. int_json j \<Longrightarrow> elems_fuel js \<le> 2 * length (print_elems js) + 2"
  "\<forall>kj \<in> set ms. int_json (snd kj) \<Longrightarrow> members_fuel ms \<le> 2 * length (print_members ms) + 2"
  by (induction j and js and ms rule: json_fuel_elems_fuel_members_fuel.induct)
     (auto split: if_splits)

lemma itoa_hd:
  obtains c t where "itoa k = c # t" and "\<not> is_ws c"
    and "c \<notin> {CHR ''{'', CHR ''['', CHR '']'', CHR 0x22, CHR ''t'', CHR ''f'', CHR ''n''}"
proof -
  obtain c t where ct: "itoa k = c # t" by (cases "itoa k") auto
  then have "c \<in> set (itoa k)" by simp
  then have "c = CHR ''-'' \<or> is_digit c"
    by (auto simp: itoa_def nat_digits_is_digit split: if_splits)
  with ct show ?thesis
    by (intro that) (auto simp: is_ws_def is_digit_def byte_def)
qed

lemma parse_print_scalar:
  "int_json j \<Longrightarrow> ends_number s \<Longrightarrow> \<not> (\<exists>js. j = JArr js) \<Longrightarrow> \<not> (\<exists>ms. j = JObj ms) \<Longrightarrow>
     parse_value (Suc n) (print_json j @ s) = Some (clean_json j, s)"
proof (cases j)
  case (JNum lit)
  assume "int_json j" and s: "ends_number s"
  with JNum obtain k where lit: "lit = itoa k" by auto
  obtain c t where "itoa k = c # t" "\<not> is_ws c"
    "c \<notin> {CHR ''{'', CHR ''['', CHR '']'', CHR 0x22, CHR ''t'', CHR ''f'', CHR ''n''}" by (rule itoa_hd)
  with scan_number_itoa [OF s, of k] JNum lit show ?thesis
    by (simp add: parse_value.simps(2))
qed (auto simp: parse_value.simps(2) strip_literal_def enc_string_def dec_enc_body)

lemma parse_print_atom:
  "1 \<le> n \<Longrightarrow> int_json j \<Longrightarrow> ends_number s \<Longrightarrow> \<not> (\<exists>js. j = JArr js) \<Longrightarrow> \<not> (\<exists>ms. j = JObj ms) \<Longrightarrow>
     parse_value n (print_json j @ s) = Some (clean_json j, s)"
  using parse_print_scalar [of j s "n - 1"] by simp

lemma print_json_not_close:
  assumes "int_json j"
  obtains c t where "print_json j = c # t" and "\<not> is_ws c" and "c \<noteq> CHR '']''"
proof (cases j)
  case (JNum lit)
  with assms obtain k where "lit = itoa k" by auto
  with JNum show ?thesis
    by (cases rule: itoa_hd [of k]) (use that in auto)
next
  case (JBool b)
  then show ?thesis using that by (cases b) auto
qed (use that in \<open>auto simp: enc_string_def\<close>)

lemma parse_print:
  "int_json j \<Longrightarrow> ends_number s \<Longrightarrow> json_fuel j \<le> n \<Longrightarrow> parse_value n (print_json j @ s) = Some (clean_json j, s)"
  "\<forall>j \<in> set js. int_json j \<Longrightarrow> js \<noteq> [] \<Longrightarrow> elems_fuel js \<le> n \<Longrightarrow>
     parse_elems n (print_elems js @ CHR '']'' # s) = Some (clean_elems js, s)"
  "\<forall>kj \<in> set ms. int_json (snd kj) \<Longrightarrow> ms \<noteq> [] \<Longrightarrow> members_fuel ms \<le> n \<Longrightarrow>
     parse_members n (print_members ms @ CHR ''}'' # s) = Some (clean_members ms, s)"
proof (induction j and js and ms arbitrary: n s and n s and n s
    rule: json_fuel_elems_fuel_members_fuel.induct)
  case (1 js)
  then obtain m where n: "n = Suc m" "elems_fuel js \<le> m" by (cases n) auto
  show ?case
  proof (cases js)
    case Nil
    with n show ?thesis by (simp add: parse_value.simps(2))
  next
    case (Cons j js')
    with 1(2) obtain c t where c: "print_json j = c # t" "\<not> is_ws c" "c \<noteq> CHR '']''"
      using print_json_not_close [of j] by auto
    with 1(1) [of m s] 1(2) n Cons show ?thesis
      by (simp add: parse_value.simps(2))
  qed
next
  case (2 ms)
  then obtain m where n: "n = Suc m" "members_fuel ms \<le> m" by (cases n) auto
  show ?case
  proof (cases ms)
    case Nil
    with n show ?thesis by (simp add: parse_value.simps(2))
  next
    case (Cons kj ms')
    obtain k j where "kj = (k, j)" by force
    with Cons 2(1) [of m s] 2(2) n show ?thesis
      by (simp add: parse_value.simps(2) enc_string_def)
  qed
next
  case 4
  then show ?case by simp
next
  case (5 j js)
  then obtain m where n: "n = Suc m" "json_fuel j \<le> m" "elems_fuel js \<le> m" by (cases n) auto
  show ?case
  proof (cases "js = []")
    case True
    with 5(1) [of "CHR '']'' # s" m] 5(3) n show ?thesis by (simp add: parse_elems.simps(2))
  next
    case False
    with 5(1) [of "CHR '','' # print_elems js @ CHR '']'' # s" m] 5(2) [of m s] 5(3) n
    show ?thesis by (simp add: parse_elems.simps(2))
  qed
next
  case 6
  then show ?case by simp
next
  case (7 k j ms)
  then obtain m where n: "n = Suc m" "json_fuel j \<le> m" "members_fuel ms \<le> m" by (cases n) auto
  have k: "dec_body (enc_body k @ CHR 0x22 # t) = Some (to_valid_utf8 k, t)" for t
    by (simp add: dec_enc_body)
  show ?case
  proof (cases "ms = []")
    case True
    with 7(1) [of "CHR ''}'' # s" m] 7(3) n k show ?thesis
      by (simp add: parse_members.simps(2) enc_string_def)
  next
    case False
    with 7(1) [of "CHR '','' # print_members ms @ CHR ''}'' # s" m] 7(2) [of m s] 7(3) n k
    show ?thesis by (simp add: parse_members.simps(2) enc_string_def)
  qed
qed (rule parse_print_atom; simp)+

lemma parse_first_print:
  assumes "int_json j" and "ends_number s"
  shows "parse_first (print_json j @ s) = Some (clean_json j, s)"
proof -
  have "json_fuel j \<le> 2 * length (print_json j @ s) + 2"
    using fuel_bounds(1) [OF assms(1)] by simp
  from parse_print(1) [OF assms this] show ?thesis by (simp add: parse_first_def)
qed

lemma json_unmarshal_print_clean: "int_json j \<Longrightarrow> json_unmarshal (print_json j) = Some (clean_json j)"
  using parse_first_print [of j "[]"] by (simp add: json_unmarshal_def skip_ws_def)

lemma json_unmarshal_print: "wf_json j \<Longrightarrow> json_unmarshal (print_json j) = Some j"
  using json_unmarshal_print_clean [of j] wf_json_clean(1) [of j] by simp

subsection \<open>Reading integers and struct fields\<close>

definition parse_int :: "string \<Rightarrow> int option" where
  "parse_int s =
     (let neg = (s \<noteq> [] \<and> hd s = CHR ''-''); ds = (if neg then tl s else s)
      in if ds \<noteq> [] \<and> list_all is_digit ds
         then Some (if neg then - int (digits_value ds) else int (digits_value ds)) else None)"

lemma parse_int_itoa [simp]: "parse_int (itoa k) = Some k"
proof -
  have digits: "list_all is_digit (nat_digits n)" for n
    by (auto simp: list_all_iff nat_digits_is_digit)
  have "hd (nat_digits n) \<noteq> CHR ''-''" for n
    by (metis hd_in_set minus_notin_nat_digits nat_digits_not_Nil)
  with digits show ?thesis
    by (auto simp: parse_int_def itoa_def digits_value_nat_digits Let_def)
qed

text \<open>
  A field of a struct by its key: \<open>encoding/json\<close> compares keys without regard to case, where
  besides the ASCII letters only U+017F folds to \<open>s\<close> and U+212A to \<open>k\<close>. The fields here have
  lower-case names.
\<close>

definition lower_ascii :: "char \<Rightarrow> char" where
  "lower_ascii c = (if 65 \<le> byte c \<and> byte c \<le> 90 then char_of (byte c + 32) else c)"

fun fold_key :: "string \<Rightarrow> string" where
  "fold_key (a # b # c # s) =
     (if a = CHR 0xC5 \<and> b = CHR 0xBF then CHR ''s'' # fold_key (c # s)
      else if a = CHR 0xE2 \<and> b = CHR 0x84 \<and> c = CHR 0xAA then CHR ''k'' # fold_key s
      else lower_ascii a # fold_key (b # c # s))"
| "fold_key [a, b] =
     (if a = CHR 0xC5 \<and> b = CHR 0xBF then ''s'' else [lower_ascii a, lower_ascii b])"
| "fold_key [a] = [lower_ascii a]"
| "fold_key [] = []"

text \<open>
  Decoding into a struct: the members in order, each into its field or ignored; \<open>null\<close> leaves a
  field alone. A member of the wrong type makes the decoder report an error in the end, after
  which the callers do not look at the struct, so it is \<open>None\<close> here at once.
\<close>

fun decode_members ::
  "(string \<Rightarrow> json \<Rightarrow> 'r \<Rightarrow> 'r option) \<Rightarrow> (string \<times> json) list \<Rightarrow> 'r \<Rightarrow> 'r option"
where
  "decode_members field [] r = Some r"
| "decode_members field ((k, j) # ms) r =
     (case (if j = JNull then Some r else field (fold_key k) j r) of
        None \<Rightarrow> None
      | Some r' \<Rightarrow> decode_members field ms r')"

fun decode_struct :: "(string \<Rightarrow> json \<Rightarrow> 'r \<Rightarrow> 'r option) \<Rightarrow> 'r \<Rightarrow> json \<Rightarrow> 'r option" where
  "decode_struct field zero (JObj ms) = decode_members field ms zero"
| "decode_struct field zero JNull = Some zero"
| "decode_struct field zero _ = None"

fun decode_string :: "json \<Rightarrow> string option" where
  "decode_string (JStr s) = Some s"
| "decode_string _ = None"

fun decode_bool :: "json \<Rightarrow> bool option" where
  "decode_bool (JBool b) = Some b"
| "decode_bool _ = None"

text \<open>An integer field of \<open>w\<close> bits: a literal with a fraction, an exponent or out of range is an error.\<close>

fun decode_int :: "json \<Rightarrow> 'w::len word option" where
  "decode_int (JNum lit) =
     (case parse_int lit of
        None \<Rightarrow> None
      | Some k \<Rightarrow>
          if - (2 ^ (LENGTH('w) - 1)) \<le> k \<and> k < 2 ^ (LENGTH('w) - 1)
          then Some (word_of_int k) else None)"
| "decode_int _ = None"

lemma decode_int_itoa:
  "decode_int (JNum (itoa (sint (x :: 64 word)))) = Some x"
  "decode_int (JNum (itoa (sint (y :: 32 word)))) = Some y"
  using int64_range [of x] int32_range [of y] by simp_all

end
