(* ===== verification/Product_Json.thy ===== *)
theory Product_Json
  imports Domain Go_Json
begin

section \<open>Products as JSON\<close>

text \<open>
  Two structs of the program carry a product in JSON with the same fields under the same keys:
  \<open>productCacheValue\<close> of the Redis cache and \<open>productResponse\<close> of the HTTP handlers. This theory
  holds their common encoding, the decoding of the first, and the round trip.
\<close>

definition product_json :: "product \<Rightarrow> json" where
  "product_json p =
     JObj [(''id'', JStr (ID p)), (''sku'', JStr (SKU p)), (''name'', JStr (Name p)),
           (''description'', JStr (Description p)),
           (''price_cents'', JNum (itoa (sint (PriceCents p)))),
           (''currency'', JStr (Currency p)), (''stock'', JNum (itoa (sint (Stock p)))),
           (''active'', JBool (Active p))]"

definition zero_product :: product where
  "zero_product =
     \<lparr>ID = [], SKU = [], Name = [], Description = [], PriceCents = 0, Currency = [], Stock = 0,
      Active = False\<rparr>"

definition product_field :: "string \<Rightarrow> json \<Rightarrow> product \<Rightarrow> product option" where
  "product_field k j p =
     (if k = ''id'' then map_option (\<lambda>x. p\<lparr>ID := x\<rparr>) (decode_string j)
      else if k = ''sku'' then map_option (\<lambda>x. p\<lparr>SKU := x\<rparr>) (decode_string j)
      else if k = ''name'' then map_option (\<lambda>x. p\<lparr>Name := x\<rparr>) (decode_string j)
      else if k = ''description'' then map_option (\<lambda>x. p\<lparr>Description := x\<rparr>) (decode_string j)
      else if k = ''price_cents'' then map_option (\<lambda>x. p\<lparr>PriceCents := x\<rparr>) (decode_int j)
      else if k = ''currency'' then map_option (\<lambda>x. p\<lparr>Currency := x\<rparr>) (decode_string j)
      else if k = ''stock'' then map_option (\<lambda>x. p\<lparr>Stock := x\<rparr>) (decode_int j)
      else if k = ''active'' then map_option (\<lambda>x. p\<lparr>Active := x\<rparr>) (decode_bool j)
      else Some p)"

definition decode_product :: "json \<Rightarrow> product option" where
  "decode_product = decode_struct product_field zero_product"

text \<open>The strings of a product a round trip through JSON keeps.\<close>

definition utf8_product :: "product \<Rightarrow> bool" where
  "utf8_product p \<longleftrightarrow>
     valid_utf8 (ID p) \<and> valid_utf8 (SKU p) \<and> valid_utf8 (Name p) \<and>
     valid_utf8 (Description p) \<and> valid_utf8 (Currency p)"

lemma valid_utf8_ascii: "list_all (\<lambda>c. byte c < 128) s \<Longrightarrow> valid_utf8 s"
  by (induction s) (simp_all add: valid_utf8.simps)

lemma product_keys [simp]:
  "valid_utf8 ''id''" "valid_utf8 ''sku''" "valid_utf8 ''name''" "valid_utf8 ''description''"
  "valid_utf8 ''price_cents''" "valid_utf8 ''currency''" "valid_utf8 ''stock''"
  "valid_utf8 ''active''" "valid_utf8 ''items''"
  by (simp_all add: valid_utf8_ascii byte_def)

lemma fold_product_keys [simp]:
  "fold_key ''id'' = ''id''" "fold_key ''sku'' = ''sku''" "fold_key ''name'' = ''name''"
  "fold_key ''description'' = ''description''" "fold_key ''price_cents'' = ''price_cents''"
  "fold_key ''currency'' = ''currency''" "fold_key ''stock'' = ''stock''"
  "fold_key ''active'' = ''active''" "fold_key ''items'' = ''items''"
  by code_simp+

lemma wf_product_json: "utf8_product p \<Longrightarrow> wf_json (product_json p)"
  by (auto simp: product_json_def utf8_product_def)

lemma product_field_simps:
  "product_field ''id'' (JStr x) p = Some (p\<lparr>ID := x\<rparr>)"
  "product_field ''sku'' (JStr x) p = Some (p\<lparr>SKU := x\<rparr>)"
  "product_field ''name'' (JStr x) p = Some (p\<lparr>Name := x\<rparr>)"
  "product_field ''description'' (JStr x) p = Some (p\<lparr>Description := x\<rparr>)"
  "product_field ''price_cents'' (JNum (itoa (sint n))) p = Some (p\<lparr>PriceCents := n\<rparr>)"
  "product_field ''currency'' (JStr x) p = Some (p\<lparr>Currency := x\<rparr>)"
  "product_field ''stock'' (JNum (itoa (sint k))) p = Some (p\<lparr>Stock := k\<rparr>)"
  "product_field ''active'' (JBool b) p = Some (p\<lparr>Active := b\<rparr>)"
  by (simp_all add: product_field_def decode_int_itoa del: decode_int.simps)

lemma decode_product_json: "decode_product (product_json p) = Some p"
  by (simp add: decode_product_def product_json_def product_field_simps
      zero_product_def del: fold_key.simps)

text \<open>The product with each text made valid UTF-8.\<close>

definition clean_product :: "product \<Rightarrow> product" where
  "clean_product p =
     p\<lparr>ID := to_valid_utf8 (ID p), SKU := to_valid_utf8 (SKU p), Name := to_valid_utf8 (Name p),
       Description := to_valid_utf8 (Description p), Currency := to_valid_utf8 (Currency p)\<rparr>"

lemma clean_product_sel [simp]:
  "PriceCents (clean_product p) = PriceCents p" "Stock (clean_product p) = Stock p"
  "Active (clean_product p) = Active p" "ID (clean_product p) = to_valid_utf8 (ID p)"
  by (simp_all add: clean_product_def)

lemma clean_product_id: "utf8_product p \<Longrightarrow> clean_product p = p"
  by (simp add: clean_product_def utf8_product_def to_valid_utf8_id)

lemma to_valid_utf8_Nil_iff [simp]: "to_valid_utf8 s = [] \<longleftrightarrow> s = []"
  by (subst to_valid_utf8.simps) (simp split: list.split)

lemma clean_product_wf: "product_wf p \<Longrightarrow> product_wf (clean_product p)"
  by (simp add: product_wf_iff) (simp add: clean_product_def)

lemma int_product_json [simp]: "int_json (product_json p)"
  by (auto simp: product_json_def)

lemma clean_product_json [simp]: "clean_json (product_json p) = product_json (clean_product p)"
  by (simp add: product_json_def clean_product_def to_valid_utf8_id)

lemma unmarshal_product:
  "Option.bind (json_unmarshal (print_json (product_json p))) decode_product = Some (clean_product p)"
  by (simp add: json_unmarshal_print_clean decode_product_json)

text \<open>
  C26: the JSON round trip of a product. Whatever its prices, stocks and texts (quotes, control
  characters, HTML characters, line separators, bytes that are no UTF-8), what \<open>json.Marshal\<close>
  writes of a product \<open>json.Unmarshal\<close> reads back as the same product, each byte that is no part
  of a UTF-8 sequence replaced by U+FFFD; a product in UTF-8 comes back unchanged.
\<close>

theorem product_json_roundtrip:
  "Option.bind (json_unmarshal (print_json (product_json p))) decode_product =
     Some (if utf8_product p then p else clean_product p)"
  by (simp add: unmarshal_product clean_product_id)

end
