(* ===== verification/Events.thy ===== *)
theory Events
  imports Product_Json Repository
begin

section \<open>Product events and the Kafka producer\<close>

text \<open>
  \<open>internal/events/producer.go\<close>: the event types, the event struct and its JSON, and the producer,
  which turns an event or an outbox row into one Kafka message. The writer of \<open>kafka-go\<close> is a
  parameter: a record of its two methods over its own state, which the application gets for the
  options that \<open>NewProducer\<close> chooses.
\<close>

definition EventProductCreated :: string where "EventProductCreated = ''product.created''"
definition EventProductUpdated :: string where "EventProductUpdated = ''product.updated''"
definition EventStockChanged :: string where "EventStockChanged = ''stock.changed''"

text \<open>
  A \<open>time.Time\<close> as far as it matters here: its year, which \<open>MarshalJSON\<close> checks, and its
  RFC 3339 text.
\<close>

record instant =
  year :: int
  rfc3339 :: string

record product_event =
  EventID :: string
  EventType :: string
  ProductID :: string
  evSKU :: string
  evName :: string
  evPriceCents :: int64
  evCurrency :: string
  evStock :: int32
  evActive :: bool
  OccuredAt :: instant

definition event_json :: "product_event \<Rightarrow> json" where
  "event_json e =
     JObj [(''event_id'', JStr (EventID e)), (''event_type'', JStr (EventType e)),
           (''product_id'', JStr (ProductID e)), (''sku'', JStr (evSKU e)),
           (''name'', JStr (evName e)), (''price_cents'', JNum (itoa (sint (evPriceCents e)))),
           (''currency'', JStr (evCurrency e)), (''stock'', JNum (itoa (sint (evStock e)))),
           (''active'', JBool (evActive e)), (''occured_at'', JStr (rfc3339 (OccuredAt e)))]"

definition marshal_event :: "product_event \<Rightarrow> string result" where
  "marshal_event e =
     (if year (OccuredAt e) < 0 \<or> 9999 < year (OccuredAt e)
      then Err (Plain ''json: error calling MarshalJSON for type time.Time'')
      else Ok (print_json (event_json e)))"

subsection \<open>The producer\<close>

record kafka_message =
  mTopic :: string
  mKey :: string
  mValue :: string
  mHeaders :: "(string \<times> string) list"

record 'k kafka_writer =
  WriteMessages :: "context_err \<Rightarrow> kafka_message \<Rightarrow> 'k \<Rightarrow> go_error option \<times> 'k"
  writer_Close :: "'k \<Rightarrow> go_error option \<times> 'k"

text \<open>
  The options the producer's writer is made with: the addresses, the balancer (messages of one key
  go to one partition), the acknowledgements waited for, and the bounds on attempts and batches,
  the time-out in nanoseconds.
\<close>

datatype balancer = Hash

datatype required_acks = RequireNone | RequireOne | RequireAll

record writer_options =
  wo_Addr :: "string list"
  wo_Balancer :: balancer
  wo_RequiredAcks :: required_acks
  wo_MaxAttempts :: int64
  wo_BatchSize :: int64
  wo_BatchTimeout :: int64

definition NewProducer :: "string list \<Rightarrow> writer_options" where
  "NewProducer brokers =
     \<lparr>wo_Addr = brokers, wo_Balancer = Hash, wo_RequiredAcks = RequireAll, wo_MaxAttempts = 5,
      wo_BatchSize = 100, wo_BatchTimeout = 10000000\<rparr>"

definition event_headers :: "string \<Rightarrow> string \<Rightarrow> (string \<times> string) list" where
  "event_headers eventType eventID =
     [(''event-type'', eventType), (''event-id'', eventID), (''source'', ''catalog-service'')]"

definition producer_Publish ::
  "'k kafka_writer \<Rightarrow> context_err \<Rightarrow> product_event \<Rightarrow> 'k \<Rightarrow> go_error option \<times> 'k"
where
  "producer_Publish w ctx event k =
     (case marshal_event event of
        Err e \<Rightarrow> (Some (Wrap ''marshal event: '' e []), k)
      | Ok payload \<Rightarrow>
          WriteMessages w ctx
            \<lparr>mTopic = ''catalog.products.v1'', mKey = ProductID event, mValue = payload,
             mHeaders = event_headers (EventType event) (EventID event)\<rparr> k
      | Panic m \<Rightarrow> (None, k))"

definition producer_PublishRaw ::
  "'k kafka_writer \<Rightarrow> context_err \<Rightarrow> string \<Rightarrow> string \<Rightarrow> string \<Rightarrow> string \<Rightarrow> string \<Rightarrow>
     'k \<Rightarrow> go_error option \<times> 'k"
where
  "producer_PublishRaw w ctx topic key eventType eventID payload k =
     WriteMessages w ctx
       \<lparr>mTopic = topic, mKey = key, mValue = payload, mHeaders = event_headers eventType eventID\<rparr> k"

definition producer_Close :: "'k kafka_writer \<Rightarrow> 'k \<Rightarrow> go_error option \<times> 'k" where
  "producer_Close w k = writer_Close w k"

subsection \<open>The payload can be read back\<close>

lemma event_keys:
  "valid_utf8 ''event_id''" "valid_utf8 ''event_type''" "valid_utf8 ''product_id''"
  "valid_utf8 ''occured_at''"
  by (simp_all add: valid_utf8_ascii byte_def)

lemma wf_event_json:
  "valid_utf8 (EventID e) \<Longrightarrow> valid_utf8 (EventType e) \<Longrightarrow> valid_utf8 (ProductID e) \<Longrightarrow>
   valid_utf8 (evSKU e) \<Longrightarrow> valid_utf8 (evName e) \<Longrightarrow> valid_utf8 (evCurrency e) \<Longrightarrow>
   valid_utf8 (rfc3339 (OccuredAt e)) \<Longrightarrow> wf_json (event_json e)"
  by (auto simp: event_json_def event_keys)

text \<open>The strings of an event a round trip through JSON keeps.\<close>

definition utf8_event :: "product_event \<Rightarrow> bool" where
  "utf8_event e \<longleftrightarrow>
     valid_utf8 (EventID e) \<and> valid_utf8 (EventType e) \<and> valid_utf8 (ProductID e) \<and>
     valid_utf8 (evSKU e) \<and> valid_utf8 (evName e) \<and> valid_utf8 (evCurrency e) \<and>
     valid_utf8 (rfc3339 (OccuredAt e))"

text \<open>
  C27: a payload determines its event. A consumer that parses the payload gets the members the
  event was written with, and two events with the same payload agree in every field but the
  year, which the time's text holds.
\<close>

theorem event_payload_roundtrip:
  assumes "marshal_event e = Ok payload" and "utf8_event e"
  shows "json_unmarshal payload = Some (event_json e) \<and>
    (\<forall>e'. marshal_event e' = Ok payload \<and> utf8_event e' \<longrightarrow>
       e'\<lparr>OccuredAt := OccuredAt e\<rparr> = e \<and> rfc3339 (OccuredAt e') = rfc3339 (OccuredAt e))"
proof -
  have reads: "json_unmarshal payload = Some (event_json x)"
    if "marshal_event x = Ok payload" "utf8_event x" for x
    using that by (auto simp: marshal_event_def utf8_event_def json_unmarshal_print wf_event_json
        split: if_splits)
  have "e'\<lparr>OccuredAt := OccuredAt e\<rparr> = e \<and> rfc3339 (OccuredAt e') = rfc3339 (OccuredAt e)"
    if "marshal_event e' = Ok payload" "utf8_event e'" for e'
  proof -
    have "event_json e' = event_json e"
      using reads [OF that] reads [OF assms] by simp
    then show ?thesis
      by (cases e; cases e') (auto simp: event_json_def intro: signed_word_eqI)
  qed
  with reads [OF assms] show ?thesis by blast
qed

theorem event_payload_roundtrip_witness:
  "let e = \<lparr>EventID = ''e1'', EventType = EventStockChanged, ProductID = ''prod-001'',
      evSKU = ''S'', evName = ''N'', evPriceCents = 5, evCurrency = ''USD'', evStock = 7,
      evActive = True, OccuredAt = \<lparr>year = 2026, rfc3339 = ''2026-01-01T00:00:00Z''\<rparr>\<rparr>
   in json_unmarshal (print_json (event_json e)) = Some (event_json e)"
proof -
  let ?e = "\<lparr>EventID = ''e1'', EventType = EventStockChanged, ProductID = ''prod-001'',
      evSKU = ''S'', evName = ''N'', evPriceCents = 5, evCurrency = ''USD'', evStock = 7,
      evActive = True, OccuredAt = \<lparr>year = 2026, rfc3339 = ''2026-01-01T00:00:00Z''\<rparr>\<rparr>"
  have "marshal_event ?e = Ok (print_json (event_json ?e))"
    by (simp add: marshal_event_def)
  moreover have "utf8_event ?e"
    by (simp add: utf8_event_def valid_utf8_ascii byte_def EventStockChanged_def)
  ultimately show ?thesis
    by (simp only: Let_def event_payload_roundtrip)
qed

end
