(* ===== verification/Schema.thy ===== *)
theory Schema
  imports Events "HOL-Library.Multiset" "HOL-Library.List_Lexorder"
begin

section \<open>The database: its tables, its statements, and the driver\<close>

text \<open>
  The two tables of \<open>migrations/\<close> with their constraints, the statements the program sends with
  their placeholders, and what each does to the tables. The columns \<open>created_at\<close>,
  \<open>updated_at\<close> and \<open>sent_at\<close> are read by no statement but one (\<open>ORDER BY created_at\<close>), so the
  tables hold no times; the order of the rows a query returns is a parameter.

  The driver and the server behind it are not under \<open>src/\<close>. They are a record of the calls the
  program makes, over a state of their own, and a locale states what is relied on: a call fails
  with an error of its own at any time, or does what the statement says to the committed
  tables or to those of the open transaction; a failed commit may have been applied.
\<close>

subsection \<open>Tables\<close>

record outbox_row =
  oID :: string
  oTopic :: string
  oKey :: string
  oType :: string
  oPayload :: string
  oStatus :: string
  oAttempts :: int
  oLastError :: "string option"

record tables =
  tb_products :: "product list"
  tb_outbox :: "outbox_row list"

datatype sql_value = SText string | SInt int | SBool bool | SBytes string

subsection \<open>Statements\<close>

text \<open>A placeholder \<open>$n\<close> is its number.\<close>

datatype set_clause =
    SetUpdatedAt
  | SetName nat
  | SetDescription nat
  | SetPriceCents nat
  | SetActive nat
  | AddStock nat

datatype sql_stmt =
    SelectPage
  | SelectByID
  | InsertProduct
  | UpdateProducts "set_clause list" nat
  | InsertOutbox
  | SelectPending
  | MarkSent
  | MarkFailed

fun clause_placeholders :: "set_clause \<Rightarrow> nat list" where
  "clause_placeholders SetUpdatedAt = []"
| "clause_placeholders (SetName n) = [n]"
| "clause_placeholders (SetDescription n) = [n]"
| "clause_placeholders (SetPriceCents n) = [n]"
| "clause_placeholders (SetActive n) = [n]"
| "clause_placeholders (AddStock n) = [n]"

fun placeholders :: "sql_stmt \<Rightarrow> nat list" where
  "placeholders SelectPage = [1, 2]"
| "placeholders SelectByID = [1]"
| "placeholders InsertProduct = [1, 2, 3, 4, 5, 6, 7]"
| "placeholders (UpdateProducts cs n) = concat (map clause_placeholders cs) @ [n]"
| "placeholders InsertOutbox = [1, 2, 3, 4, 5]"
| "placeholders SelectPending = [1]"
| "placeholders MarkSent = [1]"
| "placeholders MarkFailed = [1, 2]"

text \<open>The answer of the server: an error message, or rows and the tables after the statement.\<close>

datatype sql_answer = SqlError string | SqlRows "sql_value list list" tables

definition arg :: "sql_value list \<Rightarrow> nat \<Rightarrow> sql_value" where
  "arg args n = args ! (n - 1)"

fun clause_value :: "set_clause \<Rightarrow> sql_value list \<Rightarrow> product \<Rightarrow> (string, product) outcome" where
  "clause_value SetUpdatedAt args p = Ok p"
| "clause_value (SetName n) args p =
     (case arg args n of SText x \<Rightarrow> Ok (p\<lparr>Name := x\<rparr>) | _ \<Rightarrow> Err ''type mismatch'')"
| "clause_value (SetDescription n) args p =
     (case arg args n of SText x \<Rightarrow> Ok (p\<lparr>Description := x\<rparr>) | _ \<Rightarrow> Err ''type mismatch'')"
| "clause_value (SetPriceCents n) args p =
     (case arg args n of
        SInt k \<Rightarrow>
          if - (2 ^ 63) \<le> k \<and> k < 2 ^ 63 then Ok (p\<lparr>PriceCents := word_of_int k\<rparr>)
          else Err ''bigint out of range''
      | _ \<Rightarrow> Err ''type mismatch'')"
| "clause_value (SetActive n) args p =
     (case arg args n of SBool b \<Rightarrow> Ok (p\<lparr>Active := b\<rparr>) | _ \<Rightarrow> Err ''type mismatch'')"
| "clause_value (AddStock n) args p =
     (case arg args n of
        SInt k \<Rightarrow>
          if - (2 ^ 31) \<le> sint (Stock p) + k \<and> sint (Stock p) + k < 2 ^ 31
          then Ok (p\<lparr>Stock := word_of_int (sint (Stock p) + k)\<rparr>)
          else Err ''integer out of range''
      | _ \<Rightarrow> Err ''type mismatch'')"

fun clauses_value :: "set_clause list \<Rightarrow> sql_value list \<Rightarrow> product \<Rightarrow> (string, product) outcome" where
  "clauses_value [] args p = Ok p"
| "clauses_value (c # cs) args p =
     (case clause_value c args p of Ok q \<Rightarrow> clauses_value cs args q | r \<Rightarrow> r)"

text \<open>The constraints of the migration: two checks, the primary key and the unique SKU.\<close>

definition check_constraints :: "product \<Rightarrow> string option" where
  "check_constraints p =
     (if PriceCents p <s 0
      then Some ''new row for relation products violates check constraint products_price_cents_check''
      else if Stock p <s 0
      then Some ''new row for relation products violates check constraint products_stock_check''
      else None)"

definition unique_constraints :: "product \<Rightarrow> product list \<Rightarrow> string option" where
  "unique_constraints p ps =
     (if ID p \<in> ID ` set ps
      then Some ''duplicate key value violates unique constraint products_pkey''
      else if SKU p \<in> SKU ` set ps
      then Some ''duplicate key value violates unique constraint products_sku_key''
      else None)"

definition product_row :: "product \<Rightarrow> sql_value list" where
  "product_row p =
     [SText (ID p), SText (SKU p), SText (Name p), SText (Description p),
      SInt (sint (PriceCents p)), SText (Currency p), SInt (sint (Stock p)), SBool (Active p)]"

definition pending_row :: "outbox_row \<Rightarrow> sql_value list" where
  "pending_row r =
     [SText (oID r), SText (oTopic r), SText (oKey r), SText (oType r), SBytes (oPayload r)]"

fun mark_row :: "string \<Rightarrow> (outbox_row \<Rightarrow> outbox_row) \<Rightarrow> outbox_row list \<Rightarrow> outbox_row list" where
  "mark_row i f [] = []"
| "mark_row i f (r # rs) = (if oID r = i then f r # rs else r # mark_row i f rs)"

text \<open>
  The statements on the tables. \<open>by_id\<close> is the order of \<open>ORDER BY id\<close> in the server's collation and
  \<open>by_time\<close> gives rows in the order of \<open>ORDER BY created_at\<close>, as they are read back.
\<close>

definition select_page ::
  "(product list \<Rightarrow> product list) \<Rightarrow> sql_value list \<Rightarrow> tables \<Rightarrow> sql_answer"
where
  [simp]: "select_page by_id args t =
     (case (arg args 1, arg args 2) of
        (SInt l, SInt off) \<Rightarrow>
          if l < 0 then SqlError ''LIMIT must not be negative''
          else if off < 0 then SqlError ''OFFSET must not be negative''
          else SqlRows (map product_row (take (nat l) (drop (nat off) (by_id (tb_products t))))) t
      | _ \<Rightarrow> SqlError ''type mismatch'')"

definition select_by_id ::
  "sql_value list \<Rightarrow> tables \<Rightarrow> sql_answer"
where
  [simp]: "select_by_id args t =
     (case arg args 1 of
        SText i \<Rightarrow> SqlRows (map product_row (filter (\<lambda>p. ID p = i) (tb_products t))) t
      | _ \<Rightarrow> SqlError ''type mismatch'')"

definition insert_product ::
  "sql_value list \<Rightarrow> tables \<Rightarrow> sql_answer"
where
  [simp]: "insert_product args t =
     (case (arg args 1, arg args 2, arg args 3, arg args 4, arg args 5, arg args 6, arg args 7) of
        (SText i, SText sku, SText name, SText desc, SInt price, SText cur, SInt stock) \<Rightarrow>
          if \<not> (- (2 ^ 63) \<le> price \<and> price < 2 ^ 63) then SqlError ''bigint out of range''
          else if \<not> (- (2 ^ 31) \<le> stock \<and> stock < 2 ^ 31) then SqlError ''integer out of range''
          else
            (let p = \<lparr>ID = i, SKU = sku, Name = name, Description = desc,
                      PriceCents = word_of_int price, Currency = cur,
                      Stock = word_of_int stock, Active = True\<rparr>
             in case check_constraints p of
                  Some m \<Rightarrow> SqlError m
                | None \<Rightarrow>
                    (case unique_constraints p (tb_products t) of
                       Some m \<Rightarrow> SqlError m
                     | None \<Rightarrow> SqlRows [product_row p] (t\<lparr>tb_products := tb_products t @ [p]\<rparr>)))
      | _ \<Rightarrow> SqlError ''type mismatch'')"

definition update_products ::
  "set_clause list \<Rightarrow> nat \<Rightarrow> sql_value list \<Rightarrow> tables \<Rightarrow> sql_answer"
where
  [simp]: "update_products cs n args t =
     (case arg args n of
        SText i \<Rightarrow>
          (case index_by_id (tb_products t) i of
             None \<Rightarrow> SqlRows [] t
           | Some p \<Rightarrow>
               (case clauses_value cs args p of
                  Ok q \<Rightarrow>
                    (case check_constraints q of
                       Some m \<Rightarrow> SqlError m
                     | None \<Rightarrow>
                         SqlRows [product_row q] (t\<lparr>tb_products := replace_first q (tb_products t)\<rparr>))
                | Err m \<Rightarrow> SqlError m
                | Panic m \<Rightarrow> SqlError m))
      | _ \<Rightarrow> SqlError ''type mismatch'')"

definition insert_outbox ::
  "sql_value list \<Rightarrow> tables \<Rightarrow> sql_answer"
where
  [simp]: "insert_outbox args t =
     (case (arg args 1, arg args 2, arg args 3, arg args 4, arg args 5) of
        (SText i, SText topic, SText key, SText ty, SBytes payload) \<Rightarrow>
          if i \<in> oID ` set (tb_outbox t)
          then SqlError ''duplicate key value violates unique constraint outbox_events_pkey''
          else
            SqlRows []
              (t\<lparr>tb_outbox := tb_outbox t @
                 [\<lparr>oID = i, oTopic = topic, oKey = key, oType = ty, oPayload = payload,
                   oStatus = ''pending'', oAttempts = 0, oLastError = None\<rparr>]\<rparr>)
      | _ \<Rightarrow> SqlError ''type mismatch'')"

definition select_pending ::
  "(outbox_row list \<Rightarrow> outbox_row list) \<Rightarrow> sql_value list \<Rightarrow> tables \<Rightarrow> sql_answer"
where
  [simp]: "select_pending by_time args t =
     (case arg args 1 of
        SInt l \<Rightarrow>
          if l < 0 then SqlError ''LIMIT must not be negative''
          else SqlRows (map pending_row (take (nat l)
                 (by_time (filter (\<lambda>r. oStatus r = ''pending'') (tb_outbox t))))) t
      | _ \<Rightarrow> SqlError ''type mismatch'')"

definition mark_sent ::
  "sql_value list \<Rightarrow> tables \<Rightarrow> sql_answer"
where
  [simp]: "mark_sent args t =
     (case arg args 1 of
        SText i \<Rightarrow>
          SqlRows [] (t\<lparr>tb_outbox := mark_row i (\<lambda>r. r\<lparr>oStatus := ''sent''\<rparr>) (tb_outbox t)\<rparr>)
      | _ \<Rightarrow> SqlError ''type mismatch'')"

definition mark_failed ::
  "sql_value list \<Rightarrow> tables \<Rightarrow> sql_answer"
where
  [simp]: "mark_failed args t =
     (case (arg args 1, arg args 2) of
        (SText e, SText i) \<Rightarrow>
          SqlRows []
            (t\<lparr>tb_outbox :=
               mark_row i (\<lambda>r. r\<lparr>oAttempts := oAttempts r + 1, oLastError := Some e\<rparr>)
                 (tb_outbox t)\<rparr>)
      | _ \<Rightarrow> SqlError ''type mismatch'')"

text \<open>
  The server refuses a statement whose placeholders are not exactly the arguments it was given.
\<close>

fun exec_stmt ::
  "(product list \<Rightarrow> product list) \<Rightarrow> (outbox_row list \<Rightarrow> outbox_row list) \<Rightarrow>
     sql_stmt \<Rightarrow> sql_value list \<Rightarrow> tables \<Rightarrow> sql_answer"
where
  "exec_stmt by_id by_time SelectPage args t = select_page by_id args t"
| "exec_stmt by_id by_time SelectByID args t = select_by_id args t"
| "exec_stmt by_id by_time InsertProduct args t = insert_product args t"
| "exec_stmt by_id by_time (UpdateProducts cs n) args t = update_products cs n args t"
| "exec_stmt by_id by_time InsertOutbox args t = insert_outbox args t"
| "exec_stmt by_id by_time SelectPending args t = select_pending by_time args t"
| "exec_stmt by_id by_time MarkSent args t = mark_sent args t"
| "exec_stmt by_id by_time MarkFailed args t = mark_failed args t"

definition run_stmt ::
  "(product list \<Rightarrow> product list) \<Rightarrow> (outbox_row list \<Rightarrow> outbox_row list) \<Rightarrow>
     sql_stmt \<Rightarrow> sql_value list \<Rightarrow> tables \<Rightarrow> sql_answer"
where
  "run_stmt by_id by_time st args t =
     (if set (placeholders st) = {1..length args} then exec_stmt by_id by_time st args t
      else SqlError ''wrong number of parameters'')"

subsection \<open>The driver\<close>

text \<open>
  The calls on \<open>*sql.DB\<close> and \<open>*sql.Tx\<close>. A query answers with its rows and the error
  \<open>rows.Err()\<close> reports after the last one; a query for one row answers with it or the error of
  its \<open>Scan\<close>. The two other sources a method reads are here too: \<open>uuid.New\<close> and \<open>time.Now\<close>.
\<close>

record 'd sql_db =
  db_Query :: "context_err \<Rightarrow> sql_stmt \<Rightarrow> sql_value list \<Rightarrow> 'd \<Rightarrow>
                 (sql_value list list \<times> go_error option) result \<times> 'd"
  db_QueryRow :: "context_err \<Rightarrow> sql_stmt \<Rightarrow> sql_value list \<Rightarrow> 'd \<Rightarrow> sql_value list result \<times> 'd"
  db_Exec :: "context_err \<Rightarrow> sql_stmt \<Rightarrow> sql_value list \<Rightarrow> 'd \<Rightarrow> go_error option \<times> 'd"
  db_BeginTx :: "context_err \<Rightarrow> 'd \<Rightarrow> go_error option \<times> 'd"
  tx_QueryRow :: "context_err \<Rightarrow> sql_stmt \<Rightarrow> sql_value list \<Rightarrow> 'd \<Rightarrow> sql_value list result \<times> 'd"
  tx_Exec :: "context_err \<Rightarrow> sql_stmt \<Rightarrow> sql_value list \<Rightarrow> 'd \<Rightarrow> go_error option \<times> 'd"
  tx_Commit :: "'d \<Rightarrow> go_error option \<times> 'd"
  tx_Rollback :: "'d \<Rightarrow> 'd"
  uuid_New :: "'d \<Rightarrow> string \<times> 'd"
  time_Now :: "'d \<Rightarrow> instant \<times> 'd"

text \<open>An error made outside the program: it wraps none of the domain's sentinels.\<close>

definition foreign_error :: "go_error \<Rightarrow> bool" where
  "foreign_error e \<longleftrightarrow> (\<forall>t. domain_sentinel t \<longrightarrow> \<not> errors_is e t)"

lemma foreign_not_sentinel: "foreign_error e \<Longrightarrow> \<not> domain_sentinel e"
  using errors_is_refl by (auto simp: foreign_error_def)

text \<open>
  The payload column is \<open>JSONB\<close>: the server keeps a value and gives it back as a text of its own,
  \<open>jsonb s\<close> for the text \<open>s\<close> that was inserted.
\<close>

definition read_back :: "(string \<Rightarrow> string) \<Rightarrow> outbox_row \<Rightarrow> outbox_row" where
  "read_back jsonb r = r\<lparr>oPayload := jsonb (oPayload r)\<rparr>"

locale sql_engine =
  fixes db :: "'d sql_db"
    and committed :: "'d \<Rightarrow> tables"
    and working :: "'d \<Rightarrow> tables"
    and by_id :: "product list \<Rightarrow> product list"
    and by_time :: "outbox_row list \<Rightarrow> outbox_row list"
    and jsonb :: "string \<Rightarrow> string"
  assumes by_id_mset: "mset (by_id ps) = mset ps"
    and by_id_cong: "mset ps = mset qs \<Longrightarrow> distinct (map ID ps) \<Longrightarrow> by_id ps = by_id qs"
    and by_time_mset: "mset (by_time rs) = mset (map (read_back jsonb) rs)"
    and query_frame: "db_Query db ctx st args d = (r, d') \<Longrightarrow> committed d' = committed d"
    and query_rows:
      "db_Query db ctx st args d = (Ok (rows, None), d') \<Longrightarrow>
         run_stmt by_id by_time st args (committed d) = SqlRows rows (committed d)"
    and query_no_panic: "db_Query db ctx st args d \<noteq> (Panic m, d')"
    and query_err: "db_Query db ctx st args d = (Err e, d') \<Longrightarrow> foreign_error e"
    and rows_err: "db_Query db ctx st args d = (Ok (rows, Some e), d') \<Longrightarrow> foreign_error e"
    and query_row_frame: "db_QueryRow db ctx st args d = (q, d') \<Longrightarrow> committed d' = committed d"
    and query_row_ok:
      "db_QueryRow db ctx st args d = (Ok row, d') \<Longrightarrow>
         \<exists>rest t. run_stmt by_id by_time st args (committed d) = SqlRows (row # rest) t"
    and query_row_none:
      "db_QueryRow db ctx st args d = (Err e, d') \<Longrightarrow> errors_is e SqlErrNoRows \<Longrightarrow>
         \<exists>t. run_stmt by_id by_time st args (committed d) = SqlRows [] t"
    and query_row_no_panic: "db_QueryRow db ctx st args d \<noteq> (Panic m, d')"
    and query_row_err: "db_QueryRow db ctx st args d = (Err e, d') \<Longrightarrow> foreign_error e"
    and exec_ok:
      "db_Exec db ctx st args d = (None, d') \<Longrightarrow>
         \<exists>rows. run_stmt by_id by_time st args (committed d) = SqlRows rows (committed d')"
    and exec_err:
      "db_Exec db ctx st args d = (Some e, d') \<Longrightarrow> committed d' = committed d \<or>
         (\<exists>rows. run_stmt by_id by_time st args (committed d) = SqlRows rows (committed d'))"
    and begin_frame: "db_BeginTx db ctx d = (x, d') \<Longrightarrow> committed d' = committed d"
    and begin_ok: "db_BeginTx db ctx d = (None, d') \<Longrightarrow> working d' = committed d"
    and begin_err: "db_BeginTx db ctx d = (Some e, d') \<Longrightarrow> foreign_error e"
    and tx_row_frame: "tx_QueryRow db ctx st args d = (q, d') \<Longrightarrow> committed d' = committed d"
    and tx_row_ok:
      "tx_QueryRow db ctx st args d = (Ok row, d') \<Longrightarrow>
         \<exists>rest. run_stmt by_id by_time st args (working d) = SqlRows (row # rest) (working d')"
    and tx_row_none:
      "tx_QueryRow db ctx st args d = (Err e, d') \<Longrightarrow> errors_is e SqlErrNoRows \<Longrightarrow>
         \<exists>t. run_stmt by_id by_time st args (working d) = SqlRows [] t"
    and tx_row_no_panic: "tx_QueryRow db ctx st args d \<noteq> (Panic m, d')"
    and tx_row_err: "tx_QueryRow db ctx st args d = (Err e, d') \<Longrightarrow> foreign_error e"
    and tx_exec_frame: "tx_Exec db ctx st args d = (x, d') \<Longrightarrow> committed d' = committed d"
    and tx_exec_ok:
      "tx_Exec db ctx st args d = (None, d') \<Longrightarrow>
         \<exists>rows. run_stmt by_id by_time st args (working d) = SqlRows rows (working d')"
    and tx_exec_err: "tx_Exec db ctx st args d = (Some e, d') \<Longrightarrow> foreign_error e"
    and commit_ok: "tx_Commit db d = (None, d') \<Longrightarrow> committed d' = working d"
    and commit_err:
      "tx_Commit db d = (Some e, d') \<Longrightarrow> committed d' = committed d \<or> committed d' = working d"
    and commit_foreign: "tx_Commit db d = (Some e, d') \<Longrightarrow> foreign_error e"
    and rollback_frame: "committed (tx_Rollback db d) = committed d"
    and uuid_frame:
      "uuid_New db d = (i, d') \<Longrightarrow> committed d' = committed d \<and> working d' = working d \<and> i \<noteq> []"
    and now_frame:
      "time_Now db d = (n, d') \<Longrightarrow> committed d' = committed d \<and> working d' = working d"

subsection \<open>A reference engine\<close>

text \<open>
  One engine that keeps these laws: a server whose calls follow a script of faults, used where a
  concrete run is wanted. A failing commit is applied or not as the script says.
\<close>

datatype fault = NoFault | Fails | FailsAfter

record ref_db =
  rd_committed :: tables
  rd_working :: tables
  rd_script :: "fault list"
  rd_uuid :: nat

definition next_fault :: "ref_db \<Rightarrow> fault \<times> ref_db" where
  "next_fault d =
     (case rd_script d of [] \<Rightarrow> (NoFault, d) | f # fs \<Rightarrow> (f, d\<lparr>rd_script := fs\<rparr>))"

abbreviation conn_lost :: go_error where
  "conn_lost \<equiv> Plain ''unexpected EOF''"

definition server_error :: "string \<Rightarrow> go_error" where
  "server_error m = Plain (''ERROR: '' @ m)"

definition ref_by_id :: "product list \<Rightarrow> product list" where
  "ref_by_id ps = sort_key (\<lambda>p. map byte (ID p)) ps"

abbreviation ref_run :: "sql_stmt \<Rightarrow> sql_value list \<Rightarrow> tables \<Rightarrow> sql_answer" where
  "ref_run \<equiv> run_stmt ref_by_id (\<lambda>rs. rs)"

definition ref_row ::
  "sql_answer \<Rightarrow> (tables \<Rightarrow> ref_db) \<Rightarrow> ref_db \<Rightarrow> sql_value list result \<times> ref_db"
where
  "ref_row a upd d =
     (case a of
        SqlError m \<Rightarrow> (Err (server_error m), d)
      | SqlRows [] t \<Rightarrow> (Err SqlErrNoRows, d)
      | SqlRows (row # rest) t \<Rightarrow> (Ok row, upd t))"

definition ref_exec ::
  "sql_answer \<Rightarrow> (tables \<Rightarrow> ref_db) \<Rightarrow> ref_db \<Rightarrow> go_error option \<times> ref_db"
where
  "ref_exec a upd d =
     (case a of SqlError m \<Rightarrow> (Some (server_error m), d) | SqlRows rows t \<Rightarrow> (None, upd t))"

definition ref_engine :: "ref_db sql_db" where
  "ref_engine =
     \<lparr>db_Query = (\<lambda>ctx st args d.
        case next_fault d of
          (NoFault, d) \<Rightarrow>
            (case ref_run st args (rd_committed d) of
               SqlError m \<Rightarrow> (Err (server_error m), d)
             | SqlRows rows t \<Rightarrow>
                 if t = rd_committed d then (Ok (rows, None), d) else (Err conn_lost, d))
        | (_, d) \<Rightarrow> (Err conn_lost, d)),
      db_QueryRow = (\<lambda>ctx st args d.
        case next_fault d of
          (NoFault, d) \<Rightarrow> ref_row (ref_run st args (rd_committed d)) (\<lambda>t. d) d
        | (_, d) \<Rightarrow> (Err conn_lost, d)),
      db_Exec = (\<lambda>ctx st args d.
        case next_fault d of
          (NoFault, d) \<Rightarrow> ref_exec (ref_run st args (rd_committed d)) (\<lambda>t. d\<lparr>rd_committed := t\<rparr>) d
        | (_, d) \<Rightarrow> (Some conn_lost, d)),
      db_BeginTx = (\<lambda>ctx d.
        case next_fault d of
          (NoFault, d) \<Rightarrow> (None, d\<lparr>rd_working := rd_committed d\<rparr>)
        | (_, d) \<Rightarrow> (Some conn_lost, d)),
      tx_QueryRow = (\<lambda>ctx st args d.
        case next_fault d of
          (NoFault, d) \<Rightarrow> ref_row (ref_run st args (rd_working d)) (\<lambda>t. d\<lparr>rd_working := t\<rparr>) d
        | (_, d) \<Rightarrow> (Err conn_lost, d)),
      tx_Exec = (\<lambda>ctx st args d.
        case next_fault d of
          (NoFault, d) \<Rightarrow> ref_exec (ref_run st args (rd_working d)) (\<lambda>t. d\<lparr>rd_working := t\<rparr>) d
        | (_, d) \<Rightarrow> (Some conn_lost, d)),
      tx_Commit = (\<lambda>d.
        case next_fault d of
          (NoFault, d) \<Rightarrow> (None, d\<lparr>rd_committed := rd_working d\<rparr>)
        | (Fails, d) \<Rightarrow> (Some conn_lost, d)
        | (FailsAfter, d) \<Rightarrow> (Some conn_lost, d\<lparr>rd_committed := rd_working d\<rparr>)),
      tx_Rollback = (\<lambda>d. d\<lparr>rd_working := rd_committed d\<rparr>),
      uuid_New = (\<lambda>d. (''uuid-'' @ itoa (int (rd_uuid d)), d\<lparr>rd_uuid := rd_uuid d + 1\<rparr>)),
      time_Now = (\<lambda>d. (\<lparr>year = 2026, rfc3339 = ''2026-01-01T00:00:00Z''\<rparr>, d))\<rparr>"

lemma next_fault_sel [simp]:
  "rd_committed (snd (next_fault d)) = rd_committed d"
  "rd_working (snd (next_fault d)) = rd_working d"
  by (simp_all add: next_fault_def split: list.splits)

lemma next_faultD:
  "next_fault d = (f, d') \<Longrightarrow> rd_committed d' = rd_committed d \<and> rd_working d' = rd_working d"
  using next_fault_sel [of d] by auto

lemma foreign_simps [simp]:
  "foreign_error conn_lost" "foreign_error (server_error m)" "foreign_error SqlErrNoRows"
  by (auto simp: foreign_error_def server_error_def)

lemma sort_key_cong_mset:
  fixes f :: "'a \<Rightarrow> 'b::linorder"
  assumes "mset ps = mset qs" and "distinct (map f ps)"
  shows "sort_key f ps = sort_key f qs"
proof -
  have set: "set ps = set qs" using assms(1) by (metis set_mset_mset)
  have dist: "distinct (map f qs)"
    using assms by (metis mset_eq_imp_distinct_iff mset_map)
  have "map f (sort_key f ps) = map f (sort_key f qs)"
  proof (rule sorted_distinct_set_unique)
    show "distinct (map f (sort_key f ps))" "distinct (map f (sort_key f qs))"
      using assms(2) dist by (metis mset_eq_imp_distinct_iff mset_map mset_sort)+
  qed (use set in simp_all)
  moreover have "inj_on f (set (sort_key f ps) \<union> set (sort_key f qs))"
    using assms(2) set by (simp add: distinct_map)
  ultimately show ?thesis by (metis map_inj_on)
qed

lemma ref_answers [simp]:
  "ref_row a upd d = (Ok row, d') \<longleftrightarrow> (\<exists>rest t. a = SqlRows (row # rest) t \<and> d' = upd t)"
  "ref_row a upd d = (Err e, d') \<longleftrightarrow> d' = d \<and>
     ((\<exists>m. a = SqlError m \<and> e = server_error m) \<or> (\<exists>t. a = SqlRows [] t \<and> e = SqlErrNoRows))"
  "ref_row a upd d \<noteq> (Panic m, d')"
  "ref_exec a upd d = (None, d') \<longleftrightarrow> (\<exists>rows t. a = SqlRows rows t \<and> d' = upd t)"
  "ref_exec a upd d = (Some e, d') \<longleftrightarrow> d' = d \<and> (\<exists>m. a = SqlError m \<and> e = server_error m)"
  by (auto simp: ref_row_def ref_exec_def split: sql_answer.splits list.splits)

lemma ref_row_state: "ref_row a upd d = (q, d') \<Longrightarrow> d' = d \<or> (\<exists>t. d' = upd t)"
  by (auto simp: ref_row_def split: sql_answer.splits list.splits)

lemma ref_exec_state: "ref_exec a upd d = (x, d') \<Longrightarrow> d' = d \<or> (\<exists>t. d' = upd t)"
  by (auto simp: ref_exec_def split: sql_answer.splits)

lemma not_no_rows [simp]:
  "\<not> errors_is (server_error m) SqlErrNoRows" "\<not> errors_is conn_lost SqlErrNoRows"
  by (simp_all add: server_error_def)

lemma read_back_id [simp]: "read_back (\<lambda>s. s) = (\<lambda>r. r)"
  by (simp add: read_back_def fun_eq_iff)

interpretation ref: sql_engine ref_engine rd_committed rd_working ref_by_id "\<lambda>rs. rs" "\<lambda>s. s"
proof (unfold_locales, goal_cases)
  case (2 ps qs)
  have "distinct (map (\<lambda>p. map byte (ID p)) ps)"
  proof -
    have "inj byte"
      by (metis char_of_byte injI)
    then have "inj (map byte)" by simp
    with 2(2) have "distinct (map (map byte) (map ID ps))"
      by (simp only: distinct_map) (meson inj_on_subset subset_UNIV)
    then show ?thesis by (simp add: comp_def)
  qed
  with 2(1) show ?case unfolding ref_by_id_def by (rule sort_key_cong_mset)
qed (auto simp: ref_engine_def ref_by_id_def read_back_def
       split: prod.splits fault.splits sql_answer.splits if_splits
       dest!: next_faultD dest: ref_row_state ref_exec_state)

end
