(* ===== verification/Postgres.thy ===== *)
theory Postgres
  imports Schema
begin

section \<open>The PostgreSQL repository\<close>

text \<open>
  \<open>internal/repository/postgres/product_repository.go\<close> over any driver. The three writing methods
  run one statement on \<open>products\<close> and one insert into \<open>outbox_events\<close> in a transaction; the
  deferred rollback is the last step on every path. Logging and spans are left out. The
  repository is a pointer to a logger and the database; the constructor replaces a nil logger.
\<close>

definition pg_NewProductRepository :: "bool \<Rightarrow> 'd sql_db option \<Rightarrow> 'd sql_db result" where
  "pg_NewProductRepository has_logger db =
     (case db of None \<Rightarrow> Err (Plain ''db is empty'') | Some db \<Rightarrow> Ok db)"

subsection \<open>Reading\<close>

definition scanProduct :: "sql_value list \<Rightarrow> product result" where
  "scanProduct row =
     (case row of
        [SText i, SText sku, SText name, SText desc, SInt price, SText cur, SInt stock, SBool active] \<Rightarrow>
          if - (2 ^ 63) \<le> price \<and> price < 2 ^ 63 \<and> - (2 ^ 31) \<le> stock \<and> stock < 2 ^ 31
          then Ok \<lparr>ID = i, SKU = sku, Name = name, Description = desc,
                   PriceCents = word_of_int price, Currency = cur, Stock = word_of_int stock,
                   Active = active\<rparr>
          else Err (Plain ''sql: Scan error: value out of range'')
      | _ \<Rightarrow> Err (Plain ''sql: Scan error''))"

fun scan_rows :: "sql_value list list \<Rightarrow> product list result" where
  "scan_rows [] = Ok []"
| "scan_rows (row # rows) =
     (case scanProduct row of
        Ok p \<Rightarrow> (case scan_rows rows of Ok ps \<Rightarrow> Ok (p # ps) | r \<Rightarrow> r)
      | Err e \<Rightarrow> Err e
      | Panic m \<Rightarrow> Panic m)"

text \<open>
  \<open>make([]domain.Product, 0, limit)\<close> panics on a negative capacity and on one beyond the address
  space (a product takes 96 bytes of at most \<open>2 ^ 48\<close>).
\<close>

definition make_ok :: "int64 \<Rightarrow> bool" where
  "make_ok cap \<longleftrightarrow> 0 \<le> sint cap \<and> sint cap * 96 \<le> 2 ^ 48"

definition pg_List :: "'d sql_db \<Rightarrow> context_err \<Rightarrow> int64 \<Rightarrow> int64 \<Rightarrow> ('d, product list) act" where
  "pg_List db ctx limit offset d =
     (case db_Query db ctx SelectPage [SInt (sint limit), SInt (sint offset)] d of
        (Err e, d) \<Rightarrow> (Err e, [], d)
      | (Panic m, d) \<Rightarrow> (Panic m, [], d)
      | (Ok (rows, rows_error), d) \<Rightarrow>
          if \<not> make_ok limit then (Panic ''makeslice: cap out of range'', [], d)
          else
            (case scan_rows rows of
               Ok ps \<Rightarrow> (case rows_error of Some e \<Rightarrow> (Err e, [], d) | None \<Rightarrow> (Ok ps, [], d))
             | Err e \<Rightarrow> (Err e, [], d)
             | Panic m \<Rightarrow> (Panic m, [], d)))"

definition pg_GetByID :: "'d sql_db \<Rightarrow> context_err \<Rightarrow> string \<Rightarrow> ('d, product) act" where
  "pg_GetByID db ctx i d =
     (case db_QueryRow db ctx SelectByID [SText i] d of
        (Ok row, d) \<Rightarrow> (scanProduct row, [], d)
      | (Err e, d) \<Rightarrow> (Err (if errors_is e SqlErrNoRows then ErrProductNotFound else e), [], d)
      | (Panic m, d) \<Rightarrow> (Panic m, [], d))"

subsection \<open>The outbox event of a change\<close>

definition event_of :: "string \<Rightarrow> product \<Rightarrow> string \<Rightarrow> instant \<Rightarrow> product_event" where
  "event_of eventType p eventID now =
     \<lparr>EventID = eventID, EventType = eventType, ProductID = ID p, evSKU = SKU p, evName = Name p,
      evPriceCents = PriceCents p, evCurrency = Currency p, evStock = Stock p,
      evActive = Active p, OccuredAt = now\<rparr>"

definition insertOutboxEvent ::
  "'d sql_db \<Rightarrow> context_err \<Rightarrow> string \<Rightarrow> product \<Rightarrow> 'd \<Rightarrow> go_error option \<times> 'd"
where
  "insertOutboxEvent db ctx eventType p d =
     (case uuid_New db d of
        (eventID, d) \<Rightarrow>
          (case time_Now db d of
             (now, d) \<Rightarrow>
               (case marshal_event (event_of eventType p eventID now) of
                  Ok payload \<Rightarrow>
                    (case tx_Exec db ctx InsertOutbox
                            [SText eventID, SText ''catalog.products.v1'', SText (ID p),
                             SText eventType, SBytes payload] d of
                       (Some e, d) \<Rightarrow> (Some (Wrap ''insert outbox event: '' e []), d)
                     | (None, d) \<Rightarrow> (None, d))
                | Err e \<Rightarrow> (Some (Wrap ''marshal outbox event: '' e []), d)
                | Panic m \<Rightarrow> (None, d))))"

subsection \<open>Writing\<close>

text \<open>
  The common end of the three methods, from the row the statement returned: scan it, tell the
  errors apart, insert the event, commit, and roll back what is left open.
\<close>

definition pg_finish ::
  "'d sql_db \<Rightarrow> context_err \<Rightarrow> (go_error \<Rightarrow> go_error) \<Rightarrow> string \<Rightarrow> string \<Rightarrow>
     sql_value list result \<times> 'd \<Rightarrow> product result \<times> metric_event list \<times> 'd"
where
  "pg_finish db ctx classify eventType what answer =
     (case answer of
        (q, d) \<Rightarrow>
          (case (case q of Ok row \<Rightarrow> scanProduct row | Err e \<Rightarrow> Err e | Panic m \<Rightarrow> Panic m) of
             Err e \<Rightarrow> (Err (classify e), [], tx_Rollback db d)
           | Panic m \<Rightarrow> (Panic m, [], tx_Rollback db d)
           | Ok p \<Rightarrow>
               (case insertOutboxEvent db ctx eventType p d of
                  (Some e, d) \<Rightarrow> (Err e, [], tx_Rollback db d)
                | (None, d) \<Rightarrow>
                    (case tx_Commit db d of
                       (Some e, d) \<Rightarrow>
                         (Err (Wrap (''commit '' @ what @ '' transaction: '') e []), [],
                          tx_Rollback db d)
                     | (None, d) \<Rightarrow> (Ok p, [], tx_Rollback db d)))))"

definition create_error :: "go_error \<Rightarrow> go_error" where
  "create_error e =
     (if contains (error_text e) ''unique'' \<or> contains (error_text e) ''duplicate''
      then ErrProductAlreadyExists else e)"

definition pg_Create :: "'d sql_db \<Rightarrow> context_err \<Rightarrow> create_cmd \<Rightarrow> ('d, product) act" where
  "pg_Create db ctx cmd d =
     (case db_BeginTx db ctx d of
        (Some e, d) \<Rightarrow> (Err e, [], d)
      | (None, d) \<Rightarrow>
          (case uuid_New db d of
             (i, d) \<Rightarrow>
               pg_finish db ctx create_error EventProductCreated ''create product''
                 (tx_QueryRow db ctx InsertProduct
                    [SText i, SText (cSKU cmd), SText (cName cmd), SText (cDescription cmd),
                     SInt (sint (cPriceCents cmd)), SText (cCurrency cmd), SInt (sint (cStock cmd))]
                    d)))"

text \<open>
  The statement \<open>Update\<close> builds: a clause and an argument for each field that is given, numbered
  from 1, and the id under the number after them.
\<close>

definition add_clause ::
  "(nat \<Rightarrow> set_clause) \<Rightarrow> sql_value option \<Rightarrow> set_clause list \<times> sql_value list \<times> nat \<Rightarrow>
     set_clause list \<times> sql_value list \<times> nat"
where
  "add_clause clause v st =
     (case v of
        None \<Rightarrow> st
      | Some x \<Rightarrow> (case st of (cs, args, argIdx) \<Rightarrow> (cs @ [clause argIdx], args @ [x], argIdx + 1)))"

definition update_query :: "update_cmd \<Rightarrow> sql_stmt \<times> sql_value list" where
  "update_query cmd =
     (let st = ([SetUpdatedAt], [], 1);
          st = add_clause SetName (map_option SText (uName cmd)) st;
          st = add_clause SetDescription (map_option SText (uDescription cmd)) st;
          st = add_clause SetPriceCents (map_option (\<lambda>c. SInt (sint c)) (uPriceCents cmd)) st;
          st = add_clause SetActive (map_option SBool (uActive cmd)) st
      in case st of (cs, args, argIdx) \<Rightarrow> (UpdateProducts cs argIdx, args @ [SText (uID cmd)]))"

definition update_error :: "go_error \<Rightarrow> go_error" where
  "update_error e = (if errors_is e SqlErrNoRows then ErrProductNotFound else e)"

definition pg_Update :: "'d sql_db \<Rightarrow> context_err \<Rightarrow> update_cmd \<Rightarrow> ('d, product) act" where
  "pg_Update db ctx cmd d =
     (case update_query cmd of
        (query, args) \<Rightarrow>
          (case db_BeginTx db ctx d of
             (Some e, d) \<Rightarrow> (Err e, [], d)
           | (None, d) \<Rightarrow>
               pg_finish db ctx update_error EventProductUpdated ''update product''
                 (tx_QueryRow db ctx query args d)))"

definition stock_error :: "go_error \<Rightarrow> go_error" where
  "stock_error e =
     (if errors_is e SqlErrNoRows then ErrProductNotFound
      else if contains (error_text e) ''check'' \<or> contains (error_text e) ''stock''
      then ErrInsufficientStock else e)"

definition stock_query :: sql_stmt where
  "stock_query = UpdateProducts [AddStock 1, SetUpdatedAt] 2"

definition pg_UpdateStock :: "'d sql_db \<Rightarrow> context_err \<Rightarrow> string \<Rightarrow> int32 \<Rightarrow> ('d, product) act" where
  "pg_UpdateStock db ctx productID delta d =
     (case db_BeginTx db ctx d of
        (Some e, d) \<Rightarrow> (Err e, [], d)
      | (None, d) \<Rightarrow>
          pg_finish db ctx stock_error EventStockChanged ''update stock''
            (tx_QueryRow db ctx stock_query [SInt (sint delta), SText productID] d))"

definition pg_repo :: "'d sql_db \<Rightarrow> 'd product_repository" where
  "pg_repo db =
     \<lparr>repo_List = pg_List db, repo_GetByID = pg_GetByID db, repo_Create = pg_Create db,
      repo_Update = pg_Update db, repo_UpdateStock = pg_UpdateStock db\<rparr>"

lemma pg_repo_sel [simp]:
  "repo_List (pg_repo db) = pg_List db" "repo_GetByID (pg_repo db) = pg_GetByID db"
  "repo_Create (pg_repo db) = pg_Create db" "repo_Update (pg_repo db) = pg_Update db"
  "repo_UpdateStock (pg_repo db) = pg_UpdateStock db"
  by (simp_all add: pg_repo_def)

subsection \<open>The statements\<close>

lemma word_of_sint [simp]: "word_of_int (sint (x :: 'a::len word)) = x"
  by simp

lemma scanProduct_row [simp]: "scanProduct (product_row p) = Ok p"
  using int64_range [of "PriceCents p"] int32_range [of "Stock p"]
  by (simp add: scanProduct_def product_row_def)

lemma scanProduct_no_panic: "scanProduct row \<noteq> Panic m"
  by (auto simp: scanProduct_def split: list.splits sql_value.splits)

lemma scanProduct_err: "scanProduct row = Err e \<Longrightarrow> foreign_error e"
  by (auto simp: scanProduct_def foreign_error_def split: list.splits sql_value.splits if_splits)

lemma scan_rows_product [simp]: "scan_rows (map product_row ps) = Ok ps"
  by (induction ps) simp_all

lemma scan_rows_no_panic: "scan_rows rows \<noteq> Panic m"
  by (induction rows arbitrary: m)
     (auto simp: scanProduct_no_panic split: outcome.splits)

lemma scan_rows_cases: "(\<exists>ps. scan_rows rows = Ok ps) \<or> (\<exists>e. scan_rows rows = Err e)"
  using scan_rows_no_panic by (cases "scan_rows rows") auto

lemma arg_simps [simp]:
  "arg (x # xs) 1 = x" "arg (x # xs) (Suc 0) = x" "arg (x # xs) (Suc (Suc n)) = arg xs (Suc n)"
  by (simp_all add: arg_def)

lemma upto_Suc_0: "{Suc 0..0} = {}" "{Suc 0..Suc n} = insert (Suc n) {Suc 0..n}"
  by auto

text \<open>
  The statement \<open>Update\<close> builds has the placeholders 1 to n for its n arguments, sets exactly
  the fields that are given, and finds its id under the last one.
\<close>

lemma update_query_placeholders:
  "update_query u = (st, args) \<Longrightarrow> set (placeholders st) = {1..length args}"
  by (cases "uName u"; cases "uDescription u"; cases "uPriceCents u"; cases "uActive u")
     (auto simp: update_query_def add_clause_def upto_Suc_0)

lemma update_query_clauses:
  "update_query u = (st, args) \<Longrightarrow>
     \<exists>cs n. st = UpdateProducts cs n \<and> arg args n = SText (uID u) \<and>
       (\<forall>p. clauses_value cs args p = Ok (apply_update u p))"
  using int64_range
  by (cases "uName u"; cases "uDescription u"; cases "uPriceCents u"; cases "uActive u")
     (auto simp: update_query_def add_clause_def arg_def apply_update_def)

lemma update_exec:
  assumes "update_query u = (st, args)"
  shows "run_stmt by_id by_time st args t =
       (case index_by_id (tb_products t) (uID u) of
          None \<Rightarrow> SqlRows [] t
        | Some p \<Rightarrow>
            (case check_constraints (apply_update u p) of
               Some m \<Rightarrow> SqlError m
             | None \<Rightarrow> SqlRows [product_row (apply_update u p)]
                 (t\<lparr>tb_products := replace_first (apply_update u p) (tb_products t)\<rparr>)))"
  using update_query_clauses [OF assms] update_query_placeholders [OF assms]
  by (auto simp: run_stmt_def simp del: index_by_id_None split: option.split)

lemma upto_literals [simp]:
  "{Suc 0..Suc (Suc 0)} = {Suc 0, 2}"
  "{Suc 0..Suc (Suc (Suc (Suc (Suc 0))))} = {Suc 0, 2, 3, 4, 5}"
  "{Suc 0..Suc (Suc (Suc (Suc (Suc (Suc (Suc 0))))))} = {Suc 0, 2, 3, 4, 5, 6, 7}"
  by auto

lemma insert_exec:
  "run_stmt by_id by_time InsertProduct
     [SText i, SText sku, SText name, SText desc, SInt (sint (price :: int64)), SText cur,
      SInt (sint (stock :: int32))] t =
   (let p = \<lparr>ID = i, SKU = sku, Name = name, Description = desc, PriceCents = price,
             Currency = cur, Stock = stock, Active = True\<rparr>
    in case check_constraints p of
         Some m \<Rightarrow> SqlError m
       | None \<Rightarrow>
           (case unique_constraints p (tb_products t) of
              Some m \<Rightarrow> SqlError m
            | None \<Rightarrow> SqlRows [product_row p] (t\<lparr>tb_products := tb_products t @ [p]\<rparr>)))"
  using int64_range [of price] int32_range [of stock]
  by (simp add: run_stmt_def arg_def Let_def)

lemma stock_exec:
  "run_stmt by_id by_time stock_query [SInt (sint (delta :: int32)), SText i] t =
     (case index_by_id (tb_products t) i of
        None \<Rightarrow> SqlRows [] t
      | Some p \<Rightarrow>
          (let n = sint (Stock p) + sint delta; q = p\<lparr>Stock := word_of_int n\<rparr>
           in if - (2 ^ 31) \<le> n \<and> n < 2 ^ 31
              then
                (case check_constraints q of
                   Some m \<Rightarrow> SqlError m
                 | None \<Rightarrow> SqlRows [product_row q]
                     (t\<lparr>tb_products := replace_first q (tb_products t)\<rparr>))
              else SqlError ''integer out of range''))"
  by (auto simp: run_stmt_def stock_query_def arg_def Let_def simp del: index_by_id_None
      split: option.split)

lemma page_exec:
  "0 \<le> sint l \<Longrightarrow> 0 \<le> sint off \<Longrightarrow>
     run_stmt by_id by_time SelectPage [SInt (sint (l :: int64)), SInt (sint (off :: int64))] t =
       SqlRows (map product_row (page l off (by_id (tb_products t)))) t"
  by (simp add: run_stmt_def arg_def page_def)

lemma by_id_exec:
  "run_stmt by_id by_time SelectByID [SText i] t =
     SqlRows (map product_row (filter (\<lambda>p. ID p = i) (tb_products t))) t"
  by (simp add: run_stmt_def arg_def)

lemma outbox_exec:
  "run_stmt by_id by_time InsertOutbox [SText i, SText topic, SText key, SText ty, SBytes payload] t =
     (if i \<in> oID ` set (tb_outbox t)
      then SqlError ''duplicate key value violates unique constraint outbox_events_pkey''
      else SqlRows []
        (t\<lparr>tb_outbox := tb_outbox t @
           [\<lparr>oID = i, oTopic = topic, oKey = key, oType = ty, oPayload = payload,
             oStatus = ''pending'', oAttempts = 0, oLastError = None\<rparr>]\<rparr>))"
  by (simp add: run_stmt_def arg_def)

subsection \<open>What a transaction leaves\<close>

text \<open>An outbox row that announces a product.\<close>

definition announces :: "string \<Rightarrow> product \<Rightarrow> outbox_row \<Rightarrow> bool" where
  "announces eventType p r \<longleftrightarrow>
     oTopic r = ''catalog.products.v1'' \<and> oKey r = ID p \<and> oType r = eventType \<and>
     oStatus r = ''pending'' \<and> oAttempts r = 0 \<and> oLastError r = None \<and>
     (\<exists>now. marshal_event (event_of eventType p (oID r) now) = Ok (oPayload r))"

text \<open>The tables after a change of \<open>products\<close> to \<open>ps\<close> that announces \<open>p\<close>.\<close>

definition changed_to :: "string \<Rightarrow> product \<Rightarrow> product list \<Rightarrow> tables \<Rightarrow> tables \<Rightarrow> bool" where
  "changed_to eventType p ps t t' \<longleftrightarrow>
     (\<exists>r. announces eventType p r \<and> oID r \<notin> oID ` set (tb_outbox t) \<and>
        t' = \<lparr>tb_products = ps, tb_outbox = tb_outbox t @ [r]\<rparr>)"

text \<open>
  How a write can end, given what its statement makes of the products: with the product, and
  then the change and its event are both committed; or with an error, and then either nothing
  is, or the commit failed and both may be.
\<close>

definition write_outcome ::
  "string \<Rightarrow> (product list \<Rightarrow> (product \<times> product list) option) \<Rightarrow>
     tables \<Rightarrow> product result \<Rightarrow> tables \<Rightarrow> bool"
where
  "write_outcome eventType change t r t' \<longleftrightarrow>
     (case r of
        Ok p \<Rightarrow> \<exists>ps. change (tb_products t) = Some (p, ps) \<and> changed_to eventType p ps t t'
      | Err e \<Rightarrow> t' = t \<or>
          (\<not> domain_sentinel e \<and>
           (\<exists>p ps. change (tb_products t) = Some (p, ps) \<and> changed_to eventType p ps t t'))
      | Panic m \<Rightarrow> False)"

context sql_engine
begin

abbreviation run :: "sql_stmt \<Rightarrow> sql_value list \<Rightarrow> tables \<Rightarrow> sql_answer" where
  "run \<equiv> run_stmt by_id by_time"

lemma insertOutboxEvent_ok:
  assumes "insertOutboxEvent db ctx ty p d = (None, d')"
  shows "committed d' = committed d \<and>
    (\<exists>r. announces ty p r \<and> oID r \<notin> oID ` set (tb_outbox (working d)) \<and>
       working d' = (working d)\<lparr>tb_outbox := tb_outbox (working d) @ [r]\<rparr>)"
proof -
  obtain i d1 where uuid: "uuid_New db d = (i, d1)" by force
  obtain now d2 where now: "time_Now db d1 = (now, d2)" by force
  have same: "committed d2 = committed d" "working d2 = working d"
    using uuid_frame [OF uuid] now_frame [OF now] by simp_all
  obtain payload where payload: "marshal_event (event_of ty p i now) = Ok payload"
    and exec: "tx_Exec db ctx InsertOutbox
      [SText i, SText ''catalog.products.v1'', SText (ID p), SText ty, SBytes payload] d2 = (None, d')"
    using assms uuid now
    by (auto simp: insertOutboxEvent_def marshal_event_def split: prod.splits option.splits if_splits)
  let ?r = "\<lparr>oID = i, oTopic = ''catalog.products.v1'', oKey = ID p, oType = ty,
    oPayload = payload, oStatus = ''pending'', oAttempts = 0, oLastError = None\<rparr>"
  from tx_exec_ok [OF exec] same have "oID ?r \<notin> oID ` set (tb_outbox (working d))"
      "working d' = (working d)\<lparr>tb_outbox := tb_outbox (working d) @ [?r]\<rparr>"
    by (auto simp: outbox_exec split: if_splits)
  moreover have "announces ty p ?r"
    using payload by (auto simp: announces_def)
  ultimately show ?thesis
    using tx_exec_frame [OF exec] same by (intro conjI exI [of _ ?r]) simp_all
qed

lemma insertOutboxEvent_err:
  assumes "insertOutboxEvent db ctx ty p d = (Some e, d')"
  shows "committed d' = committed d \<and> \<not> domain_sentinel e"
proof -
  obtain i d1 where uuid: "uuid_New db d = (i, d1)" by force
  obtain now d2 where now: "time_Now db d1 = (now, d2)" by force
  have same: "committed d2 = committed d"
    using uuid_frame [OF uuid] now_frame [OF now] by simp
  from assms uuid now same show ?thesis
    by (auto simp: insertOutboxEvent_def split: outcome.splits prod.splits option.splits
        dest: tx_exec_frame)
qed

lemma pg_finish_outcome:
  assumes answer: "tx_QueryRow db ctx st args d = (q, d1)"
    and result: "pg_finish db ctx classify ty what (q, d1) = (r, ms, d')"
    and rows: "\<And>row rest t. run st args (working d) = SqlRows (row # rest) t \<Longrightarrow>
      \<exists>p ps. row = product_row p \<and> t = (working d)\<lparr>tb_products := ps\<rparr> \<and>
        change (tb_products (working d)) = Some (p, ps)"
    and same: "working d = committed d"
  shows "write_outcome ty change (committed d) r (committed d') \<and> ms = []"
proof (cases q)
  case (Ok row)
  from tx_row_ok [OF answer [unfolded Ok]] obtain rest
    where "run st args (working d) = SqlRows (row # rest) (working d1)" by blast
  from rows [OF this] obtain p ps where row: "row = product_row p"
    and work: "working d1 = (working d)\<lparr>tb_products := ps\<rparr>"
    and ch: "change (tb_products (working d)) = Some (p, ps)" by blast
  note com = tx_row_frame [OF answer]
  obtain x d2 where ins: "insertOutboxEvent db ctx ty p d1 = (x, d2)" by force
  show ?thesis
  proof (cases x)
    case (Some e)
    with result Ok row ins insertOutboxEvent_err [of ctx ty p d1 e d2] com show ?thesis
      by (auto simp: pg_finish_def write_outcome_def rollback_frame)
  next
    case None
    from insertOutboxEvent_ok [OF ins [unfolded None]] work com same
    have eff: "committed d2 = committed d" "changed_to ty p ps (committed d) (working d2)"
      by (auto simp: changed_to_def)
    obtain y d3 where com3: "tx_Commit db d2 = (y, d3)" by force
    show ?thesis
    proof (cases y)
      case None': None
      with commit_ok com3 have "committed d3 = working d2" by simp
      with result Ok row ins None None' com3 eff ch same show ?thesis
        by (auto simp: pg_finish_def write_outcome_def rollback_frame)
    next
      case (Some e)
      with commit_err com3 have "committed d3 = committed d2 \<or> committed d3 = working d2" by simp
      with result Ok row ins None Some com3 eff ch same show ?thesis
        by (auto simp: pg_finish_def write_outcome_def rollback_frame)
    qed
  qed
next
  case (Err e)
  with result tx_row_frame [OF answer] show ?thesis
    by (auto simp: pg_finish_def write_outcome_def rollback_frame)
next
  case (Panic m)
  with answer tx_row_no_panic show ?thesis by simp
qed

end

subsection \<open>The three writes\<close>

text \<open>What the statement of each write makes of the products, if it is not refused.\<close>

definition create_change ::
  "create_cmd \<Rightarrow> string \<Rightarrow> product list \<Rightarrow> (product \<times> product list) option"
where
  "create_change c i ps =
     (let p = product_of_create i c
      in if check_constraints p = None \<and> unique_constraints p ps = None
         then Some (p, ps @ [p]) else None)"

definition update_change :: "update_cmd \<Rightarrow> product list \<Rightarrow> (product \<times> product list) option" where
  "update_change u ps =
     (case index_by_id ps (uID u) of
        None \<Rightarrow> None
      | Some q \<Rightarrow>
          (let p = apply_update u q
           in if check_constraints p = None then Some (p, replace_first p ps) else None))"

definition stock_change :: "string \<Rightarrow> int32 \<Rightarrow> product list \<Rightarrow> (product \<times> product list) option" where
  "stock_change i d ps =
     (case index_by_id ps i of
        None \<Rightarrow> None
      | Some q \<Rightarrow>
          (let p = q\<lparr>Stock := Stock q + d\<rparr>
           in if 0 \<le> sint (Stock q) + sint d \<and> sint (Stock q) + sint d < 2 ^ 31 \<and>
                 check_constraints p = None
              then Some (p, replace_first p ps) else None))"

lemma sint_sum_word: "word_of_int (sint (x :: 'a::len word) + sint y) = x + y"
  by (simp add: word_of_int_inverse)

lemma check_constraints_None:
  "check_constraints p = None \<longleftrightarrow> 0 \<le> sint (PriceCents p) \<and> 0 \<le> sint (Stock p)"
  by (auto simp: check_constraints_def word_sless_alt)

context sql_engine
begin

lemma pg_Create_outcome:
  assumes "pg_Create db ctx c d = (r, ms, d')"
  shows "(\<exists>i. i \<noteq> [] \<and> write_outcome EventProductCreated (create_change c i)
      (committed d) r (committed d')) \<and> ms = []"
proof -
  obtain x d1 where beg: "db_BeginTx db ctx d = (x, d1)" by force
  show ?thesis
  proof (cases x)
    case (Some e)
    with assms beg begin_frame [OF beg] show ?thesis
      by (auto simp: pg_Create_def write_outcome_def intro: exI [of _ "''x''"])
  next
    case None
    obtain i d2 where uuid: "uuid_New db d1 = (i, d2)" by force
    let ?args = "[SText i, SText (cSKU c), SText (cName c), SText (cDescription c),
      SInt (sint (cPriceCents c)), SText (cCurrency c), SInt (sint (cStock c))]"
    obtain q d3 where row: "tx_QueryRow db ctx InsertProduct ?args d2 = (q, d3)" by force
    have fin: "pg_finish db ctx create_error EventProductCreated ''create product'' (q, d3) = (r, ms, d')"
      using assms beg None uuid row by (simp add: pg_Create_def)
    have com: "committed d2 = committed d" "working d2 = committed d2"
      using begin_frame [OF beg] begin_ok [OF beg [unfolded None]] uuid_frame [OF uuid] by simp_all
    have "write_outcome EventProductCreated (create_change c i) (committed d2) r (committed d') \<and> ms = []"
      by (rule pg_finish_outcome [OF row fin _ com(2)])
         (auto simp: insert_exec create_change_def product_of_create_def Let_def
           split: option.splits)
    then show ?thesis using com uuid_frame [OF uuid] by auto
  qed
qed

lemma pg_Update_outcome:
  assumes "pg_Update db ctx u d = (r, ms, d')"
  shows "write_outcome EventProductUpdated (update_change u) (committed d) r (committed d') \<and> ms = []"
proof -
  obtain st args where q: "update_query u = (st, args)" by force
  obtain x d1 where beg: "db_BeginTx db ctx d = (x, d1)" by force
  show ?thesis
  proof (cases x)
    case (Some e)
    with assms q beg begin_frame [OF beg] show ?thesis
      by (auto simp: pg_Update_def write_outcome_def)
  next
    case None
    obtain a d2 where row: "tx_QueryRow db ctx st args d1 = (a, d2)" by force
    have fin: "pg_finish db ctx update_error EventProductUpdated ''update product'' (a, d2) = (r, ms, d')"
      using assms q beg None row by (simp add: pg_Update_def)
    have com: "working d1 = committed d1"
      using begin_frame [OF beg] begin_ok [OF beg [unfolded None]] by simp
    have "write_outcome EventProductUpdated (update_change u) (committed d1) r (committed d') \<and> ms = []"
      by (rule pg_finish_outcome [OF row fin _ com])
         (auto simp: update_exec [OF q] update_change_def Let_def simp del: index_by_id_None
           split: option.splits)
    then show ?thesis using begin_frame [OF beg] by simp
  qed
qed

lemma pg_UpdateStock_outcome:
  assumes "pg_UpdateStock db ctx i dl d = (r, ms, d')"
  shows "write_outcome EventStockChanged (stock_change i dl) (committed d) r (committed d') \<and> ms = []"
proof -
  obtain x d1 where beg: "db_BeginTx db ctx d = (x, d1)" by force
  show ?thesis
  proof (cases x)
    case (Some e)
    with assms beg begin_frame [OF beg] show ?thesis
      by (auto simp: pg_UpdateStock_def write_outcome_def)
  next
    case None
    obtain a d2 where row: "tx_QueryRow db ctx stock_query [SInt (sint dl), SText i] d1 = (a, d2)"
      by force
    have fin: "pg_finish db ctx stock_error EventStockChanged ''update stock'' (a, d2) = (r, ms, d')"
      using assms beg None row by (simp add: pg_UpdateStock_def)
    have com: "working d1 = committed d1"
      using begin_frame [OF beg] begin_ok [OF beg [unfolded None]] by simp
    have stock: "0 \<le> sint (Stock q) + sint dl"
      if "check_constraints (q\<lparr>Stock := word_of_int (sint (Stock q) + sint dl)\<rparr>) = None"
        "- (2 ^ 31) \<le> sint (Stock q) + sint dl" "sint (Stock q) + sint dl < 2 ^ 31" for q
      using that sint_add_int32_exact [of "Stock q" dl] by (simp add: check_constraints_None sint_sum_word)
    have "write_outcome EventStockChanged (stock_change i dl) (committed d1) r (committed d') \<and> ms = []"
      by (rule pg_finish_outcome [OF row fin _ com])
         (use stock in \<open>auto simp: stock_exec stock_change_def Let_def sint_sum_word
           simp del: index_by_id_None split: option.splits if_splits\<close>)
    then show ?thesis using begin_frame [OF beg] by simp
  qed
qed

end

subsection \<open>The repository keeps the contract\<close>

lemma catalogue_ok_mset: "mset ps = mset qs \<Longrightarrow> catalogue_ok ps \<longleftrightarrow> catalogue_ok qs"
  unfolding catalogue_ok_def list_all_iff
  by (metis mset_eq_imp_distinct_iff mset_map set_mset_mset)

lemma create_change_ok:
  assumes "create_change c i ps = Some (p, qs)" and "create_validate c = None"
    and "catalogue_ok ps" and "i \<noteq> []"
  shows "p = product_of_create i c \<and> ID p \<notin> ID ` set ps \<and> SKU p \<notin> SKU ` set ps \<and>
    qs = ps @ [p] \<and> catalogue_ok qs \<and> product_wf p"
proof -
  let ?p = "product_of_create i c"
  have p: "p = ?p" "qs = ps @ [?p]" "unique_constraints ?p ps = None"
    using assms(1) by (auto simp: create_change_def Let_def split: if_splits)
  then have "ID ?p \<notin> ID ` set ps" "SKU ?p \<notin> SKU ` set ps"
    unfolding unique_constraints_def by (metis option.distinct(1))+
  moreover have "product_wf ?p" by (rule product_of_create_wf [OF assms(2,4)])
  ultimately show ?thesis
    using p assms(3) catalogue_ok_append_one by blast
qed

lemma update_change_ok:
  assumes "update_change u ps = Some (p, qs)" and "update_validate u = None" and "catalogue_ok ps"
  shows "\<exists>q \<in> set ps. ID q = uID u \<and> p = apply_update u q \<and>
    set qs = insert p (set ps - {q}) \<and> catalogue_ok qs \<and> product_wf p"
proof -
  obtain q where q: "index_by_id ps (uID u) = Some q" "p = apply_update u q" "qs = replace_first p ps"
    using assms(1) by (auto simp: update_change_def Let_def split: option.splits if_splits)
  from index_by_id_SomeD [OF q(1)] have in_ps: "q \<in> set ps" "ID q = uID u" by simp_all
  with assms(3) have "product_wf q" and dist: "distinct (map ID ps)"
    by (auto simp: catalogue_ok_def list_all_iff)
  then have "product_wf p" using q(2) assms(2) by (simp add: apply_update_wf)
  moreover have same: "ID q = ID p" "SKU q = SKU p" using q(2) by simp_all
  have "set qs = insert p (set ps - {q})"
    using set_replace_first [OF dist in_ps(1) same(1)] q(3) by simp
  moreover have "catalogue_ok qs"
    using catalogue_ok_replace_first [OF assms(3) in_ps(1) same \<open>product_wf p\<close>] q(3) by simp
  ultimately show ?thesis using q(2) in_ps by blast
qed

lemma stock_change_ok:
  assumes "stock_change i d ps = Some (p, qs)" and "catalogue_ok ps"
  shows "\<exists>q \<in> set ps. ID q = i \<and> p = q\<lparr>Stock := Stock q + d\<rparr> \<and>
    0 \<le> sint (Stock q) + sint d \<and> sint (Stock q) + sint d < 2 ^ 31 \<and>
    set qs = insert p (set ps - {q}) \<and> catalogue_ok qs \<and> product_wf p"
proof -
  obtain q where q: "index_by_id ps i = Some q" "p = q\<lparr>Stock := Stock q + d\<rparr>"
      "qs = replace_first p ps" "check_constraints p = None"
      "0 \<le> sint (Stock q) + sint d" "sint (Stock q) + sint d < 2 ^ 31"
    using assms(1) by (auto simp: stock_change_def Let_def split: option.splits if_splits)
  from index_by_id_SomeD [OF q(1)] have in_ps: "q \<in> set ps" "ID q = i" by simp_all
  with assms(2) have "product_wf q" and dist: "distinct (map ID ps)"
    by (auto simp: catalogue_ok_def list_all_iff)
  then have "product_wf p"
    using q(2,4) by (auto simp: product_wf_iff check_constraints_None)
  with q in_ps dist assms(2) show ?thesis
    by (intro bexI [of _ q]) (simp_all add: set_replace_first catalogue_ok_replace_first)
qed

lemma filter_id_unique:
  "distinct (map ID ps) \<Longrightarrow> filter (\<lambda>p. ID p = i) ps =
     (case index_by_id ps i of None \<Rightarrow> [] | Some p \<Rightarrow> [p])"
proof (induction ps)
  case (Cons p ps)
  have "filter (\<lambda>q. ID q = ID p) ps = []"
    using Cons.prems by (auto simp: filter_empty_conv image_iff)
  with Cons show ?case by auto
qed simp

lemma pg_List_rows_error:
  assumes "db_Query db ctx SelectPage [SInt (sint l), SInt (sint off)] d = (Ok (rows, Some e), d')"
    and "make_ok l"
  shows "\<exists>e. pg_List db ctx l off d = (Err e, [], d')"
  using assms scan_rows_cases [of rows] by (elim disjE exE) (simp_all add: pg_List_def)

context sql_engine
begin

abbreviation stored :: "'d \<Rightarrow> product list" where
  "stored d \<equiv> tb_products (committed d)"

lemma pg_List_result:
  assumes "pg_List db ctx l off d = (r, ms, d')" and "page_args l off"
  shows "committed d' = committed d \<and> ms = [] \<and>
    (r = Ok (page l off (by_id (stored d))) \<or> (\<exists>e. r = Err e))"
proof -
  let ?args = "[SInt (sint l), SInt (sint off)]"
  have "make_ok l" using assms(2) by (simp add: make_ok_def page_args_def)
  obtain a d1 where q: "db_Query db ctx SelectPage ?args d = (a, d1)" by force
  show ?thesis
  proof (cases a)
    case (Ok ra)
    then obtain rows x where ra: "ra = (rows, x)" by force
    show ?thesis
    proof (cases x)
      case None
      with query_rows q Ok ra have "run SelectPage ?args (committed d) = SqlRows rows (committed d)"
        by blast
      with assms(2) have "rows = map product_row (page l off (by_id (stored d)))"
        by (simp add: page_exec page_args_def)
      with assms(1) q Ok ra None \<open>make_ok l\<close> query_frame [OF q] show ?thesis
        by (auto simp: pg_List_def)
    next
      case (Some e)
      with pg_List_rows_error [of db ctx l off d rows e d1] q Ok ra \<open>make_ok l\<close>
      obtain e' where "pg_List db ctx l off d = (Err e', [], d1)" by auto
      with assms(1) query_frame [OF q] show ?thesis by auto
    qed
  next
    case (Err e)
    with assms(1) q query_frame [OF q] show ?thesis by (auto simp: pg_List_def)
  next
    case (Panic m)
    with q query_no_panic show ?thesis by simp
  qed
qed

lemma pg_List_frame:
  "pg_List db ctx l off d = (r, ms, d') \<Longrightarrow> committed d' = committed d"
  by (auto simp: pg_List_def split: prod.splits outcome.splits option.splits if_splits
      dest: query_frame)

lemma pg_GetByID_result:
  assumes "pg_GetByID db ctx i d = (r, ms, d')" and "catalogue_ok (stored d)"
  shows "committed d' = committed d \<and> ms = [] \<and>
    ((\<exists>p. r = Ok p \<and> index_by_id (stored d) i = Some p) \<or>
     (r = Err ErrProductNotFound \<and> index_by_id (stored d) i = None) \<or>
     (\<exists>e. r = Err e \<and> \<not> domain_sentinel e))"
proof -
  have rows: "run SelectByID [SText i] (committed d) =
      SqlRows (case index_by_id (stored d) i of None \<Rightarrow> [] | Some p \<Rightarrow> [product_row p]) (committed d)"
    using assms(2) by (simp add: by_id_exec filter_id_unique catalogue_ok_def split: option.split)
  obtain a d1 where q: "db_QueryRow db ctx SelectByID [SText i] d = (a, d1)" by force
  note frame = query_row_frame [OF q]
  show ?thesis
  proof (cases a)
    case (Ok row)
    from query_row_ok [OF q [unfolded Ok]] rows obtain p
      where "index_by_id (stored d) i = Some p" "row = product_row p"
      by (auto simp del: index_by_id_None split: option.splits)
    with assms(1) q Ok frame show ?thesis by (auto simp: pg_GetByID_def)
  next
    case (Err e)
    show ?thesis
    proof (cases "errors_is e SqlErrNoRows")
      case True
      from query_row_none [OF q [unfolded Err] this] rows have "index_by_id (stored d) i = None"
        by (auto simp del: index_by_id_None split: option.splits)
      with True assms(1) q Err frame show ?thesis
        by (auto simp: pg_GetByID_def simp del: index_by_id_None)
    next
      case False
      with assms(1) q Err frame foreign_not_sentinel [OF query_row_err [OF q [unfolded Err]]]
      show ?thesis by (auto simp: pg_GetByID_def)
    qed
  next
    case (Panic m)
    with q query_row_no_panic show ?thesis by simp
  qed
qed

lemma pg_GetByID_frame:
  "pg_GetByID db ctx i d = (r, ms, d') \<Longrightarrow> committed d' = committed d"
  by (auto simp: pg_GetByID_def split: prod.splits outcome.splits dest: query_row_frame)

text \<open>A write leaves a catalogue that is in order and, when it answers, a valid product.\<close>

lemma write_outcome_safe:
  assumes "write_outcome ty change t r t'" and "catalogue_ok (tb_products t)"
    and "\<And>p ps. change (tb_products t) = Some (p, ps) \<Longrightarrow> catalogue_ok ps \<and> product_wf p"
  shows "catalogue_ok (tb_products t') \<and> ok_or_err product_wf r"
  using assms by (cases r) (auto simp: write_outcome_def changed_to_def)

lemma pg_Create_changes:
  assumes "pg_Create db ctx c d = (r, ms, d')" and "create_validate c = None" and "catalogue_ok (stored d)"
  shows "\<exists>i. write_outcome EventProductCreated (create_change c i) (committed d) r (committed d') \<and>
    (\<forall>p ps. create_change c i (stored d) = Some (p, ps) \<longrightarrow>
       p = product_of_create i c \<and> ID p \<notin> ID ` set (stored d) \<and> SKU p \<notin> SKU ` set (stored d) \<and>
       ps = stored d @ [p] \<and> catalogue_ok ps \<and> product_wf p)"
  using pg_Create_outcome [OF assms(1)] create_change_ok [OF _ assms(2,3)] by meson

end

sublocale sql_engine \<subseteq> pg: spec_repository "pg_repo db" "\<lambda>d. catalogue_ok (stored d)"
  "\<lambda>d. by_id (stored d)"
proof (unfold_locales, goal_cases)
  case (1 limit offset ctx)
  show ?case
  proof (rule runs_safeI)
    fix s r ms s'
    assume *: "catalogue_ok (stored s)" "repo_List (pg_repo db) ctx limit offset s = (r, ms, s')"
    from *(1) have "catalogue_ok (by_id (stored s))"
      using catalogue_ok_mset [OF by_id_mset] by blast
    with pg_List_result [of ctx limit offset s r ms s'] * 1
    show "catalogue_ok (stored s') \<and> list_all cache_event ms \<and> ok_or_err (good_page limit) r"
      by (auto simp: good_page_page)
  qed
next
  case (2 ctx i)
  show ?case
  proof (rule runs_safeI)
    fix s r ms s'
    assume *: "catalogue_ok (stored s)" "repo_GetByID (pg_repo db) ctx i s = (r, ms, s')"
    with pg_GetByID_result [of ctx i s r ms s']
    show "catalogue_ok (stored s') \<and> list_all cache_event ms \<and> ok_or_err product_wf r"
      by (auto simp: catalogue_ok_def list_all_iff dest: index_by_id_SomeD)
  qed
next
  case (3 c ctx)
  show ?case
  proof (rule runs_safeI)
    fix s r ms s'
    assume *: "catalogue_ok (stored s)" "repo_Create (pg_repo db) ctx c s = (r, ms, s')"
    with 3 pg_Create_changes [of ctx c s r ms s'] pg_Create_outcome [of ctx c s r ms s']
    show "catalogue_ok (stored s') \<and> list_all cache_event ms \<and> ok_or_err product_wf r"
      using write_outcome_safe by fastforce
  qed
next
  case (4 u ctx)
  show ?case
  proof (rule runs_safeI)
    fix s r ms s'
    assume *: "catalogue_ok (stored s)" "repo_Update (pg_repo db) ctx u s = (r, ms, s')"
    then have out: "write_outcome EventProductUpdated (update_change u) (committed s) r (committed s')"
      and ms: "ms = []"
      using pg_Update_outcome by auto
    have "catalogue_ok (stored s') \<and> ok_or_err product_wf r"
      by (rule write_outcome_safe [OF out *(1)]) (use update_change_ok [OF _ 4 *(1)] in blast)
    with ms show "catalogue_ok (stored s') \<and> list_all cache_event ms \<and> ok_or_err product_wf r"
      by simp
  qed
next
  case (5 ctx i dl)
  show ?case
  proof (rule runs_safeI)
    fix s r ms s'
    assume *: "catalogue_ok (stored s)" "repo_UpdateStock (pg_repo db) ctx i dl s = (r, ms, s')"
    then have out: "write_outcome EventStockChanged (stock_change i dl) (committed s) r (committed s')"
      and ms: "ms = []"
      using pg_UpdateStock_outcome by auto
    have "catalogue_ok (stored s') \<and> ok_or_err product_wf r"
      by (rule write_outcome_safe [OF out *(1)]) (use stock_change_ok [OF _ *(1)] in blast)
    with ms show "catalogue_ok (stored s') \<and> list_all cache_event ms \<and> ok_or_err product_wf r"
      by simp
  qed
next
  case (6 s)
  then show ?case using catalogue_ok_mset [OF by_id_mset] by blast
next
  case (15 s limit offset ctx ps ms s')
  then show ?case using pg_List_result [of ctx limit offset s "Ok ps" ms s'] by auto
next
  case (16 s ctx i p ms s')
  then show ?case
    using pg_GetByID_result [of ctx i s "Ok p" ms s'] by_id_mset [of "stored s"]
    by (auto dest!: index_by_id_SomeD mset_eq_setD)
next
  case (17 s ctx i ms s')
  then show ?case
    using pg_GetByID_result [of ctx i s "Err ErrProductNotFound" ms s'] by_id_mset [of "stored s"]
    by (auto dest!: mset_eq_setD)
next
  case (7 s c ctx p ms s')
  from 7 pg_Create_changes [of ctx c s "Ok p" ms s'] obtain i ps where
    "p = product_of_create i c" "ID p \<notin> ID ` set (stored s)" "SKU p \<notin> SKU ` set (stored s)"
    "stored s' = stored s @ [p]"
    by (auto simp: write_outcome_def changed_to_def)
  then show ?case
    using mset_eq_setD [OF by_id_mset] by (auto simp: product_of_create_def)
next
  case (8 s u ctx p ms s')
  from 8 pg_Update_outcome [of ctx u s "Ok p" ms s'] obtain ps where
    ch: "update_change u (stored s) = Some (p, ps)" and ps: "stored s' = ps"
    by (auto simp: write_outcome_def changed_to_def)
  from update_change_ok [OF ch 8(2,1)] show ?case
    using mset_eq_setD [OF by_id_mset] ps by auto
next
  case (9 s ctx i dl p ms s')
  from 9 pg_UpdateStock_outcome [of ctx i dl s "Ok p" ms s'] obtain ps where
    ch: "stock_change i dl (stored s) = Some (p, ps)" and ps: "stored s' = ps"
    by (auto simp: write_outcome_def changed_to_def)
  from stock_change_ok [OF ch 9(1)] show ?case
    using mset_eq_setD [OF by_id_mset] ps by auto
next
  case (10 s ctx i r ms s')
  then show ?case by (auto dest!: pg_GetByID_frame)
next
  case (11 s ctx limit offset r ms s')
  then show ?case by (auto dest!: pg_List_frame)
next
  case (12 s ctx c e ms s')
  then show ?case using pg_Create_outcome [of ctx c s "Err e" ms s'] by (auto simp: write_outcome_def)
next
  case (13 s ctx u e ms s')
  then show ?case using pg_Update_outcome [of ctx u s "Err e" ms s'] by (auto simp: write_outcome_def)
next
  case (14 s ctx i d e ms s')
  then show ?case using pg_UpdateStock_outcome [of ctx i d s "Err e" ms s'] by (auto simp: write_outcome_def)
qed

context sql_engine
begin

lemmas pg_contract = pg.spec_repository_axioms

end

end
