(* ===== verification/Pg_Outbox.thy ===== *)
theory Pg_Outbox
  imports Postgres History
begin

section \<open>The transactional outbox\<close>

text \<open>
  What the writes of the PostgreSQL repository promise to the readers of \<open>outbox_events\<close>: a change
  and its event are committed together, and after any history the newest event of a product
  describes the product as it is.
\<close>

subsection \<open>Each write is atomic\<close>

text \<open>
  C8: the three writes over any engine. When a write answers with a product, the statement was
  applied to the committed products, one pending event that announces that very product was
  appended to the outbox, and nothing else changed. When it answers with an error the committed
  tables are the old ones, except that after a failed commit (whose error is no sentinel of the
  domain) both the change and its event may be there; never one without the other.
\<close>

theorem writes_are_atomic:
  assumes "sql_engine db committed working by_id by_time jsonb"
  shows "(pg_Create db ctx c d = (r, ms, d') \<longrightarrow>
      (\<exists>i. write_outcome EventProductCreated (create_change c i) (committed d) r (committed d'))) \<and>
    (pg_Update db ctx u d = (r, ms, d') \<longrightarrow>
      write_outcome EventProductUpdated (update_change u) (committed d) r (committed d')) \<and>
    (pg_UpdateStock db ctx i dl d = (r, ms, d') \<longrightarrow>
      write_outcome EventStockChanged (stock_change i dl) (committed d) r (committed d'))"
  using sql_engine.pg_Create_outcome [OF assms] sql_engine.pg_Update_outcome [OF assms]
    sql_engine.pg_UpdateStock_outcome [OF assms] by meson

text \<open>The reference engine with the default products and an empty outbox, and a script of faults.\<close>

definition ref_default :: "fault list \<Rightarrow> ref_db" where
  "ref_default script =
     \<lparr>rd_committed = \<lparr>tb_products = defaultProducts, tb_outbox = []\<rparr>,
      rd_working = \<lparr>tb_products = defaultProducts, tb_outbox = []\<rparr>,
      rd_script = script, rd_uuid = 0\<rparr>"

lemma ref_default_sel [simp]:
  "rd_committed (ref_default fs) = \<lparr>tb_products = defaultProducts, tb_outbox = []\<rparr>"
  by (simp add: ref_default_def)

lemma catalogue_ok_default: "catalogue_ok defaultProducts"
  using im_inv_default by (simp add: im_inv_def)

theorem writes_are_atomic_witness:
  "let res = pg_UpdateStock ref_engine None ''prod-001'' (- 2)
       (ref_default [NoFault, NoFault, NoFault, FailsAfter])
   in write_outcome EventStockChanged (stock_change ''prod-001'' (- 2))
        \<lparr>tb_products = defaultProducts, tb_outbox = []\<rparr> (fst res) (rd_committed (snd (snd res)))"
proof -
  let ?d = "ref_default [NoFault, NoFault, NoFault, FailsAfter]"
  obtain r ms d' where "pg_UpdateStock ref_engine None ''prod-001'' (- 2) ?d = (r, ms, d')"
    by (metis prod_cases3)
  with writes_are_atomic [OF ref.sql_engine_axioms, THEN conjunct2, THEN conjunct2] show ?thesis
    by (fastforce simp: Let_def)
qed

subsection \<open>The outbox tells the state of every product\<close>

definition newest_row :: "string \<Rightarrow> outbox_row list \<Rightarrow> outbox_row option" where
  "newest_row i rs = find (\<lambda>r. oKey r = i) (rev rs)"

text \<open>The payload of a row is the event of this product: its SKU, name, price, currency, stock, active flag.\<close>

definition tells :: "outbox_row \<Rightarrow> product \<Rightarrow> bool" where
  "tells r p \<longleftrightarrow>
     (\<exists>now. marshal_event (event_of (oType r) p (oID r) now) = Ok (oPayload r))"

definition outbox_tells :: "product set \<Rightarrow> tables \<Rightarrow> bool" where
  "outbox_tells base t \<longleftrightarrow>
     (\<forall>p \<in> set (tb_products t).
        case newest_row (ID p) (tb_outbox t) of
          None \<Rightarrow> p \<in> base
        | Some r \<Rightarrow> tells r p)"

lemma newest_row_append [simp]:
  "newest_row i (rs @ [r]) = (if oKey r = i then Some r else newest_row i rs)"
  by (simp add: newest_row_def)

lemma announces_tells: "announces ty p r \<Longrightarrow> tells r p \<and> oKey r = ID p"
  by (auto simp: announces_def tells_def)

lemma outbox_tells_changed:
  assumes "changed_to ty p ps t t'" and "outbox_tells base t"
    and "set ps \<subseteq> insert p (set (tb_products t))" and "p \<in> set ps" and "distinct (map ID ps)"
  shows "outbox_tells base t'"
proof -
  obtain r where r: "announces ty p r" "t' = \<lparr>tb_products = ps, tb_outbox = tb_outbox t @ [r]\<rparr>"
    using assms(1) by (auto simp: changed_to_def)
  have uniq: "x = p" if "x \<in> set ps" "ID x = ID p" for x
    using that assms(4,5) by (metis distinct_map inj_on_def)
  show ?thesis
    unfolding outbox_tells_def
  proof
    fix x assume x: "x \<in> set (tb_products t')"
    show "case newest_row (ID x) (tb_outbox t') of None \<Rightarrow> x \<in> base | Some r \<Rightarrow> tells r x"
    proof (cases "ID x = ID p")
      case True
      with uniq x r announces_tells [OF r(1)] show ?thesis by auto
    next
      case False
      with x r announces_tells [OF r(1)] assms(2,3) show ?thesis
        by (auto simp: outbox_tells_def)
    qed
  qed
qed

text \<open>A property of the tables that every announced change of a product keeps.\<close>

definition kept_by_changes :: "(tables \<Rightarrow> bool) \<Rightarrow> bool" where
  "kept_by_changes P \<longleftrightarrow>
     (\<forall>ty p ps t t'. P t \<and> changed_to ty p ps t t' \<and> set ps \<subseteq> insert p (set (tb_products t)) \<and>
        p \<in> set ps \<and> distinct (map ID ps) \<longrightarrow> P t')"

lemma outbox_tells_kept: "kept_by_changes (outbox_tells base)"
  using outbox_tells_changed by (auto simp: kept_by_changes_def)

lemma write_outcome_kept:
  assumes "write_outcome ty change t r t'" and "P t" and kept: "kept_by_changes P"
    and "\<And>p ps. change (tb_products t) = Some (p, ps) \<Longrightarrow>
      set ps \<subseteq> insert p (set (tb_products t)) \<and> p \<in> set ps \<and> catalogue_ok ps"
  shows "P t'"
proof -
  have step: "P t'"
    if "change (tb_products t) = Some (p, ps)" "changed_to ty p ps t t'" for p ps
    using kept assms(2) assms(4) [OF that(1)] that(2)
    unfolding kept_by_changes_def catalogue_ok_def by blast
  show ?thesis
    using assms(1,2) step by (cases r) (auto simp: write_outcome_def)
qed

context sql_engine
begin

lemma pg_kept_safe:
  assumes kept: "kept_by_changes P"
  shows "safe_repository (pg_repo db) (\<lambda>d. catalogue_ok (stored d) \<and> P (committed d))"
proof (unfold_locales, goal_cases)
  case (1 limit offset ctx)
  show ?case
  proof (rule runs_safeI)
    fix s r ms s'
    assume *: "catalogue_ok (stored s) \<and> P (committed s)"
      "repo_List (pg_repo db) ctx limit offset s = (r, ms, s')"
    then have "committed s' = committed s" by (auto dest: pg_List_frame)
    with runs_safeD [OF pg.List_safe [OF 1, of ctx]] *
    show "(catalogue_ok (stored s') \<and> P (committed s')) \<and>
        list_all cache_event ms \<and> ok_or_err (good_page limit) r"
      by auto
  qed
next
  case (2 ctx i)
  show ?case
  proof (rule runs_safeI)
    fix s r ms s'
    assume *: "catalogue_ok (stored s) \<and> P (committed s)"
      "repo_GetByID (pg_repo db) ctx i s = (r, ms, s')"
    then have "committed s' = committed s" by (auto dest: pg_GetByID_frame)
    with runs_safeD [OF pg.GetByID_safe [of ctx i]] *
    show "(catalogue_ok (stored s') \<and> P (committed s')) \<and>
        list_all cache_event ms \<and> ok_or_err product_wf r"
      by auto
  qed
next
  case (3 c ctx)
  show ?case
  proof (rule runs_safeI)
    fix s r ms s'
    assume *: "catalogue_ok (stored s) \<and> P (committed s)"
      "repo_Create (pg_repo db) ctx c s = (r, ms, s')"
    then have run: "pg_Create db ctx c s = (r, ms, s')" by simp
    obtain i where i: "write_outcome EventProductCreated (create_change c i) (committed s) r (committed s')"
      and ch: "\<And>p ps. create_change c i (stored s) = Some (p, ps) \<Longrightarrow> ps = stored s @ [p] \<and> catalogue_ok ps"
      using pg_Create_changes [OF run 3] * by blast
    have "P (committed s')"
      by (rule write_outcome_kept [OF i _ kept]) (use * ch in fastforce)+
    with runs_safeD [OF pg.Create_safe [OF 3, of ctx]] *
    show "(catalogue_ok (stored s') \<and> P (committed s')) \<and>
        list_all cache_event ms \<and> ok_or_err product_wf r"
      by auto
  qed
next
  case (4 u ctx)
  show ?case
  proof (rule runs_safeI)
    fix s r ms s'
    assume *: "catalogue_ok (stored s) \<and> P (committed s)"
      "repo_Update (pg_repo db) ctx u s = (r, ms, s')"
    then have out: "write_outcome EventProductUpdated (update_change u) (committed s) r (committed s')"
      using pg_Update_outcome by auto
    have "P (committed s')"
      by (rule write_outcome_kept [OF out _ kept]) (use * update_change_ok [OF _ 4] in blast)+
    with runs_safeD [OF pg.Update_safe [OF 4, of ctx]] *
    show "(catalogue_ok (stored s') \<and> P (committed s')) \<and>
        list_all cache_event ms \<and> ok_or_err product_wf r"
      by auto
  qed
next
  case (5 ctx i dl)
  show ?case
  proof (rule runs_safeI)
    fix s r ms s'
    assume *: "catalogue_ok (stored s) \<and> P (committed s)"
      "repo_UpdateStock (pg_repo db) ctx i dl s = (r, ms, s')"
    then have out: "write_outcome EventStockChanged (stock_change i dl) (committed s) r (committed s')"
      using pg_UpdateStock_outcome by auto
    have "P (committed s')"
      by (rule write_outcome_kept [OF out _ kept]) (use * stock_change_ok in blast)+
    with runs_safeD [OF pg.UpdateStock_safe [of ctx i dl]] *
    show "(catalogue_ok (stored s') \<and> P (committed s')) \<and>
        list_all cache_event ms \<and> ok_or_err product_wf r"
      by auto
  qed
qed

end

text \<open>
  The outbox tells the state. From a catalogue in order with an empty outbox, after any
  history of requests to the service over PostgreSQL, with any faults of the engine and any
  failed commits, every product in the table either is as it was and has no event, or the
  newest event under its id carries exactly its present SKU, name, price, currency, stock and
  active flag.
\<close>

theorem outbox_tells_state:
  assumes "sql_engine db committed working by_id by_time jsonb"
    and "catalogue_ok (tb_products (committed d))" and "tb_outbox (committed d) = []"
    and "list_all (\<lambda>q. offset_in_range (snd q)) qs"
    and "svc_run (service_of (pg_repo db)) qs d = (h, ms, d')"
    and "p \<in> set (tb_products (committed d'))"
  shows "case newest_row (ID p) (tb_outbox (committed d')) of
      None \<Rightarrow> p \<in> set (tb_products (committed d))
    | Some r \<Rightarrow> tells r p"
proof -
  let ?base = "set (tb_products (committed d))"
  have "outbox_tells ?base (committed d)"
    using assms(3) by (simp add: outbox_tells_def newest_row_def)
  with assms(2) safe_repository.svc_run_safe [OF sql_engine.pg_kept_safe [OF assms(1) outbox_tells_kept] _ assms(4,5)]
  have "outbox_tells ?base (committed d')" by blast
  with assms(6) show ?thesis by (auto simp: outbox_tells_def)
qed

theorem outbox_tells_state_witness:
  "\<exists>h ms d'. svc_run (service_of (pg_repo ref_engine)) three_requests
      (ref_default [NoFault, NoFault, NoFault, FailsAfter]) = (h, ms, d') \<and>
     (\<forall>p \<in> set (tb_products (rd_committed d')).
        case newest_row (ID p) (tb_outbox (rd_committed d')) of
          None \<Rightarrow> p \<in> set defaultProducts
        | Some r \<Rightarrow> tells r p)"
proof -
  let ?d = "ref_default [NoFault, NoFault, NoFault, FailsAfter]"
  obtain h ms d' where run: "svc_run (service_of (pg_repo ref_engine)) three_requests ?d = (h, ms, d')"
    by (metis prod_cases3)
  have ok: "catalogue_ok (tb_products (rd_committed ?d))" "tb_outbox (rd_committed ?d) = []"
    by (simp_all add: catalogue_ok_default)
  have "\<forall>p \<in> set (tb_products (rd_committed d')).
      case newest_row (ID p) (tb_outbox (rd_committed d')) of
        None \<Rightarrow> p \<in> set (tb_products (rd_committed ?d))
      | Some r \<Rightarrow> tells r p"
    by (rule ballI, rule outbox_tells_state [OF ref.sql_engine_axioms ok three_requests_in_range run])
  then have "\<forall>p \<in> set (tb_products (rd_committed d')).
      case newest_row (ID p) (tb_outbox (rd_committed d')) of
        None \<Rightarrow> p \<in> set defaultProducts
      | Some r \<Rightarrow> tells r p"
    by (simp only: ref_default_sel tables.simps)
  with run show ?thesis by (intro exI conjI)
qed

subsection \<open>A stock that overflows\<close>


end
