(* ===== verification/Outbox.thy ===== *)
theory Outbox
  imports Pg_Outbox
begin

section \<open>The outbox publisher\<close>

text \<open>
  \<open>internal/outbox/publisher.go\<close>: on each tick it fetches up to a hundred pending rows, hands each
  to the Kafka producer and marks it sent, or counts a failed attempt. A failure to mark is
  logged and otherwise ignored. The state is that of the database driver and that of the Kafka
  writer; the ticker and the context are a list of the branches \<open>select\<close> takes.
\<close>

record outbox_event =
  pe_ID :: string
  pe_Topic :: string
  pe_MessageKey :: string
  pe_EventType :: string
  pe_Payload :: string

record ('d, 'k) publisher =
  pub_db :: "'d sql_db"
  pub_producer :: "'k kafka_writer option"
  batchSize :: int64

definition NewPublisher :: "'d sql_db \<Rightarrow> 'k kafka_writer option \<Rightarrow> ('d, 'k) publisher" where
  "NewPublisher db producer = \<lparr>pub_db = db, pub_producer = producer, batchSize = 100\<rparr>"

subsection \<open>The steps of a batch\<close>

definition scan_event :: "sql_value list \<Rightarrow> outbox_event result" where
  "scan_event row =
     (case row of
        [SText i, SText topic, SText key, SText ty, SBytes payload] \<Rightarrow>
          Ok \<lparr>pe_ID = i, pe_Topic = topic, pe_MessageKey = key, pe_EventType = ty,
              pe_Payload = payload\<rparr>
      | _ \<Rightarrow> Err (Plain ''sql: Scan error''))"

fun scan_events :: "sql_value list list \<Rightarrow> outbox_event list result" where
  "scan_events [] = Ok []"
| "scan_events (row # rows) =
     (case scan_event row of
        Ok ev \<Rightarrow> (case scan_events rows of Ok evs \<Rightarrow> Ok (ev # evs) | r \<Rightarrow> r)
      | Err e \<Rightarrow> Err (Wrap ''scan pending outbox event: '' e [])
      | Panic m \<Rightarrow> Panic m)"

definition fetchPending ::
  "('d, 'k) publisher \<Rightarrow> context_err \<Rightarrow> 'd \<Rightarrow> outbox_event list result \<times> 'd"
where
  "fetchPending p ctx d =
     (case db_Query (pub_db p) ctx SelectPending [SInt (sint (batchSize p))] d of
        (Err e, d) \<Rightarrow> (Err (Wrap ''query pending outbox events: '' e []), d)
      | (Panic m, d) \<Rightarrow> (Panic m, d)
      | (Ok (rows, rows_error), d) \<Rightarrow>
          (case scan_events rows of
             Ok evs \<Rightarrow>
               (case rows_error of
                  Some e \<Rightarrow> (Err (Wrap ''iterate pending outbox events: '' e []), d)
                | None \<Rightarrow> (Ok evs, d))
           | Err e \<Rightarrow> (Err e, d)
           | Panic m \<Rightarrow> (Panic m, d)))"

definition markSent :: "('d, 'k) publisher \<Rightarrow> context_err \<Rightarrow> string \<Rightarrow> 'd \<Rightarrow> 'd" where
  "markSent p ctx eventID d = snd (db_Exec (pub_db p) ctx MarkSent [SText eventID] d)"

definition markFailed :: "('d, 'k) publisher \<Rightarrow> context_err \<Rightarrow> string \<Rightarrow> go_error \<Rightarrow> 'd \<Rightarrow> 'd" where
  "markFailed p ctx eventID e d =
     snd (db_Exec (pub_db p) ctx MarkFailed [SText (error_text e), SText eventID] d)"

fun publish_all ::
  "('d, 'k) publisher \<Rightarrow> 'k kafka_writer \<Rightarrow> context_err \<Rightarrow> outbox_event list \<Rightarrow> 'd \<times> 'k \<Rightarrow> 'd \<times> 'k"
where
  "publish_all p w ctx [] dk = dk"
| "publish_all p w ctx (ev # evs) (d, k) =
     (case producer_PublishRaw w ctx (pe_Topic ev) (pe_MessageKey ev) (pe_EventType ev) (pe_ID ev)
             (pe_Payload ev) k of
        (Some e, k) \<Rightarrow> publish_all p w ctx evs (markFailed p ctx (pe_ID ev) e d, k)
      | (None, k) \<Rightarrow> publish_all p w ctx evs (markSent p ctx (pe_ID ev) d, k))"

text \<open>A nil producer is dereferenced by the first event.\<close>

definition publishBatch ::
  "('d, 'k) publisher \<Rightarrow> context_err \<Rightarrow> 'd \<times> 'k \<Rightarrow> unit result \<times> 'd \<times> 'k"
where
  "publishBatch p ctx dk =
     (case dk of
        (d, k) \<Rightarrow>
          (case fetchPending p ctx d of
             (Err e, d) \<Rightarrow> (Err e, (d, k))
           | (Panic m, d) \<Rightarrow> (Panic m, (d, k))
           | (Ok evs, d) \<Rightarrow>
               (case pub_producer p of
                  None \<Rightarrow>
                    if evs = [] then (Ok (), (d, k))
                    else (Panic ''invalid memory address or nil pointer dereference'', (d, k))
                | Some w \<Rightarrow> (Ok (), publish_all p w ctx evs (d, k)))))"

datatype branch = Done | Tick

text \<open>\<open>Run\<close>: an error of a batch is logged and the loop goes on; it returns only when it is done.\<close>

fun publisher_Run ::
  "('d, 'k) publisher \<Rightarrow> context_err \<Rightarrow> branch list \<Rightarrow> 'd \<times> 'k \<Rightarrow> unit result option \<times> 'd \<times> 'k"
where
  "publisher_Run p ctx [] dk = (None, dk)"
| "publisher_Run p ctx (Done # bs) dk = (Some (Ok ()), dk)"
| "publisher_Run p ctx (Tick # bs) dk =
     (case publishBatch p ctx dk of
        (Panic m, dk) \<Rightarrow> (Some (Panic m), dk)
      | (_, dk) \<Rightarrow> publisher_Run p ctx bs dk)"

definition publisher_Close ::
  "('d, 'k) publisher option \<Rightarrow> 'k \<Rightarrow> go_error option \<times> 'k"
where
  "publisher_Close p k =
     (case p of
        None \<Rightarrow> (None, k)
      | Some p \<Rightarrow>
          (case pub_producer p of
             None \<Rightarrow> (None, k)
           | Some w \<Rightarrow> producer_Close w k))"

subsection \<open>The Kafka writer\<close>

text \<open>
  What is relied on of \<open>WriteMessages\<close>: when it returns nil, the message is in the log, once or,
  after retries, several times; when it returns an error the log may hold it too or not.
\<close>

locale kafka_log =
  fixes w :: "'k kafka_writer"
    and log :: "'k \<Rightarrow> kafka_message list"
  assumes write_ok:
      "WriteMessages w ctx m k = (None, k') \<Longrightarrow> \<exists>n > 0. log k' = log k @ replicate n m"
    and write_err:
      "WriteMessages w ctx m k = (Some e, k') \<Longrightarrow> \<exists>n. log k' = log k @ replicate n m"

text \<open>A broker that refuses the messages whose place in a script says so.\<close>

definition ref_writer :: "(bool list \<times> kafka_message list) kafka_writer" where
  "ref_writer =
     \<lparr>WriteMessages = (\<lambda>ctx m k.
        case k of
          (True # bs, ms) \<Rightarrow> (Some (Plain ''kafka: leader not available''), (bs, ms))
        | (False # bs, ms) \<Rightarrow> (None, (bs, ms @ [m]))
        | ([], ms) \<Rightarrow> (None, ([], ms @ [m]))),
      writer_Close = (\<lambda>k. (None, k))\<rparr>"

interpretation ref_kafka: kafka_log ref_writer snd
proof (unfold_locales, goal_cases)
  case (1 ctx m k k')
  then have "snd k' = snd k @ replicate 1 m"
    by (auto simp: ref_writer_def split: prod.splits list.splits bool.splits)
  then show ?case by blast
next
  case (2 ctx m k e k')
  then have "snd k' = snd k @ replicate 0 m"
    by (auto simp: ref_writer_def split: prod.splits list.splits bool.splits)
  then show ?case by blast
qed

subsection \<open>What a batch does to the tables and the log\<close>

text \<open>The message of a row: what \<open>PublishRaw\<close> sends for it.\<close>

definition message_of :: "(string \<Rightarrow> string) \<Rightarrow> outbox_row \<Rightarrow> kafka_message" where
  "message_of jsonb r =
     \<lparr>mTopic = oTopic r, mKey = oKey r, mValue = jsonb (oPayload r),
      mHeaders = event_headers (oType r) (oID r)\<rparr>"

text \<open>Two tables that differ in the state of delivery only.\<close>

definition same_row :: "outbox_row \<Rightarrow> outbox_row \<Rightarrow> bool" where
  "same_row r r' \<longleftrightarrow>
     oID r' = oID r \<and> oTopic r' = oTopic r \<and> oKey r' = oKey r \<and> oType r' = oType r \<and>
     oPayload r' = oPayload r"

definition same_content :: "tables \<Rightarrow> tables \<Rightarrow> bool" where
  "same_content t t' \<longleftrightarrow>
     tb_products t' = tb_products t \<and> list_all2 same_row (tb_outbox t) (tb_outbox t')"

text \<open>Every row that is marked sent is in the log.\<close>

definition sent_delivered :: "(string \<Rightarrow> string) \<Rightarrow> tables \<Rightarrow> kafka_message list \<Rightarrow> bool" where
  "sent_delivered jsonb t log \<longleftrightarrow>
     (\<forall>r \<in> set (tb_outbox t). oStatus r \<noteq> ''pending'' \<longrightarrow> message_of jsonb r \<in> set log)"

definition outbox_ok :: "tables \<Rightarrow> bool" where
  "outbox_ok t \<longleftrightarrow> distinct (map oID (tb_outbox t))"

lemma same_row_refl [simp]: "same_row r r"
  by (simp add: same_row_def)

lemma same_content_refl [simp]: "same_content t t"
  by (simp add: same_content_def list.rel_refl)

lemma same_content_trans: "same_content t u \<Longrightarrow> same_content u v \<Longrightarrow> same_content t v"
  by (auto simp: same_content_def list_all2_conv_all_nth same_row_def)

lemma same_content_message:
  "same_row r r' \<Longrightarrow> message_of jsonb r' = message_of jsonb r"
  by (simp add: same_row_def message_of_def)

lemma message_of_status [simp]: "message_of jsonb (r\<lparr>oStatus := x\<rparr>) = message_of jsonb r"
  by (simp add: message_of_def)

lemma list_all2_in_set: "list_all2 P xs ys \<Longrightarrow> x \<in> set xs \<Longrightarrow> \<exists>y \<in> set ys. P x y"
  by (induction xs ys rule: list_all2_induct) auto

lemma mark_row_same: "(\<And>r. same_row r (f r)) \<Longrightarrow> list_all2 same_row rs (mark_row i f rs)"
  by (induction rs) (auto simp: list.rel_refl)

lemma map_oID_mark_row [simp]:
  "(\<And>r. oID (f r) = oID r) \<Longrightarrow> map oID (mark_row i f rs) = map oID rs"
  by (induction rs) auto

lemma set_mark_row:
  "r' \<in> set (mark_row i f rs) \<Longrightarrow> r' \<in> set rs \<or> (\<exists>r \<in> set rs. oID r = i \<and> r' = f r)"
  by (induction rs) (auto split: if_splits)

lemma same_content_tells:
  assumes "same_content t t'" and "outbox_tells base t"
  shows "outbox_tells base t'"
proof -
  have newest: "rel_option same_row (newest_row i rs) (newest_row i rs')"
    if "list_all2 same_row rs rs'" for i rs rs'
  proof -
    have "list_all2 same_row xs ys \<Longrightarrow>
        rel_option same_row (find (\<lambda>r. oKey r = i) xs) (find (\<lambda>r. oKey r = i) ys)" for xs ys
      by (induction xs ys rule: list_all2_induct) (auto simp: same_row_def)
    with that show ?thesis by (simp add: newest_row_def list_all2_rev)
  qed
  show ?thesis
    unfolding outbox_tells_def
  proof
    fix p assume p: "p \<in> set (tb_products t')"
    with assms have old: "case newest_row (ID p) (tb_outbox t) of None \<Rightarrow> p \<in> base | Some r \<Rightarrow> tells r p"
      by (auto simp: same_content_def outbox_tells_def)
    from newest [of "tb_outbox t" "tb_outbox t'" "ID p"] assms(1)
    have "rel_option same_row (newest_row (ID p) (tb_outbox t)) (newest_row (ID p) (tb_outbox t'))"
      by (simp add: same_content_def)
    with old show "case newest_row (ID p) (tb_outbox t') of None \<Rightarrow> p \<in> base | Some r \<Rightarrow> tells r p"
      by (cases "newest_row (ID p) (tb_outbox t)"; cases "newest_row (ID p) (tb_outbox t')")
         (auto simp: tells_def same_row_def)
  qed
qed

text \<open>The fetched event of a row.\<close>

definition fetched :: "(string \<Rightarrow> string) \<Rightarrow> outbox_row \<Rightarrow> outbox_event" where
  "fetched jsonb r =
     \<lparr>pe_ID = oID r, pe_Topic = oTopic r, pe_MessageKey = oKey r, pe_EventType = oType r,
      pe_Payload = jsonb (oPayload r)\<rparr>"

lemma scan_pending: "scan_events (map pending_row rs) = Ok (map (fetched (\<lambda>s. s)) rs)"
  by (induction rs) (simp_all add: scan_event_def pending_row_def fetched_def)

lemma fetched_read_back: "fetched (\<lambda>s. s) (read_back jsonb r) = fetched jsonb r"
  by (simp add: fetched_def read_back_def)

lemma mark_exec:
  "run_stmt by_id by_time MarkSent [SText i] t =
     SqlRows [] (t\<lparr>tb_outbox := mark_row i (\<lambda>r. r\<lparr>oStatus := ''sent''\<rparr>) (tb_outbox t)\<rparr>)"
  "run_stmt by_id by_time MarkFailed [SText e, SText i] t =
     SqlRows [] (t\<lparr>tb_outbox :=
       mark_row i (\<lambda>r. r\<lparr>oAttempts := oAttempts r + 1, oLastError := Some e\<rparr>) (tb_outbox t)\<rparr>)"
  by (simp_all add: run_stmt_def arg_def)

lemma pending_exec:
  "0 \<le> n \<Longrightarrow> run_stmt by_id by_time SelectPending [SInt n] t =
     SqlRows (map pending_row (take (nat n)
       (by_time (filter (\<lambda>r. oStatus r = ''pending'') (tb_outbox t))))) t"
  by (simp add: run_stmt_def arg_def)

locale outbox_publishing =
  sql_engine db committed working by_id by_time jsonb + kafka_log w log
  for db :: "'d sql_db" and committed working by_id by_time jsonb
    and w :: "'k kafka_writer" and log
begin

abbreviation pub :: "('d, 'k) publisher" where
  "pub \<equiv> NewPublisher db (Some w)"

definition pub_inv :: "'d \<times> 'k \<Rightarrow> bool" where
  "pub_inv dk \<longleftrightarrow>
     outbox_ok (committed (fst dk)) \<and> sent_delivered jsonb (committed (fst dk)) (log (snd dk))"

lemma exec_effect:
  assumes "db_Exec db ctx st args d = (x, d')" and "run st args (committed d) = SqlRows rows t"
  shows "committed d' = committed d \<or> committed d' = t"
  using assms exec_ok [of ctx st args d d'] exec_err [of ctx st args d _ d'] by (cases x) auto

lemma markSent_effect:
  "committed (markSent pub ctx i d) = committed d \<or>
   committed (markSent pub ctx i d) = (committed d)\<lparr>tb_outbox :=
     mark_row i (\<lambda>r. r\<lparr>oStatus := ''sent''\<rparr>) (tb_outbox (committed d))\<rparr>"
  using exec_effect [OF _ mark_exec(1)]
  by (cases "db_Exec db ctx MarkSent [SText i] d") (simp add: markSent_def NewPublisher_def)

lemma markFailed_effect:
  "committed (markFailed pub ctx i e d) = committed d \<or>
   committed (markFailed pub ctx i e d) = (committed d)\<lparr>tb_outbox :=
     mark_row i (\<lambda>r. r\<lparr>oAttempts := oAttempts r + 1, oLastError := Some (error_text e)\<rparr>)
       (tb_outbox (committed d))\<rparr>"
  using exec_effect [OF _ mark_exec(2)]
  by (cases "db_Exec db ctx MarkFailed [SText (error_text e), SText i] d")
     (simp add: markFailed_def NewPublisher_def)

lemma marks_same_content:
  "same_content (committed d) (committed (markSent pub ctx i d))"
  "same_content (committed d) (committed (markFailed pub ctx i e d))"
proof -
  show "same_content (committed d) (committed (markSent pub ctx i d))"
    using markSent_effect [of ctx i d] mark_row_same [of "\<lambda>r. r\<lparr>oStatus := ''sent''\<rparr>"]
    by (auto simp: same_content_def same_row_def list.rel_refl)
  show "same_content (committed d) (committed (markFailed pub ctx i e d))"
    using markFailed_effect [of ctx i e d]
      mark_row_same [of "\<lambda>r. r\<lparr>oAttempts := oAttempts r + 1, oLastError := Some (error_text e)\<rparr>"]
    by (auto simp: same_content_def same_row_def list.rel_refl)
qed

lemma marks_outbox_ok:
  "outbox_ok (committed d) \<Longrightarrow> outbox_ok (committed (markSent pub ctx i d))"
  "outbox_ok (committed d) \<Longrightarrow> outbox_ok (committed (markFailed pub ctx i e d))"
  using markSent_effect [of ctx i d] markFailed_effect [of ctx i e d]
  by (auto simp: outbox_ok_def)

lemma markFailed_delivered:
  assumes "sent_delivered jsonb (committed d) ms"
  shows "sent_delivered jsonb (committed (markFailed pub ctx i e d)) ms"
  using markFailed_effect [of ctx i e d] assms
  by (auto simp: sent_delivered_def message_of_def dest!: set_mark_row)

lemma markSent_delivered:
  assumes "sent_delivered jsonb (committed d) ms" and "outbox_ok (committed d)"
    and "r \<in> set (tb_outbox (committed d))" and "message_of jsonb r \<in> set ms"
  shows "sent_delivered jsonb (committed (markSent pub ctx (oID r) d)) ms"
  using markSent_effect [of ctx "oID r" d]
proof
  assume eff: "committed (markSent pub ctx (oID r) d) = (committed d)\<lparr>tb_outbox :=
     mark_row (oID r) (\<lambda>r. r\<lparr>oStatus := ''sent''\<rparr>) (tb_outbox (committed d))\<rparr>"
  have uniq: "x = r" if "x \<in> set (tb_outbox (committed d))" "oID x = oID r" for x
    using that assms(2,3) by (metis distinct_map inj_on_def outbox_ok_def)
  show ?thesis
    unfolding sent_delivered_def
  proof (intro ballI impI)
    fix x assume x: "x \<in> set (tb_outbox (committed (markSent pub ctx (oID r) d)))"
      "oStatus x \<noteq> ''pending''"
    with eff have "x \<in> set (tb_outbox (committed d)) \<or>
        (\<exists>y \<in> set (tb_outbox (committed d)). oID y = oID r \<and> x = y\<lparr>oStatus := ''sent''\<rparr>)"
      by (auto dest: set_mark_row)
    then show "message_of jsonb x \<in> set ms"
    proof (elim disjE bexE conjE)
      assume "x \<in> set (tb_outbox (committed d))"
      with x(2) assms(1) show ?thesis by (simp add: sent_delivered_def)
    next
      fix y assume y: "y \<in> set (tb_outbox (committed d))" "oID y = oID r" "x = y\<lparr>oStatus := ''sent''\<rparr>"
      from uniq [OF y(1,2)] y(3) assms(4) show ?thesis by simp
    qed
  qed
qed (use assms in simp)

lemma sent_delivered_mono:
  "sent_delivered jsonb t ms \<Longrightarrow> set ms \<subseteq> set ms' \<Longrightarrow> sent_delivered jsonb t ms'"
  by (auto simp: sent_delivered_def)

lemma publish_all_inv:
  "pub_inv (d, k) \<Longrightarrow>
   \<forall>ev \<in> set evs. \<exists>r \<in> set (tb_outbox (committed d)). ev = fetched jsonb r \<Longrightarrow>
   publish_all pub w ctx evs (d, k) = (d', k') \<Longrightarrow>
     pub_inv (d', k') \<and> same_content (committed d) (committed d') \<and> set (log k) \<subseteq> set (log k')"
proof (induction evs arbitrary: d k)
  case Nil
  then show ?case by simp
next
  case (Cons ev evs)
  from Cons.prems(2) obtain r where r: "r \<in> set (tb_outbox (committed d))" "ev = fetched jsonb r"
    by auto
  obtain x k1 where send: "WriteMessages w ctx (message_of jsonb r) k = (x, k1)" by force
  then have raw: "producer_PublishRaw w ctx (pe_Topic ev) (pe_MessageKey ev) (pe_EventType ev)
      (pe_ID ev) (pe_Payload ev) k = (x, k1)"
    using r(2) by (simp add: producer_PublishRaw_def fetched_def message_of_def)
  define d1 where "d1 = (case x of None \<Rightarrow> markSent pub ctx (oID r) d
    | Some e \<Rightarrow> markFailed pub ctx (oID r) e d)"
  have step: "publish_all pub w ctx evs (d1, k1) = (d', k')"
    using Cons.prems(3) raw r(2) by (cases x) (simp_all add: d1_def fetched_def)
  have log: "set (log k) \<subseteq> set (log k1)"
    using send write_ok [of ctx _ k k1] write_err [of ctx _ k _ k1] by (cases x) fastforce+
  have same: "same_content (committed d) (committed d1)"
    using marks_same_content by (cases x) (simp_all add: d1_def)
  have inv: "pub_inv (d1, k1)"
  proof (cases x)
    case None
    then obtain n where "n > 0" "log k1 = log k @ replicate n (message_of jsonb r)"
      using send write_ok by blast
    then have "message_of jsonb r \<in> set (log k1)" by auto
    with Cons.prems(1) None log r(1) show ?thesis
      by (auto simp: pub_inv_def d1_def marks_outbox_ok
          intro: markSent_delivered sent_delivered_mono)
  next
    case (Some e)
    with Cons.prems(1) log show ?thesis
      by (auto simp: pub_inv_def d1_def marks_outbox_ok
          intro: markFailed_delivered sent_delivered_mono)
  qed
  have "\<exists>r' \<in> set (tb_outbox (committed d1)). ev' = fetched jsonb r'" if "ev' \<in> set evs" for ev'
  proof -
    from that Cons.prems(2) obtain y where y: "y \<in> set (tb_outbox (committed d))" "ev' = fetched jsonb y"
      by auto
    with same list_all2_in_set [of same_row "tb_outbox (committed d)"]
    obtain y' where "y' \<in> set (tb_outbox (committed d1))" "same_row y y'"
      by (fastforce simp: same_content_def)
    with y show ?thesis by (auto simp: fetched_def same_row_def intro!: bexI [of _ y'])
  qed
  with Cons.IH [OF inv _ step] same log show ?case
    using same_content_trans by blast
qed

lemma fetchPending_ok:
  assumes "fetchPending pub ctx d = (Ok evs, d')"
  shows "committed d' = committed d \<and> evs = map (fetched (\<lambda>s. s)) (take 100
    (by_time (filter (\<lambda>r. oStatus r = ''pending'') (tb_outbox (committed d)))))"
proof -
  have size: "sint (100 :: int64) = 100" by simp
  obtain a d1 where q: "db_Query db ctx SelectPending [SInt 100] d = (a, d1)" by force
  with assms obtain rows where rows: "a = Ok (rows, None)" "scan_events rows = Ok evs" "d1 = d'"
    by (auto simp: fetchPending_def NewPublisher_def split: outcome.splits option.splits prod.splits)
  with q query_rows [of ctx SelectPending "[SInt 100]" d rows d1] query_frame [OF q] show ?thesis
    by (auto simp: pending_exec scan_pending)
qed

lemma fetchPending_frame:
  "fetchPending pub ctx d = (r, d') \<Longrightarrow> committed d' = committed d"
  by (auto simp: fetchPending_def NewPublisher_def split: prod.splits outcome.splits option.splits
      dest: query_frame)

lemma fetchPending_no_panic: "fetchPending pub ctx d \<noteq> (Panic m, d')"
proof -
  have "scan_event row \<noteq> Panic m" for row m
    by (auto simp: scan_event_def split: list.splits sql_value.splits)
  then have "scan_events rows \<noteq> Panic m" for rows m
    by (induction rows arbitrary: m) (auto split: outcome.splits)
  then show ?thesis
    by (auto simp: fetchPending_def NewPublisher_def query_no_panic
        split: prod.splits outcome.splits option.splits)
qed

lemma publishBatch_inv:
  assumes "pub_inv (d, k)" and "publishBatch pub ctx (d, k) = (r, d', k')"
  shows "pub_inv (d', k') \<and> same_content (committed d) (committed d') \<and>
    set (log k) \<subseteq> set (log k') \<and> (\<forall>m. r \<noteq> Panic m)"
proof -
  obtain a d1 where f: "fetchPending pub ctx d = (a, d1)" by force
  note frame = fetchPending_frame [OF f]
  show ?thesis
  proof (cases a)
    case (Ok evs)
    let ?pending = "filter (\<lambda>r. oStatus r = ''pending'') (tb_outbox (committed d))"
    have evs: "evs = map (fetched (\<lambda>s. s)) (take 100 (by_time ?pending))"
      using fetchPending_ok f Ok by blast
    have "set (by_time ?pending) = read_back jsonb ` set ?pending"
      using mset_eq_setD [OF by_time_mset] by simp
    then have "\<forall>ev \<in> set evs. \<exists>r \<in> set (tb_outbox (committed d1)). ev = fetched jsonb r"
      using frame unfolding evs by (fastforce dest!: in_set_takeD simp: fetched_read_back)
    moreover have "pub_inv (d1, k)" using assms(1) frame by (simp add: pub_inv_def)
    moreover have "publish_all pub w ctx evs (d1, k) = (d', k')" "r = Ok ()"
      using assms(2) f Ok by (simp_all add: publishBatch_def NewPublisher_def)
    ultimately show ?thesis using publish_all_inv frame by fastforce
  next
    case (Err e)
    with assms f frame show ?thesis by (auto simp: publishBatch_def pub_inv_def)
  next
    case (Panic m)
    with f fetchPending_no_panic show ?thesis by simp
  qed
qed

end

interpretation ref_pub: outbox_publishing ref_engine rd_committed rd_working ref_by_id "\<lambda>rs. rs"
  "\<lambda>s. s" ref_writer snd
  by unfold_locales

subsection \<open>The service and the publisher together\<close>

text \<open>
  Requests to the service and ticks of the publisher in any order, over one database. A batch
  is one action, so a request does not come between the calls of a batch.
\<close>

datatype system_action = Serve context_err request | Publish context_err

fun system_run ::
  "'d catalog_service option \<Rightarrow> ('d, 'k) publisher \<Rightarrow> system_action list \<Rightarrow> 'd \<times> 'k \<Rightarrow> 'd \<times> 'k"
where
  "system_run sv p [] dk = dk"
| "system_run sv p (Serve ctx req # as) (d, k) =
     (case svc_step sv (ctx, req) d of (a, ms, d') \<Rightarrow> system_run sv p as (d', k))"
| "system_run sv p (Publish ctx # as) (d, k) =
     (case publishBatch p ctx (d, k) of (r, dk') \<Rightarrow> system_run sv p as dk')"

fun action_in_range :: "system_action \<Rightarrow> bool" where
  "action_in_range (Serve ctx req) = offset_in_range req"
| "action_in_range (Publish ctx) = True"

lemma outbox_ok_kept: "kept_by_changes outbox_ok"
  by (auto simp: kept_by_changes_def changed_to_def outbox_ok_def)

lemma sent_delivered_kept: "kept_by_changes (\<lambda>t. sent_delivered jsonb t ms)"
  by (auto simp: kept_by_changes_def changed_to_def sent_delivered_def announces_def)

lemma kept_conj:
  "kept_by_changes P \<Longrightarrow> kept_by_changes Q \<Longrightarrow> kept_by_changes (\<lambda>t. P t \<and> Q t)"
  unfolding kept_by_changes_def by blast

text \<open>No row is ever removed and none changes its content.\<close>

definition keeps_rows :: "outbox_row list \<Rightarrow> outbox_row list \<Rightarrow> bool" where
  "keeps_rows rs rs' \<longleftrightarrow> (\<exists>xs ys. rs' = xs @ ys \<and> list_all2 same_row rs xs)"

context outbox_publishing
begin

definition system_inv :: "product set \<Rightarrow> 'd \<times> 'k \<Rightarrow> bool" where
  "system_inv base dk \<longleftrightarrow>
     catalogue_ok (stored (fst dk)) \<and> outbox_tells base (committed (fst dk)) \<and> pub_inv dk"

lemma serve_inv:
  assumes "system_inv base (d, k)" and "offset_in_range req"
    and step: "svc_step (service_of (pg_repo db)) (ctx, req) d = (a, ms, d')"
  shows "system_inv base (d', k)"
proof -
  let ?P = "\<lambda>t. outbox_tells base t \<and> outbox_ok t \<and> sent_delivered jsonb t (log k)"
  have "kept_by_changes ?P"
    by (intro kept_conj outbox_tells_kept outbox_ok_kept sent_delivered_kept)
  from safe_repository.svc_step_safe [OF pg_kept_safe [OF this] _ _ step] assms(1,2)
  show ?thesis by (simp add: system_inv_def pub_inv_def)
qed

lemma publish_inv:
  assumes "system_inv base (d, k)" and "publishBatch pub ctx (d, k) = (r, d', k')"
  shows "system_inv base (d', k')"
proof -
  have "pub_inv (d, k)" using assms(1) by (simp add: system_inv_def)
  from publishBatch_inv [OF this assms(2)] have
    "pub_inv (d', k')" and same: "same_content (committed d) (committed d')" by blast+
  with same_content_tells [OF same, of base] assms(1) show ?thesis
    by (simp add: system_inv_def same_content_def)
qed

lemma system_run_inv:
  "system_inv base dk \<Longrightarrow> list_all action_in_range as \<Longrightarrow>
     system_inv base (system_run (service_of (pg_repo db)) pub as dk)"
proof (induction as arbitrary: dk)
  case Nil
  then show ?case by simp
next
  case (Cons a as)
  obtain d k where dk: "dk = (d, k)" by force
  show ?case
  proof (cases a)
    case (Serve ctx req)
    obtain b ms d' where step: "svc_step (service_of (pg_repo db)) (ctx, req) d = (b, ms, d')"
      by (metis prod_cases3)
    from Cons.prems Serve dk have "system_inv base (d', k)"
      by (intro serve_inv [OF _ _ step]) simp_all
    with Cons.IH [of "(d', k)"] Cons.prems(2) Serve dk step show ?thesis by simp
  next
    case (Publish ctx)
    obtain r d' k' where batch: "publishBatch pub ctx (d, k) = (r, d', k')"
      by (metis prod_cases3)
    from Cons.prems dk have "system_inv base (d', k')"
      by (intro publish_inv [OF _ batch]) simp
    with Cons.IH [of "(d', k')"] Cons.prems(2) Publish dk batch show ?thesis by simp
  qed
qed

end

text \<open>
  C6: delivery at least once. Over any engine and any Kafka writer that keep their laws, with any
  faults, from a catalogue in order with an empty outbox, after any interleaving of requests and
  publisher batches: every event that is marked sent is in Kafka, with its key, its headers and
  its payload, and the newest event of each product still carries the product's state.
\<close>

theorem sent_events_are_delivered:
  assumes "outbox_publishing db committed working by_id by_time jsonb w log"
    and "catalogue_ok (tb_products (committed d))" and "tb_outbox (committed d) = []"
    and "list_all action_in_range as"
    and "system_run (service_of (pg_repo db)) (NewPublisher db (Some w)) as (d, k) = (d', k')"
  shows "(\<forall>r \<in> set (tb_outbox (committed d')).
      oStatus r \<noteq> ''pending'' \<longrightarrow> message_of jsonb r \<in> set (log k')) \<and>
    outbox_tells (set (tb_products (committed d))) (committed d')"
proof -
  let ?base = "set (tb_products (committed d))"
  have "outbox_publishing.system_inv committed jsonb log ?base (d, k)"
    using assms(2,3)
    by (simp add: outbox_publishing.system_inv_def [OF assms(1)] outbox_publishing.pub_inv_def [OF assms(1)]
        outbox_tells_def newest_row_def outbox_ok_def sent_delivered_def)
  from outbox_publishing.system_run_inv [OF assms(1) this assms(4)] assms(5)
  show ?thesis
    by (simp add: outbox_publishing.system_inv_def [OF assms(1)] outbox_publishing.pub_inv_def [OF assms(1)]
        sent_delivered_def)
qed

theorem sent_events_are_delivered_witness:
  "let (d', k') = system_run (service_of (pg_repo ref_engine)) (NewPublisher ref_engine (Some ref_writer))
       [Serve None (ReqStock ''prod-001'' 8), Publish None, Publish None]
       (ref_default [], ([True], []))
   in \<forall>r \<in> set (tb_outbox (rd_committed d')).
        oStatus r \<noteq> ''pending'' \<longrightarrow> message_of (\<lambda>s. s) r \<in> set (snd k')"
proof -
  let ?as = "[Serve None (ReqStock ''prod-001'' 8), Publish None, Publish None]"
  obtain d' k' where run: "system_run (service_of (pg_repo ref_engine))
      (NewPublisher ref_engine (Some ref_writer)) ?as (ref_default [], ([True], [])) = (d', k')"
    by (metis surj_pair)
  have ok: "catalogue_ok (tb_products (rd_committed (ref_default [])))"
      "tb_outbox (rd_committed (ref_default [])) = []"
    by (simp_all add: catalogue_ok_default)
  have range: "list_all action_in_range ?as" by simp
  from sent_events_are_delivered [OF ref_pub.outbox_publishing_axioms ok range run] run
  show ?thesis by (simp only: Let_def prod.case) blast
qed

subsection \<open>Without faults everything is delivered\<close>

definition pending_ids :: "tables \<Rightarrow> string set" where
  "pending_ids t = oID ` {r \<in> set (tb_outbox t). oStatus r = ''pending''}"

text \<open>
  An engine and a writer whose calls do not fail in their calm states and stay calm: a stretch
  of time without faults.
\<close>

definition reliable ::
  "'d sql_db \<Rightarrow> ('d \<Rightarrow> tables) \<Rightarrow> (product list \<Rightarrow> product list) \<Rightarrow>
     (outbox_row list \<Rightarrow> outbox_row list) \<Rightarrow> ('d \<Rightarrow> bool) \<Rightarrow> 'k kafka_writer \<Rightarrow> ('k \<Rightarrow> bool) \<Rightarrow> bool"
where
  "reliable db committed by_id by_time calm w calm_log \<longleftrightarrow>
     (\<forall>ctx st args d rows. calm d \<and>
        run_stmt by_id by_time st args (committed d) = SqlRows rows (committed d) \<longrightarrow>
        (\<exists>d'. db_Query db ctx st args d = (Ok (rows, None), d') \<and> calm d')) \<and>
     (\<forall>ctx st args d rows t. calm d \<and>
        run_stmt by_id by_time st args (committed d) = SqlRows rows t \<longrightarrow>
        (\<exists>d'. db_Exec db ctx st args d = (None, d') \<and> calm d')) \<and>
     (\<forall>ctx m k. calm_log k \<longrightarrow> (\<exists>k'. WriteMessages w ctx m k = (None, k') \<and> calm_log k'))"

lemma finite_pending_ids [simp]: "finite (pending_ids t)"
  by (simp add: pending_ids_def)

lemma pending_mark_sent:
  assumes "distinct (map oID rs)"
  shows "oID ` {r \<in> set (mark_row i (\<lambda>r. r\<lparr>oStatus := ''sent''\<rparr>) rs). oStatus r = ''pending''} =
    oID ` {r \<in> set rs. oStatus r = ''pending''} - {i}"
  using assms
proof (induction rs)
  case (Cons r rs)
  show ?case
  proof (cases "oID r = i")
    case True
    with Cons.prems have "\<forall>x \<in> set rs. oID x \<noteq> i" by (auto simp: image_iff)
    with True show ?thesis by auto
  next
    case False
    with Cons show ?thesis by (auto simp: image_iff)
  qed
qed simp

context outbox_publishing
begin

lemma markSent_reliable:
  assumes "reliable db committed by_id by_time calm w calm_log" and "outbox_ok (committed d)" and "calm d"
  shows "pending_ids (committed (markSent pub ctx i d)) = pending_ids (committed d) - {i} \<and>
    calm (markSent pub ctx i d)"
proof -
  obtain d' where exec: "db_Exec db ctx MarkSent [SText i] d = (None, d')" and "calm d'"
    using assms(1,3) mark_exec(1) unfolding reliable_def by blast
  from exec_ok [OF exec] have "committed d' = (committed d)\<lparr>tb_outbox :=
      mark_row i (\<lambda>r. r\<lparr>oStatus := ''sent''\<rparr>) (tb_outbox (committed d))\<rparr>"
    by (simp add: mark_exec)
  with exec \<open>calm d'\<close> assms(2) show ?thesis
    by (simp add: markSent_def NewPublisher_def pending_ids_def outbox_ok_def pending_mark_sent)
qed

lemma publish_all_reliable:
  "reliable db committed by_id by_time calm w calm_log \<Longrightarrow> outbox_ok (committed d) \<Longrightarrow>
   calm d \<Longrightarrow> calm_log k \<Longrightarrow> publish_all pub w ctx evs (d, k) = (d', k') \<Longrightarrow>
     pending_ids (committed d') = pending_ids (committed d) - set (map pe_ID evs) \<and>
     calm d' \<and> calm_log k'"
proof (induction evs arbitrary: d k)
  case (Cons ev evs)
  obtain k1 where "producer_PublishRaw w ctx (pe_Topic ev) (pe_MessageKey ev) (pe_EventType ev)
      (pe_ID ev) (pe_Payload ev) k = (None, k1)" and "calm_log k1"
    using Cons.prems(1,4) unfolding reliable_def producer_PublishRaw_def by blast
  then have step: "publish_all pub w ctx evs (markSent pub ctx (pe_ID ev) d, k1) = (d', k')"
    using Cons.prems(5) by simp
  from Cons.IH [OF Cons.prems(1) _ _ \<open>calm_log k1\<close> step] marks_outbox_ok(1) [OF Cons.prems(2)]
    markSent_reliable [OF Cons.prems(1-3)]
  show ?case by auto
qed simp

lemma publishBatch_reliable:
  assumes rel: "reliable db committed by_id by_time calm w calm_log" and ok: "outbox_ok (committed d)"
    and calm: "calm d" "calm_log k"
    and run: "publishBatch pub ctx (d, k) = (r, d', k')"
  shows "card (pending_ids (committed d')) = card (pending_ids (committed d)) - 100 \<and>
    calm d' \<and> calm_log k'"
proof -
  let ?ps = "filter (\<lambda>r. oStatus r = ''pending'') (tb_outbox (committed d))"
  let ?rows = "take 100 (by_time ?ps)"
  have "run SelectPending [SInt 100] (committed d) = SqlRows (map pending_row ?rows) (committed d)"
    by (simp add: pending_exec)
  then obtain d1 where q: "db_Query db ctx SelectPending [SInt 100] d =
      (Ok (map pending_row ?rows, None), d1)" and "calm d1"
    using rel calm(1) unfolding reliable_def by blast
  from q have fetch: "fetchPending pub ctx d = (Ok (map (fetched (\<lambda>s. s)) ?rows), d1)"
    by (simp add: fetchPending_def NewPublisher_def scan_pending)
  have same: "committed d1 = committed d" by (rule query_frame [OF q])
  have ids: "mset (map oID (by_time ?ps)) = mset (map oID ?ps)"
    by (simp add: by_time_mset multiset.map_comp comp_def read_back_def)
  have dist: "distinct (map oID ?ps)"
    using ok by (simp add: outbox_ok_def distinct_map_filter)
  then have dist': "distinct (map oID (by_time ?ps))"
    using ids mset_eq_imp_distinct_iff by blast
  have pend: "pending_ids (committed d) = set (map oID (by_time ?ps))"
    using mset_eq_setD [OF ids] by (auto simp: pending_ids_def)
  have "pending_ids (committed d') = pending_ids (committed d) - set (map oID ?rows) \<and>
      calm d' \<and> calm_log k'"
    using publish_all_reliable [OF rel, of d1 k ctx "map (fetched (\<lambda>s. s)) ?rows" d' k'] run fetch same ok
      calm \<open>calm d1\<close>
    by (simp add: publishBatch_def NewPublisher_def fetched_def image_image)
  moreover have "set (map oID ?rows) \<subseteq> pending_ids (committed d)"
    using pend by (auto dest: in_set_takeD)
  moreover have "card (set (map oID ?rows)) = min 100 (card (pending_ids (committed d)))"
  proof -
    have "map oID ?rows = take 100 (map oID (by_time ?ps))" by (simp add: take_map)
    then have "distinct (map oID ?rows)" using dist' by (simp only: distinct_take)
    then have "card (set (map oID ?rows)) = length (map oID ?rows)" by (rule distinct_card)
    moreover have "card (pending_ids (committed d)) = length (map oID (by_time ?ps))"
      unfolding pend by (rule distinct_card [OF dist'])
    ultimately show ?thesis by simp
  qed
  ultimately show ?thesis by (simp add: card_Diff_subset)
qed

lemma ticks_reliable:
  "reliable db committed by_id by_time calm w calm_log \<Longrightarrow> pub_inv dk \<Longrightarrow>
   calm (fst dk) \<Longrightarrow> calm_log (snd dk) \<Longrightarrow> card (pending_ids (committed (fst dk))) \<le> 100 * n \<Longrightarrow>
   publisher_Run pub ctx (replicate n Tick) dk = (r, d', k') \<Longrightarrow>
     r = None \<and> pub_inv (d', k') \<and> pending_ids (committed d') = {} \<and>
     same_content (committed (fst dk)) (committed d')"
proof (induction n arbitrary: dk)
  case 0
  then show ?case by auto
next
  case (Suc n)
  obtain d k where dk: "dk = (d, k)" by force
  obtain a d1 k1 where batch: "publishBatch pub ctx (d, k) = (a, d1, k1)" by (metis prod_cases3)
  from Suc.prems(2) dk publishBatch_inv [OF _ batch]
  have inv: "pub_inv (d1, k1)" "same_content (committed d) (committed d1)" "\<not> (\<exists>m. a = Panic m)"
    by simp_all
  have "outbox_ok (committed d)" using Suc.prems(2) dk by (simp add: pub_inv_def)
  from publishBatch_reliable [OF Suc.prems(1) this _ _ batch] Suc.prems(3-5) dk
  have "card (pending_ids (committed (fst (d1, k1)))) \<le> 100 * n" "calm (fst (d1, k1))"
    "calm_log (snd (d1, k1))" by simp_all
  moreover have "publisher_Run pub ctx (replicate n Tick) (d1, k1) = (r, d', k')"
    using Suc.prems(6) dk batch inv(3) by (cases a) simp_all
  ultimately show ?case
    using Suc.IH [OF Suc.prems(1) inv(1)] inv(2) dk same_content_trans by fastforce
qed

end


lemma ref_reliable:
  "reliable ref_engine rd_committed ref_by_id (\<lambda>rs. rs) (\<lambda>d. rd_script d = []) ref_writer (\<lambda>k. fst k = [])"
  by (auto simp: reliable_def ref_engine_def ref_writer_def next_fault_def ref_exec_def)

text \<open>Two pending events of one product.\<close>

definition two_pending :: ref_db where
  "two_pending =
     (let row = (\<lambda>i. \<lparr>oID = i, oTopic = ''catalog.products.v1'', oKey = ''prod-001'',
                      oType = EventStockChanged, oPayload = i, oStatus = ''pending'',
                      oAttempts = 0, oLastError = None\<rparr>);
          t = \<lparr>tb_products = defaultProducts, tb_outbox = [row ''e1'', row ''e2'']\<rparr>
      in \<lparr>rd_committed = t, rd_working = t, rd_script = [], rd_uuid = 0\<rparr>)"



end
