(* ===== verification/Redis_Cache.thy ===== *)
theory Redis_Cache
  imports Product_Json Repository "HOL-Library.AList"
begin

section \<open>The Redis cache\<close>

text \<open>
  \<open>internal/repository/redis/cache.go\<close> and \<open>cache_models.go\<close>: products and pages kept as JSON under
  keys made of the id or of limit and offset, and the invalidation of all pages by a \<open>SCAN\<close> loop
  and one \<open>DEL\<close>. The client of \<open>go-redis\<close> is a parameter, a record of its four calls over its
  own state; what is relied on of it is the locale \<open>redis_store\<close>, and \<open>ref_redis\<close> is one client
  that keeps it. Logging and spans are left out.

  The contract of the cache is that of a map that may lose entries at any time: \<open>cache_spec\<close>
  says what each operation does to the maps of the cached products and pages, and
  \<open>cache_refines_map\<close> that the operations on the store implement it.
\<close>

subsection \<open>The client\<close>

record 'r redis_client =
  r_Get :: "context_err \<Rightarrow> string \<Rightarrow> 'r \<Rightarrow> string result \<times> 'r"
  r_Set :: "context_err \<Rightarrow> string \<Rightarrow> string \<Rightarrow> int64 \<Rightarrow> 'r \<Rightarrow> go_error option \<times> 'r"
  r_Del :: "context_err \<Rightarrow> string list \<Rightarrow> 'r \<Rightarrow> go_error option \<times> 'r"
  r_Scan :: "context_err \<Rightarrow> 64 word \<Rightarrow> string \<Rightarrow> int64 \<Rightarrow> 'r \<Rightarrow> (string list \<times> 64 word) result \<times> 'r"

record 'r cache =
  cache_client :: "'r redis_client"
  cache_ttl :: int64

definition NewCache :: "bool \<Rightarrow> 'r redis_client option \<Rightarrow> int64 \<Rightarrow> 'r cache result" where
  "NewCache has_logger client ttl =
     (case client of
        None \<Rightarrow> Err (Plain ''redis client is empty'')
      | Some c \<Rightarrow>
          if ttl <=s 0 then Err (Plain ''redis ttl must be > 0'')
          else Ok \<lparr>cache_client = c, cache_ttl = ttl\<rparr>)"

subsection \<open>Keys and payloads\<close>

definition productKey :: "string \<Rightarrow> string" where
  "productKey i = ''catalog:product:'' @ i"

definition productListKey :: "int64 \<Rightarrow> int64 \<Rightarrow> string" where
  "productListKey limit offset =
     ''catalog:list:v1:limit='' @ itoa (sint limit) @ '':offset='' @ itoa (sint offset)"

abbreviation list_prefix :: string where
  "list_prefix \<equiv> ''catalog:list:v1:''"

text \<open>\<open>productListCacheValue\<close> and its decoding.\<close>

definition product_list_json :: "product list \<Rightarrow> json" where
  "product_list_json ps = JObj [(''items'', JArr (map product_json ps))]"

text \<open>
  A slice keeps its backing array: when the member \<open>items\<close> comes a second time, its elements are
  decoded over the elements of the first. So the state of the decoder is the backing array and
  the length of the slice; an empty array and \<open>null\<close> give a slice without the old array.
\<close>

fun decode_onto :: "json list \<Rightarrow> product list \<Rightarrow> product list option" where
  "decode_onto [] old = Some []"
| "decode_onto (j # js) old =
     (case decode_struct product_field (case old of [] \<Rightarrow> zero_product | p # _ \<Rightarrow> p) j of
        None \<Rightarrow> None
      | Some p \<Rightarrow> map_option (\<lambda>ps. p # ps) (decode_onto js (tl old)))"

fun decode_items :: "json \<Rightarrow> product list \<times> nat \<Rightarrow> (product list \<times> nat) option" where
  "decode_items (JArr []) st = Some ([], 0)"
| "decode_items (JArr js) st =
     map_option (\<lambda>ps. (ps @ drop (length js) (fst st), length js)) (decode_onto js (fst st))"
| "decode_items JNull st = Some ([], 0)"
| "decode_items _ st = None"

fun decode_list_members ::
  "(string \<times> json) list \<Rightarrow> product list \<times> nat \<Rightarrow> (product list \<times> nat) option"
where
  "decode_list_members [] st = Some st"
| "decode_list_members ((k, j) # ms) st =
     (case (if fold_key k = ''items'' then decode_items j st else Some st) of
        None \<Rightarrow> None
      | Some st' \<Rightarrow> decode_list_members ms st')"

fun decode_product_list :: "json \<Rightarrow> product list option" where
  "decode_product_list (JObj ms) =
     map_option (\<lambda>(backing, n). take n backing) (decode_list_members ms ([], 0))"
| "decode_product_list JNull = Some []"
| "decode_product_list _ = None"

subsection \<open>The operations\<close>

text \<open>
  A get answers with the value, with a miss, or with an error: \<open>Ok (Some x)\<close>, \<open>Ok None\<close>, \<open>Err\<close>. The
  error of \<open>json.Unmarshal\<close> is a plain one.
\<close>

abbreviation unmarshal_error :: go_error where
  "unmarshal_error \<equiv> Plain ''json: cannot unmarshal''"

definition cache_get ::
  "'r cache \<Rightarrow> (json \<Rightarrow> 'a option) \<Rightarrow> context_err \<Rightarrow> string \<Rightarrow> 'r \<Rightarrow> 'a option result \<times> 'r"
where
  "cache_get c decode ctx key r =
     (case r_Get (cache_client c) ctx key r of
        (Err e, r) \<Rightarrow> (if errors_is e RedisNil then Ok None else Err e, r)
      | (Panic m, r) \<Rightarrow> (Panic m, r)
      | (Ok raw, r) \<Rightarrow>
          (case Option.bind (json_unmarshal raw) decode of
             None \<Rightarrow> (Err unmarshal_error, r)
           | Some x \<Rightarrow> (Ok (Some x), r)))"

definition GetProduct_cache ::
  "'r cache \<Rightarrow> context_err \<Rightarrow> string \<Rightarrow> 'r \<Rightarrow> product option result \<times> 'r"
where
  "GetProduct_cache c ctx i r = cache_get c decode_product ctx (productKey i) r"

definition SetProduct :: "'r cache \<Rightarrow> context_err \<Rightarrow> product \<Rightarrow> 'r \<Rightarrow> go_error option \<times> 'r" where
  "SetProduct c ctx p r =
     r_Set (cache_client c) ctx (productKey (ID p)) (print_json (product_json p)) (cache_ttl c) r"

definition DeleteProduct :: "'r cache \<Rightarrow> context_err \<Rightarrow> string \<Rightarrow> 'r \<Rightarrow> go_error option \<times> 'r" where
  "DeleteProduct c ctx i r = r_Del (cache_client c) ctx [productKey i] r"

definition GetProductList ::
  "'r cache \<Rightarrow> context_err \<Rightarrow> int64 \<Rightarrow> int64 \<Rightarrow> 'r \<Rightarrow> product list option result \<times> 'r"
where
  "GetProductList c ctx limit offset r =
     cache_get c decode_product_list ctx (productListKey limit offset) r"

definition SetProductList ::
  "'r cache \<Rightarrow> context_err \<Rightarrow> int64 \<Rightarrow> int64 \<Rightarrow> product list \<Rightarrow> 'r \<Rightarrow> go_error option \<times> 'r"
where
  "SetProductList c ctx limit offset ps r =
     r_Set (cache_client c) ctx (productListKey limit offset) (print_json (product_list_json ps))
       (cache_ttl c) r"

text \<open>
  The loop of \<open>InvalidateListCache\<close>. Nothing in the code bounds it: it ends when the server hands
  out cursor 0, and \<open>None\<close> is the run that does not end.
\<close>

partial_function (option) scan_loop ::
  "'r redis_client \<Rightarrow> context_err \<Rightarrow> 64 word \<Rightarrow> string list \<Rightarrow> 'r \<Rightarrow> (string list result \<times> 'r) option"
where
  "scan_loop client ctx cursor keysToDelete r =
     (case r_Scan client ctx cursor (list_prefix @ ''*'') 100 r of
        (Err e, r) \<Rightarrow> Some (Err e, r)
      | (Panic m, r) \<Rightarrow> Some (Panic m, r)
      | (Ok (keys, nextCursor), r) \<Rightarrow>
          if nextCursor = 0 then Some (Ok (keysToDelete @ keys), r)
          else scan_loop client ctx nextCursor (keysToDelete @ keys) r)"

definition InvalidateListCache ::
  "'r cache \<Rightarrow> context_err \<Rightarrow> 'r \<Rightarrow> (unit result \<times> 'r) option"
where
  "InvalidateListCache c ctx r =
     (case scan_loop (cache_client c) ctx 0 [] r of
        None \<Rightarrow> None
      | Some (Err e, r) \<Rightarrow> Some (Err e, r)
      | Some (Panic m, r) \<Rightarrow> Some (Panic m, r)
      | Some (Ok keysToDelete, r) \<Rightarrow>
          if keysToDelete = [] then Some (Ok (), r)
          else
            (case r_Del (cache_client c) ctx keysToDelete r of
               (Some e, r) \<Rightarrow> Some (Err e, r)
             | (None, r) \<Rightarrow> Some (Ok (), r)))"

subsection \<open>Facts about keys and payloads\<close>

lemma productKey_inject [simp]: "productKey i = productKey j \<longleftrightarrow> i = j"
  by (simp add: productKey_def)

lemma colon_notin_itoa: "CHR '':'' \<notin> set (itoa k)"
  by (rule not_in_itoa) simp_all

lemma productListKey_inject [simp]:
  "productListKey l f = productListKey l' f' \<longleftrightarrow> l = l' \<and> f = f'"
  by (auto simp: productListKey_def append_sep_inject [OF colon_notin_itoa colon_notin_itoa]
      intro: signed_word_eqI)

lemma productKey_not_list [simp]:
  "productKey i \<noteq> productListKey l f" "productListKey l f \<noteq> productKey i"
  "\<not> prefix list_prefix (productKey i)"
  by (simp_all add: productKey_def productListKey_def)

lemma productListKey_prefix [simp]: "prefix list_prefix (productListKey l f)"
  by (simp add: productListKey_def)

lemma decode_onto_product_json:
  "decode_onto (map product_json ps) old = Some ps" if "old = []" for old
  using that
proof (induction ps arbitrary: old)
  case (Cons p ps)
  then have "decode_struct product_field zero_product (product_json p) = Some p"
    using decode_product_json by (simp add: decode_product_def)
  with Cons show ?case by simp
qed simp

lemma clean_elems_map: "clean_elems js = map clean_json js"
  by (induction js) auto

lemma decode_product_list_json: "decode_product_list (product_list_json ps) = Some ps"
proof (cases "map product_json ps")
  case (Cons j js)
  then have "decode_items (JArr (map product_json ps)) ([], 0) = Some (ps, length ps)"
    by (simp add: decode_onto_product_json [of "[]" ps, unfolded Cons] length_Cons [symmetric]
        arg_cong [OF Cons, of length, simplified] del: length_Cons decode_onto.simps)
  then show ?thesis by (simp add: product_list_json_def del: fold_key.simps)
qed (simp add: product_list_json_def del: fold_key.simps)

lemma unmarshal_product_list:
  "Option.bind (json_unmarshal (print_json (product_list_json ps))) decode_product_list =
     Some (map clean_product ps)"
proof -
  have "clean_json (product_list_json ps) = product_list_json (map clean_product ps)"
    by (simp add: product_list_json_def clean_elems_map to_valid_utf8_id comp_def)
  moreover have "int_json (product_list_json ps)"
    by (simp add: product_list_json_def)
  ultimately show ?thesis
    by (simp add: json_unmarshal_print_clean decode_product_list_json)
qed

subsection \<open>What is relied on of Redis\<close>

text \<open>
  \<open>store\<close> is the live content. A key may expire or be evicted at any time, so every call may end
  in a smaller store (\<open>\<subseteq>\<^sub>m\<close>); a call that fails may have taken effect. A \<open>SCAN\<close> that starts at
  cursor 0 and ends at cursor 0 returns every key that was there all the while: \<open>unseen\<close> is what
  the rest of an iteration still has to return, and \<open>left\<close> bounds its length (an iteration over a
  keyspace that does not grow ends). Other writers to the same keys are not part of this contract.
\<close>

locale redis_store =
  fixes client :: "'r redis_client"
    and store :: "'r \<Rightarrow> string \<rightharpoonup> string"
    and unseen :: "64 word \<Rightarrow> 'r \<Rightarrow> string set"
    and left :: "64 word \<Rightarrow> 'r \<Rightarrow> nat"
  assumes Get_store: "r_Get client ctx k r = (q, r') \<Longrightarrow> store r' \<subseteq>\<^sub>m store r"
    and Get_value: "r_Get client ctx k r = (Ok v, r') \<Longrightarrow> store r k = Some v"
    and Get_missing: "r_Get client ctx k r = (Err e, r') \<Longrightarrow> errors_is e RedisNil \<Longrightarrow> store r' k = None"
    and Get_returns: "r_Get client ctx k r \<noteq> (Panic m, r')"
    and Set_store:
      "r_Set client ctx k v ttl r = (err, r') \<Longrightarrow>
         store r' \<subseteq>\<^sub>m (store r)(k \<mapsto> v) \<or> err \<noteq> None \<and> store r' \<subseteq>\<^sub>m store r"
    and Del_store: "r_Del client ctx ks r = (err, r') \<Longrightarrow> store r' \<subseteq>\<^sub>m store r"
    and Del_gone: "r_Del client ctx ks r = (None, r') \<Longrightarrow> k \<in> set ks \<Longrightarrow> store r' k = None"
    and Scan_store: "r_Scan client ctx cur pat n r = (x, r') \<Longrightarrow> store r' \<subseteq>\<^sub>m store r"
    and Scan_returns: "r_Scan client ctx cur pat n r \<noteq> (Panic m, r')"
    and Scan_start: "dom (store r) \<subseteq> unseen 0 r"
    and Scan_keys:
      "r_Scan client ctx cur (list_prefix @ ''*'') n r = (Ok (keys, cur'), r') \<Longrightarrow>
         k \<in> unseen cur r \<Longrightarrow> k \<in> dom (store r') \<Longrightarrow> prefix list_prefix k \<Longrightarrow>
         k \<in> set keys \<or> cur' \<noteq> 0 \<and> k \<in> unseen cur' r'"
    and Scan_ends:
      "r_Scan client ctx cur (list_prefix @ ''*'') n r = (Ok (keys, cur'), r') \<Longrightarrow> cur' \<noteq> 0 \<Longrightarrow>
         left cur' r' < left cur r"
begin

text \<open>What the loop returns: no panic, the store only shrinks, and each key still to come is there.\<close>

definition scan_result ::
  "64 word \<Rightarrow> string list \<Rightarrow> 'r \<Rightarrow> string list result \<Rightarrow> 'r \<Rightarrow> bool"
where
  "scan_result cur ks r res r' \<longleftrightarrow>
     store r' \<subseteq>\<^sub>m store r \<and> (\<forall>m. res \<noteq> Panic m) \<and>
     (\<forall>all. res = Ok all \<longrightarrow> set ks \<subseteq> set all \<and>
        (\<forall>k \<in> unseen cur r \<inter> dom (store r'). prefix list_prefix k \<longrightarrow> k \<in> set all))"

lemma scan_result_step:
  assumes scan: "r_Scan client ctx cur (list_prefix @ ''*'') 100 r = (Ok (keys, cur'), r1)"
    and "cur' \<noteq> 0" and rest: "scan_result cur' (ks @ keys) r1 res r'"
  shows "scan_result cur ks r res r'"
proof -
  have dom: "dom (store r') \<subseteq> dom (store r1)"
    using rest by (simp add: scan_result_def map_le_implies_dom_le)
  have "k \<in> set all"
    if all: "res = Ok all" and k: "k \<in> unseen cur r" "k \<in> dom (store r')" "prefix list_prefix k" for all k
  proof -
    from dom k Scan_keys [OF scan] have "k \<in> set keys \<or> k \<in> unseen cur' r1" by blast
    with rest all k show ?thesis by (auto simp: scan_result_def)
  qed
  moreover have "set ks \<subseteq> set all" if "res = Ok all" for all
    using rest that by (simp add: scan_result_def)
  moreover have "store r' \<subseteq>\<^sub>m store r" "\<And>m. res \<noteq> Panic m"
    using rest map_le_trans [OF _ Scan_store [OF scan]] by (simp_all add: scan_result_def)
  ultimately show ?thesis
    unfolding scan_result_def by blast
qed

lemma scan_loop_ends:
  "\<exists>res r'. scan_loop client ctx cur ks r = Some (res, r') \<and> scan_result cur ks r res r'"
proof (induction "left cur r" arbitrary: cur ks r rule: less_induct)
  case less
  obtain q r1 where q: "r_Scan client ctx cur (list_prefix @ ''*'') 100 r = (q, r1)"
    by (metis surj_pair)
  note shrinks = Scan_store [OF q]
  show ?case
  proof (cases q)
    case (Ok x)
    obtain keys cur' where x: "x = (keys, cur')" by (metis surj_pair)
    with Ok q have scan: "r_Scan client ctx cur (list_prefix @ ''*'') 100 r = (Ok (keys, cur'), r1)"
      by simp
    show ?thesis
    proof (cases "cur' = 0")
      case True
      with Scan_keys [OF scan] shrinks have "scan_result cur ks r (Ok (ks @ keys)) r1"
        by (auto simp: scan_result_def)
      with scan True show ?thesis by (subst scan_loop.simps) simp
    next
      case False
      from less [OF Scan_ends [OF scan False], of "ks @ keys"] scan False show ?thesis
        by (subst scan_loop.simps) (auto dest: scan_result_step [OF scan False])
    qed
  next
    case (Err e)
    with q shrinks show ?thesis by (subst scan_loop.simps) (simp add: scan_result_def)
  next
    case (Panic m)
    with q Scan_returns show ?thesis by metis
  qed
qed

text \<open>The invalidation returns, and when it reports success no page is left in the store.\<close>

lemma InvalidateListCache_returns:
  obtains q r' where "InvalidateListCache \<lparr>cache_client = client, cache_ttl = t\<rparr> ctx r = Some (q, r')"
    and "store r' \<subseteq>\<^sub>m store r" and "\<And>m. q \<noteq> Panic m"
    and "\<And>k. q = Ok () \<Longrightarrow> prefix list_prefix k \<Longrightarrow> store r' k = None"
proof -
  obtain res r1 where loop: "scan_loop client ctx 0 [] r = Some (res, r1)"
    and result: "scan_result 0 [] r res r1"
    using scan_loop_ends by blast
  then have shrinks: "store r1 \<subseteq>\<^sub>m store r" by (simp add: scan_result_def)
  show ?thesis
  proof (cases res)
    case (Ok ks)
    have "dom (store r1) \<subseteq> unseen 0 r"
      using Scan_start [of r] map_le_implies_dom_le [OF shrinks] by blast
    with result Ok have all: "k \<in> set ks" if "prefix list_prefix k" "k \<in> dom (store r1)" for k
      using that by (auto simp: scan_result_def)
    show ?thesis
    proof (cases "ks = []")
      case True
      with all loop Ok shrinks show ?thesis
        by (intro that [of "Ok ()" r1]) (auto simp: InvalidateListCache_def)
    next
      case False
      obtain err r2 where del: "r_Del client ctx ks r1 = (err, r2)" by (metis surj_pair)
      note r2 = Del_store [OF del]
      have "store r2 k = None" if "err = None" "prefix list_prefix k" for k
      proof (cases "store r1 k")
        case None
        with map_le_implies_dom_le [OF r2] show ?thesis by (auto simp: dom_def)
      next
        case (Some v)
        then have "k \<in> set ks" using all that by blast
        with Del_gone del that show ?thesis by blast
      qed
      with loop Ok False del map_le_trans [OF r2 shrinks] show ?thesis
        by (intro that [of "case err of None \<Rightarrow> Ok () | Some e \<Rightarrow> Err e" r2])
           (auto simp: InvalidateListCache_def split: option.splits)
    qed
  next
    case (Err e)
    with loop shrinks show ?thesis
      by (intro that [of "Err e" r1]) (auto simp: InvalidateListCache_def)
  next
    case (Panic m)
    with result show ?thesis by (simp add: scan_result_def)
  qed
qed

end

subsection \<open>The contract: two maps that may lose entries\<close>

datatype cache_op =
    GetP string
  | SetP product
  | DelP string
  | GetL int64 int64
  | SetL int64 int64 "product list"
  | InvL

datatype cache_answer =
    Hit product
  | HitList "product list"
  | Miss
  | Stored
  | Failed go_error
  | Panicked

fun got :: "('a \<Rightarrow> cache_answer) \<Rightarrow> 'a option result \<times> 'r \<Rightarrow> (cache_answer \<times> 'r) option" where
  "got f (Ok (Some x), r) = Some (f x, r)"
| "got f (Ok None, r) = Some (Miss, r)"
| "got f (Err e, r) = Some (Failed e, r)"
| "got f (Panic m, r) = Some (Panicked, r)"

fun put :: "go_error option \<times> 'r \<Rightarrow> (cache_answer \<times> 'r) option" where
  "put (None, r) = Some (Stored, r)"
| "put (Some e, r) = Some (Failed e, r)"

fun cache_step :: "'r cache \<Rightarrow> context_err \<Rightarrow> cache_op \<Rightarrow> 'r \<Rightarrow> (cache_answer \<times> 'r) option" where
  "cache_step c ctx (GetP i) r = got Hit (GetProduct_cache c ctx i r)"
| "cache_step c ctx (SetP p) r = put (SetProduct c ctx p r)"
| "cache_step c ctx (DelP i) r = put (DeleteProduct c ctx i r)"
| "cache_step c ctx (GetL l f) r = got HitList (GetProductList c ctx l f r)"
| "cache_step c ctx (SetL l f ps) r = put (SetProductList c ctx l f ps r)"
| "cache_step c ctx InvL r =
     (case InvalidateListCache c ctx r of
        None \<Rightarrow> None
      | Some (Ok u, r) \<Rightarrow> Some (Stored, r)
      | Some (Err e, r) \<Rightarrow> Some (Failed e, r)
      | Some (Panic m, r) \<Rightarrow> Some (Panicked, r))"

fun cache_run ::
  "'r cache \<Rightarrow> (context_err \<times> cache_op) list \<Rightarrow> 'r \<Rightarrow> ((cache_op \<times> cache_answer) list \<times> 'r) option"
where
  "cache_run c [] r = Some ([], r)"
| "cache_run c ((ctx, oper) # ops) r =
     (case cache_step c ctx oper r of
        None \<Rightarrow> None
      | Some (a, r) \<Rightarrow> map_option (\<lambda>(h, r). ((oper, a) # h, r)) (cache_run c ops r))"

text \<open>The cached products and pages of a store, and what an operation may do to them.\<close>

type_synonym cache_maps = "(string \<rightharpoonup> product) \<times> (int64 \<times> int64 \<rightharpoonup> product list)"

definition cached_products :: "(string \<rightharpoonup> string) \<Rightarrow> string \<rightharpoonup> product" where
  "cached_products m i =
     Option.bind (m (productKey i)) (\<lambda>raw. Option.bind (json_unmarshal raw) decode_product)"

definition cached_pages :: "(string \<rightharpoonup> string) \<Rightarrow> int64 \<times> int64 \<rightharpoonup> product list" where
  "cached_pages m lf =
     Option.bind (m (productListKey (fst lf) (snd lf)))
       (\<lambda>raw. Option.bind (json_unmarshal raw) decode_product_list)"

definition shrinks :: "cache_maps \<Rightarrow> cache_maps \<Rightarrow> bool" where
  "shrinks s s' \<longleftrightarrow> fst s' \<subseteq>\<^sub>m fst s \<and> snd s' \<subseteq>\<^sub>m snd s"

fun set_product :: "product \<Rightarrow> cache_maps \<Rightarrow> cache_maps" where
  "set_product p (P, L) = (P(ID p \<mapsto> clean_product p), L)"

fun set_page :: "int64 \<Rightarrow> int64 \<Rightarrow> product list \<Rightarrow> cache_maps \<Rightarrow> cache_maps" where
  "set_page l f ps (P, L) = (P, L((l, f) \<mapsto> map clean_product ps))"

fun cache_spec :: "cache_op \<Rightarrow> cache_answer \<Rightarrow> cache_maps \<Rightarrow> cache_maps \<Rightarrow> bool" where
  "cache_spec (GetP i) (Hit p) s s' \<longleftrightarrow> fst s i = Some p \<and> shrinks s s'"
| "cache_spec (GetP i) Miss s s' \<longleftrightarrow> fst s' i = None \<and> shrinks s s'"
| "cache_spec (GetL l f) (HitList ps) s s' \<longleftrightarrow> snd s (l, f) = Some ps \<and> shrinks s s'"
| "cache_spec (GetL l f) Miss s s' \<longleftrightarrow> snd s' (l, f) = None \<and> shrinks s s'"
| "cache_spec (SetP p) Stored s s' \<longleftrightarrow> shrinks (set_product p s) s'"
| "cache_spec (SetP p) (Failed e) s s' \<longleftrightarrow> shrinks s s' \<or> shrinks (set_product p s) s'"
| "cache_spec (SetL l f ps) Stored s s' \<longleftrightarrow> shrinks (set_page l f ps s) s'"
| "cache_spec (SetL l f ps) (Failed e) s s' \<longleftrightarrow> shrinks s s' \<or> shrinks (set_page l f ps s) s'"
| "cache_spec (DelP i) Stored s s' \<longleftrightarrow> fst s' i = None \<and> shrinks s s'"
| "cache_spec InvL Stored s s' \<longleftrightarrow> snd s' = Map.empty \<and> shrinks s s'"
| "cache_spec oper (Failed e) s s' \<longleftrightarrow> shrinks s s'"
| "cache_spec _ _ s s' \<longleftrightarrow> False"

inductive lossy_run :: "cache_maps \<Rightarrow> (cache_op \<times> cache_answer) list \<Rightarrow> cache_maps \<Rightarrow> bool" where
  lossy_Nil: "lossy_run s [] s"
| lossy_Cons: "cache_spec oper a s s1 \<Longrightarrow> lossy_run s1 h s2 \<Longrightarrow> lossy_run s ((oper, a) # h) s2"

inductive_simps lossy_run_simps [simp]: "lossy_run s [] s'" "lossy_run s ((oper, a) # h) s'"

subsection \<open>The operations implement it\<close>

definition maps_of :: "(string \<rightharpoonup> string) \<Rightarrow> cache_maps" where
  "maps_of m = (cached_products m, cached_pages m)"

lemma bind_le: "m' \<subseteq>\<^sub>m m \<Longrightarrow> Option.bind (m' k) f = Some x \<Longrightarrow> Option.bind (m k) f = Some x"
  by (auto simp: map_le_def bind_eq_Some_conv dom_def)

lemma map_le_SomeI: "(\<And>k v. m' k = Some v \<Longrightarrow> m k = Some v) \<Longrightarrow> m' \<subseteq>\<^sub>m m"
  by (auto simp: map_le_def dom_def)

lemma map_le_SomeD: "m' \<subseteq>\<^sub>m m \<Longrightarrow> m' k = Some v \<Longrightarrow> m k = Some v"
  by (auto simp: map_le_def dom_def)

lemma maps_of_mono: "m' \<subseteq>\<^sub>m m \<Longrightarrow> shrinks (maps_of m) (maps_of m')"
  by (auto simp: shrinks_def maps_of_def cached_products_def cached_pages_def
      intro!: map_le_SomeI elim!: bind_le)

lemma maps_of_set_product:
  "maps_of (m(productKey (ID p) \<mapsto> print_json (product_json p))) = set_product p (maps_of m)"
  by (auto simp: maps_of_def cached_products_def cached_pages_def unmarshal_product)

lemma maps_of_set_page:
  "maps_of (m(productListKey l f \<mapsto> print_json (product_list_json ps))) = set_page l f ps (maps_of m)"
  by (auto simp: maps_of_def cached_products_def cached_pages_def unmarshal_product_list)

lemma shrinks_refl [simp]: "shrinks s s"
  by (simp add: shrinks_def)

lemma maps_of_None:
  "m (productKey i) = None \<Longrightarrow> fst (maps_of m) i = None"
  "m (productListKey l f) = None \<Longrightarrow> snd (maps_of m) (l, f) = None"
  by (simp_all add: maps_of_def cached_products_def cached_pages_def)

context redis_store
begin

abbreviation cache_of :: "int64 \<Rightarrow> 'r cache" where
  "cache_of t \<equiv> \<lparr>cache_client = client, cache_ttl = t\<rparr>"

abbreviation maps :: "'r \<Rightarrow> cache_maps" where
  "maps r \<equiv> maps_of (store r)"

text \<open>A get: a hit is the decoded value under the key, a miss means the key is gone.\<close>

lemma cache_get_result:
  assumes "cache_get (cache_of t) decode ctx k r = (q, r')"
  shows "shrinks (maps r) (maps r')" and "q \<noteq> Panic m"
    and "q = Ok (Some x) \<Longrightarrow>
      Option.bind (store r k) (\<lambda>raw. Option.bind (json_unmarshal raw) decode) = Some x"
    and "q = Ok None \<Longrightarrow> store r' k = None"
proof -
  obtain q1 where q1: "r_Get client ctx k r = (q1, r')"
    using assms by (auto simp: cache_get_def split: prod.splits outcome.splits option.splits)
  show "shrinks (maps r) (maps r')"
    using Get_store [OF q1] by (rule maps_of_mono)
  show "q \<noteq> Panic m"
    using assms Get_returns q1 by (auto simp: cache_get_def split: outcome.splits option.splits if_splits)
  show "Option.bind (store r k) (\<lambda>raw. Option.bind (json_unmarshal raw) decode) = Some x"
    if "q = Ok (Some x)"
  proof (cases q1)
    case (Ok raw)
    with Get_value q1 have "store r k = Some raw" by blast
    with that assms q1 Ok show ?thesis by (auto simp: cache_get_def split: option.splits)
  qed (use that assms q1 in \<open>auto simp: cache_get_def split: if_splits\<close>)
  show "store r' k = None" if "q = Ok None"
  proof (cases q1)
    case (Err e)
    with that assms q1 have "errors_is e RedisNil" by (auto simp: cache_get_def split: if_splits)
    with Get_missing q1 Err show ?thesis by blast
  qed (use that assms q1 in \<open>auto simp: cache_get_def split: option.splits\<close>)
qed

lemma Set_maps:
  assumes "r_Set client ctx k v ttl r = (err, r')"
  shows "shrinks (maps_of ((store r)(k \<mapsto> v))) (maps r') \<or> err \<noteq> None \<and> shrinks (maps r) (maps r')"
  using Set_store [OF assms] maps_of_mono by blast

lemma cache_step_spec:
  "\<exists>a r'. cache_step (cache_of t) ctx oper r = Some (a, r') \<and> cache_spec oper a (maps r) (maps r')"
proof (cases oper)
  case (GetP i)
  obtain q r' where q: "cache_get (cache_of t) decode_product ctx (productKey i) r = (q, r')"
    by (metis surj_pair)
  note get = cache_get_result [OF q]
  from get have "cache_spec oper (case q of Ok (Some p) \<Rightarrow> Hit p | Ok None \<Rightarrow> Miss | Err e \<Rightarrow> Failed e)
    (maps r) (maps r')"
    using GetP by (auto split: outcome.splits option.splits intro: maps_of_None)
      (simp add: maps_of_def cached_products_def)
  with q get(2) GetP show ?thesis
    by (cases q) (auto simp: GetProduct_cache_def split: option.splits)
next
  case (GetL l f)
  obtain q r' where q: "cache_get (cache_of t) decode_product_list ctx (productListKey l f) r = (q, r')"
    by (metis surj_pair)
  note get = cache_get_result [OF q]
  from get have "cache_spec oper (case q of Ok (Some p) \<Rightarrow> HitList p | Ok None \<Rightarrow> Miss | Err e \<Rightarrow> Failed e)
    (maps r) (maps r')"
    using GetL by (auto split: outcome.splits option.splits intro: maps_of_None)
      (simp add: maps_of_def cached_pages_def)
  with q get(2) GetL show ?thesis
    by (cases q) (auto simp: GetProductList_def split: option.splits)
next
  case (SetP p)
  obtain err r' where err: "r_Set client ctx (productKey (ID p)) (print_json (product_json p)) t r = (err, r')"
    by (metis surj_pair)
  from Set_maps [OF err] have "cache_spec oper (case err of None \<Rightarrow> Stored | Some e \<Rightarrow> Failed e) (maps r) (maps r')"
    by (auto simp: SetP maps_of_set_product split: option.splits)
  with err SetP show ?thesis by (cases err) (auto simp: SetProduct_def)
next
  case (SetL l f ps)
  obtain err r' where err: "r_Set client ctx (productListKey l f) (print_json (product_list_json ps)) t r = (err, r')"
    by (metis surj_pair)
  from Set_maps [OF err] have "cache_spec oper (case err of None \<Rightarrow> Stored | Some e \<Rightarrow> Failed e) (maps r) (maps r')"
    by (auto simp: SetL maps_of_set_page split: option.splits)
  with err SetL show ?thesis by (cases err) (auto simp: SetProductList_def)
next
  case (DelP i)
  obtain err r' where err: "r_Del client ctx [productKey i] r = (err, r')" by (metis surj_pair)
  have "shrinks (maps r) (maps r')"
    using Del_store [OF err] by (rule maps_of_mono)
  moreover have "fst (maps r') i = None" if "err = None"
    using Del_gone err that by (intro maps_of_None) simp
  ultimately show ?thesis
    using err DelP by (cases err) (auto simp: DeleteProduct_def)
next
  case InvL
  show ?thesis
  proof (rule InvalidateListCache_returns [of t ctx r])
    fix q r'
    assume inv: "InvalidateListCache (cache_of t) ctx r = Some (q, r')" "store r' \<subseteq>\<^sub>m store r"
      "\<And>m. q \<noteq> Panic m" "\<And>k. q = Ok () \<Longrightarrow> prefix list_prefix k \<Longrightarrow> store r' k = None"
    have "shrinks (maps r) (maps r')"
      using inv(2) by (rule maps_of_mono)
    moreover have "snd (maps r') = Map.empty" if "q = Ok ()"
      using inv(4) [OF that] maps_of_None(2) by (auto simp: fun_eq_iff)
    ultimately show ?thesis
      using inv(1) inv(3) [of "case q of Panic m \<Rightarrow> m"] InvL by (cases q) simp_all
  qed
qed

lemma InvalidateListCache_clears_lemma:
  "\<exists>q r'. InvalidateListCache (cache_of t) ctx r = Some (q, r') \<and> (\<forall>m. q \<noteq> Panic m) \<and>
     (q = Ok () \<longrightarrow> (\<forall>ctx' l f ps. fst (GetProductList (cache_of t) ctx' l f r') \<noteq> Ok (Some ps)))"
proof (rule InvalidateListCache_returns [of t ctx r])
  fix q r'
  assume inv: "InvalidateListCache (cache_of t) ctx r = Some (q, r')" "\<And>m. q \<noteq> Panic m"
    and gone: "\<And>k. q = Ok () \<Longrightarrow> prefix list_prefix k \<Longrightarrow> store r' k = None"
  have "fst (GetProductList (cache_of t) ctx' l f r') \<noteq> Ok (Some ps)" if "q = Ok ()" for ctx' l f ps
  proof
    obtain q1 r1 where get: "cache_get (cache_of t) decode_product_list ctx' (productListKey l f) r' = (q1, r1)"
      by (metis surj_pair)
    assume "fst (GetProductList (cache_of t) ctx' l f r') = Ok (Some ps)"
    with get have "q1 = Ok (Some ps)" by (simp add: GetProductList_def)
    from cache_get_result(3) [OF get this] gone [OF that] show False by simp
  qed
  with inv show ?thesis by blast
qed

lemma cache_run_spec:
  "\<exists>h r'. cache_run (cache_of t) ops r = Some (h, r') \<and> lossy_run (maps r) h (maps r') \<and>
     map fst h = map snd ops"
proof (induction ops arbitrary: r)
  case (Cons co ops)
  obtain ctx oper where co: "co = (ctx, oper)" by (metis surj_pair)
  obtain a r1 where one: "cache_step (cache_of t) ctx oper r = Some (a, r1)"
    "cache_spec oper a (maps r) (maps r1)"
    using cache_step_spec by blast
  obtain h r' where rest: "cache_run (cache_of t) ops r1 = Some (h, r')"
    "lossy_run (maps r1) h (maps r')" "map fst h = map snd ops"
    using Cons.IH by blast
  have "lossy_run (maps r) ((oper, a) # h) (maps r')"
    using one(2) rest(2) by (rule lossy_Cons)
  with one(1) rest co show ?case
    by (simp del: lossy_run_simps)
qed simp

end

subsection \<open>A reference client\<close>

text \<open>
  One client with these laws: a table of keys in the order of their first insertion, where a key
  that expired or was deleted stays as \<open>None\<close>, and a script that says of each call whether it
  works, fails before or after its effect, or works after some key has expired. The cursor is a
  position in the table.
\<close>

datatype redis_fault = Works | Breaks | BreaksAfter | Expires string

record ref_redis =
  rr_table :: "(string \<times> string option) list"
  rr_script :: "redis_fault list"

definition rr_store :: "ref_redis \<Rightarrow> string \<rightharpoonup> string" where
  "rr_store r k = (case map_of (rr_table r) k of Some (Some v) \<Rightarrow> Some v | _ \<Rightarrow> None)"

definition rr_drop :: "string list \<Rightarrow> ref_redis \<Rightarrow> ref_redis" where
  "rr_drop ks r =
     r\<lparr>rr_table := map (\<lambda>(k, v). (k, if k \<in> set ks then None else v)) (rr_table r)\<rparr>"

definition rr_next :: "ref_redis \<Rightarrow> redis_fault \<times> ref_redis" where
  "rr_next r =
     (case rr_script r of
        [] \<Rightarrow> (Works, r)
      | Expires k # fs \<Rightarrow> (Works, rr_drop [k] (r\<lparr>rr_script := fs\<rparr>))
      | f # fs \<Rightarrow> (f, r\<lparr>rr_script := fs\<rparr>))"

definition glob_match :: "string \<Rightarrow> string \<Rightarrow> bool" where
  "glob_match pat k =
     (if pat \<noteq> [] \<and> last pat = CHR ''*'' then prefix (butlast pat) k else k = pat)"

definition rr_width :: "int64 \<Rightarrow> nat" where
  "rr_width n = max 1 (nat (sint n))"

definition rr_scan ::
  "64 word \<Rightarrow> string \<Rightarrow> int64 \<Rightarrow> ref_redis \<Rightarrow> string list \<times> 64 word"
where
  "rr_scan cur pat n r =
     (let i = unat cur; j = i + rr_width n; final = (length (rr_table r) \<le> j \<or> 2 ^ 64 \<le> j);
          rest = map fst (drop i (rr_table r));
          ks = (if final then rest else take (rr_width n) rest)
      in (filter (\<lambda>k. rr_store r k \<noteq> None \<and> glob_match pat k) ks, if final then 0 else of_nat j))"

abbreviation redis_down :: go_error where
  "redis_down \<equiv> Plain ''dial tcp: connection refused''"

definition ref_redis_client :: "ref_redis redis_client" where
  "ref_redis_client =
     \<lparr>r_Get = (\<lambda>ctx k r.
        case rr_next r of
          (Works, r) \<Rightarrow> (case rr_store r k of None \<Rightarrow> Err RedisNil | Some v \<Rightarrow> Ok v, r)
        | (_, r) \<Rightarrow> (Err redis_down, r)),
      r_Set = (\<lambda>ctx k v ttl r.
        case rr_next r of
          (Breaks, r) \<Rightarrow> (Some redis_down, r)
        | (f, r) \<Rightarrow>
            (if f = Works then None else Some redis_down,
             r\<lparr>rr_table := AList.update k (Some v) (rr_table r)\<rparr>)),
      r_Del = (\<lambda>ctx ks r.
        case rr_next r of
          (Breaks, r) \<Rightarrow> (Some redis_down, r)
        | (f, r) \<Rightarrow> (if f = Works then None else Some redis_down, rr_drop ks r)),
      r_Scan = (\<lambda>ctx cur pat n r.
        case rr_next r of
          (Works, r) \<Rightarrow> (Ok (rr_scan cur pat n r), r)
        | (_, r) \<Rightarrow> (Err redis_down, r))\<rparr>"

definition rr_unseen :: "64 word \<Rightarrow> ref_redis \<Rightarrow> string set" where
  "rr_unseen cur r = set (map fst (drop (unat cur) (rr_table r)))"

definition rr_left :: "64 word \<Rightarrow> ref_redis \<Rightarrow> nat" where
  "rr_left cur r = length (rr_table r) - unat cur"

lemma map_of_map_value: "map_of (map (\<lambda>(k, v). (k, f k v)) xs) k = map_option (f k) (map_of xs k)"
  by (induction xs) auto

lemma rr_store_drop: "rr_store (rr_drop ks r) k = (if k \<in> set ks then None else rr_store r k)"
  by (simp add: rr_store_def rr_drop_def map_of_map_value split: option.splits)

lemma rr_drop_keys [simp]: "map fst (rr_table (rr_drop ks r)) = map fst (rr_table r)"
  by (simp add: rr_drop_def comp_def case_prod_unfold)

lemma rr_drop_length [simp]: "length (rr_table (rr_drop ks r)) = length (rr_table r)"
  by (simp add: rr_drop_def)

lemma rr_store_script [simp]: "rr_store (r\<lparr>rr_script := fs\<rparr>) = rr_store r"
  by (simp add: rr_store_def fun_eq_iff)

lemma rr_store_update:
  "rr_store (r\<lparr>rr_table := AList.update k (Some v) (rr_table r)\<rparr>) = (rr_store r)(k \<mapsto> v)"
  by (auto simp: rr_store_def fun_eq_iff update_conv')

lemma rr_nextD:
  assumes "rr_next r = (f, r')"
  shows "rr_store r' \<subseteq>\<^sub>m rr_store r" and "map fst (rr_table r') = map fst (rr_table r)"
    and "length (rr_table r') = length (rr_table r)"
  using assms
  by (auto simp: rr_next_def rr_store_drop intro!: map_le_SomeI
      split: list.splits redis_fault.splits if_splits)

lemma rr_store_dom: "dom (rr_store r) \<subseteq> fst ` set (rr_table r)"
  by (force simp: rr_store_def split: option.splits dest: map_of_SomeD)

lemma rr_width_pos: "0 < rr_width n"
  by (auto simp: rr_width_def max_def)

lemma unat_add_of_nat:
  "unat (c :: 64 word) + w < 2 ^ 64 \<Longrightarrow> unat (c + word_of_nat w) = unat c + w"
  by (simp add: unat_word_ariths unat_of_nat)

lemma rr_scan_result:
  assumes "rr_scan cur pat n r = (keys, cur')"
  shows "cur' = 0 \<and> keys = filter (\<lambda>k. rr_store r k \<noteq> None \<and> glob_match pat k)
        (map fst (drop (unat cur) (rr_table r))) \<or>
     cur' \<noteq> 0 \<and> unat cur' = unat cur + rr_width n \<and> unat cur' < length (rr_table r) \<and>
     keys = filter (\<lambda>k. rr_store r k \<noteq> None \<and> glob_match pat k)
        (take (rr_width n) (map fst (drop (unat cur) (rr_table r))))"
proof (cases "length (rr_table r) \<le> unat cur + rr_width n \<or> 2 ^ 64 \<le> unat cur + rr_width n")
  case True
  then show ?thesis using assms by (auto simp: rr_scan_def Let_def)
next
  case False
  then have "unat (cur + word_of_nat (rr_width n)) = unat cur + rr_width n"
    by (intro unat_add_of_nat) simp
  moreover from this rr_width_pos [of n] have "cur + word_of_nat (rr_width n) \<noteq> 0"
    by (metis add_gr_0 less_not_refl unat_0)
  ultimately show ?thesis using assms False by (simp add: rr_scan_def Let_def)
qed

lemma rr_scan_keys:
  assumes "rr_scan cur (list_prefix @ ''*'') n r = (keys, cur')"
    and "k \<in> rr_unseen cur r" and "k \<in> dom (rr_store r)" and "prefix list_prefix k"
  shows "k \<in> set keys \<or> cur' \<noteq> 0 \<and> k \<in> rr_unseen cur' r"
proof -
  let ?rest = "map fst (drop (unat cur) (rr_table r))" and ?w = "rr_width n"
  have live: "rr_store r k \<noteq> None \<and> glob_match (list_prefix @ ''*'') k"
    using assms(3,4) by (auto simp: glob_match_def)
  have k: "k \<in> set ?rest"
    using assms(2) by (simp add: rr_unseen_def)
  show ?thesis
  proof (cases "cur' = 0")
    case True
    with rr_scan_result [OF assms(1)] live k show ?thesis
      by (simp del: set_map)
  next
    case False
    with rr_scan_result [OF assms(1)] have cur': "unat cur' = unat cur + ?w"
      and keys: "keys = filter (\<lambda>k. rr_store r k \<noteq> None \<and> glob_match (list_prefix @ ''*'') k) (take ?w ?rest)"
      by blast+
    have "?rest = take ?w ?rest @ drop ?w ?rest" by simp
    with k have "k \<in> set (take ?w ?rest) \<or> k \<in> set (drop ?w ?rest)"
      by (metis Un_iff set_append)
    moreover have "drop ?w ?rest = map fst (drop (unat cur') (rr_table r))"
      by (simp add: cur' drop_map add.commute)
    ultimately show ?thesis
      using False live keys by (simp add: rr_unseen_def del: set_map)
  qed
qed

lemma rr_scan_ends:
  assumes "rr_scan cur pat n r = (keys, cur')" and "cur' \<noteq> 0"
  shows "rr_left cur' r < rr_left cur r"
  using rr_scan_result [OF assms(1)] rr_width_pos [of n] assms(2) by (auto simp: rr_left_def)

lemma rr_unseen_cong:
  assumes "rr_next r = (f, r')"
  shows "rr_unseen cur r' = rr_unseen cur r" and "rr_left cur r' = rr_left cur r"
  using rr_nextD [OF assms] by (simp_all add: rr_unseen_def rr_left_def drop_map [symmetric])

interpretation rr: redis_store ref_redis_client rr_store rr_unseen rr_left
proof (unfold_locales, goal_cases)
  case (1 ctx k r q r')
  then show ?case
    by (auto simp: ref_redis_client_def split: prod.splits redis_fault.splits option.splits dest: rr_nextD)
next
  case (2 ctx k r v r')
  then show ?case
    by (auto simp: ref_redis_client_def split: prod.splits redis_fault.splits option.splits
        dest!: rr_nextD(1) intro: map_le_SomeD)
next
  case (3 ctx k r e r')
  then show ?case
    by (auto simp: ref_redis_client_def split: prod.splits redis_fault.splits option.splits)
next
  case (4 ctx k r m r')
  then show ?case
    by (auto simp: ref_redis_client_def split: prod.splits redis_fault.splits option.splits)
next
  case (5 ctx k v ttl r err r')
  obtain f r1 where f: "rr_next r = (f, r1)" by (metis surj_pair)
  have "(rr_store r1)(k \<mapsto> v) \<subseteq>\<^sub>m (rr_store r)(k \<mapsto> v)"
    using rr_nextD(1) [OF f] by (rule map_le_upd)
  with 5 f rr_nextD(1) [OF f] show ?case
    by (auto simp: ref_redis_client_def rr_store_update split: redis_fault.splits)
next
  case (6 ctx ks r err r')
  obtain f r1 where f: "rr_next r = (f, r1)" by (metis surj_pair)
  have "rr_store (rr_drop ks r1) \<subseteq>\<^sub>m rr_store r1"
    by (rule map_le_SomeI) (simp add: rr_store_drop split: if_splits)
  with 6 f map_le_trans [OF _ rr_nextD(1) [OF f]] show ?case
    by (auto simp: ref_redis_client_def split: redis_fault.splits)
next
  case (7 ctx ks r r' k)
  then show ?case
    by (auto simp: ref_redis_client_def rr_store_drop split: prod.splits redis_fault.splits if_splits)
next
  case (8 ctx cur pat n r x r')
  then show ?case
    by (auto simp: ref_redis_client_def split: prod.splits redis_fault.splits dest: rr_nextD)
next
  case (9 ctx cur pat n r m r')
  then show ?case
    by (auto simp: ref_redis_client_def split: prod.splits redis_fault.splits)
next
  case (10 r)
  then show ?case using rr_store_dom by (simp add: rr_unseen_def)
next
  case (11 ctx cur n r keys cur' r' k)
  obtain f r1 where f: "rr_next r = (f, r1)" by (metis surj_pair)
  with 11(1) have "rr_scan cur (list_prefix @ ''*'') n r1 = (keys, cur')" "r' = r1"
    by (auto simp: ref_redis_client_def split: redis_fault.splits)
  with rr_scan_keys [of cur n r1 keys cur' k] 11 rr_unseen_cong(1) [OF f] show ?case
    by simp
next
  case (12 ctx cur n r keys cur' r')
  obtain f r1 where f: "rr_next r = (f, r1)" by (metis surj_pair)
  with 12(1) have "rr_scan cur (list_prefix @ ''*'') n r1 = (keys, cur')" "r' = r1"
    by (auto simp: ref_redis_client_def split: redis_fault.splits)
  with rr_scan_ends 12(2) rr_unseen_cong(2) [OF f] show ?case
    by metis
qed

subsection \<open>What a hit can be\<close>

text \<open>
  The products a hit on an id can return after a history: the last one stored under it, those
  whose storing failed since (the server may have taken them), and none after a deletion.
\<close>

fun recent_step :: "string \<Rightarrow> product list \<Rightarrow> cache_op \<times> cache_answer \<Rightarrow> product list" where
  "recent_step i ps (SetP q, Stored) = (if ID q = i then [clean_product q] else ps)"
| "recent_step i ps (SetP q, Failed e) = (if ID q = i then clean_product q # ps else ps)"
| "recent_step i ps (DelP j, Stored) = (if j = i then [] else ps)"
| "recent_step i ps _ = ps"

fun recent_page_step ::
  "int64 \<Rightarrow> int64 \<Rightarrow> product list list \<Rightarrow> cache_op \<times> cache_answer \<Rightarrow> product list list"
where
  "recent_page_step l f pss (SetL l' f' ps, Stored) =
     (if l' = l \<and> f' = f then [map clean_product ps] else pss)"
| "recent_page_step l f pss (SetL l' f' ps, Failed e) =
     (if l' = l \<and> f' = f then map clean_product ps # pss else pss)"
| "recent_page_step l f pss (InvL, Stored) = []"
| "recent_page_step l f pss _ = pss"

definition recent :: "string \<Rightarrow> (cache_op \<times> cache_answer) list \<Rightarrow> product list" where
  "recent i h = foldl (recent_step i) [] h"

definition recent_pages ::
  "int64 \<Rightarrow> int64 \<Rightarrow> (cache_op \<times> cache_answer) list \<Rightarrow> product list list"
where
  "recent_pages l f h = foldl (recent_page_step l f) [] h"

lemma set_maps_sel [simp]:
  "fst (set_product p s) = (fst s)(ID p \<mapsto> clean_product p)" "snd (set_product p s) = snd s"
  "fst (set_page l f ps s) = fst s" "snd (set_page l f ps s) = (snd s)((l, f) \<mapsto> map clean_product ps)"
  by (cases s; simp)+

lemma shrinks_set:
  "shrinks s s' \<Longrightarrow> set_option (fst s' i) \<subseteq> set_option (fst s i)"
  "shrinks s s' \<Longrightarrow> set_option (snd s' lf) \<subseteq> set_option (snd s lf)"
  by (auto simp: shrinks_def elem_set dest: map_le_SomeD)

lemma cache_spec_recent:
  "cache_spec oper a s s' \<Longrightarrow> set_option (fst s i) \<subseteq> set ps \<Longrightarrow>
     set_option (fst s' i) \<subseteq> set (recent_step i ps (oper, a))"
  by (cases "(oper, a, s, s')" rule: cache_spec.cases)
     (auto dest!: shrinks_set(1) [where i = i] split: if_splits)

lemma cache_spec_recent_page:
  "cache_spec oper a s s' \<Longrightarrow> set_option (snd s (l, f)) \<subseteq> set pss \<Longrightarrow>
     set_option (snd s' (l, f)) \<subseteq> set (recent_page_step l f pss (oper, a))"
  by (cases "(oper, a, s, s')" rule: cache_spec.cases)
     (auto dest!: shrinks_set(2) [where lf = "(l, f)"] split: if_splits)

lemma lossy_run_recent:
  "lossy_run s h s' \<Longrightarrow> set_option (fst s i) \<subseteq> set ps \<Longrightarrow>
     set_option (fst s' i) \<subseteq> set (foldl (recent_step i) ps h)"
  by (induction arbitrary: ps rule: lossy_run.induct) (simp_all add: cache_spec_recent)

lemma lossy_run_recent_page:
  "lossy_run s h s' \<Longrightarrow> set_option (snd s (l, f)) \<subseteq> set pss \<Longrightarrow>
     set_option (snd s' (l, f)) \<subseteq> set (foldl (recent_page_step l f) pss h)"
  by (induction arbitrary: pss rule: lossy_run.induct) (simp_all add: cache_spec_recent_page)

lemma lossy_run_append:
  "lossy_run s (h1 @ h2) s' \<longleftrightarrow> (\<exists>s1. lossy_run s h1 s1 \<and> lossy_run s1 h2 s')"
proof (induction h1 arbitrary: s)
  case (Cons x h1)
  obtain oper a where "x = (oper, a)" by (metis surj_pair)
  with Cons show ?case by (auto simp del: split_paired_Ex)
qed simp

lemma NewCache_Ok: "NewCache lg (Some client) t = Ok c \<Longrightarrow> c = \<lparr>cache_client = client, cache_ttl = t\<rparr>"
  by (simp add: NewCache_def split: if_splits)

lemma cache_refines_map_lemma:
  assumes "redis_store client store unseen left" and "NewCache lg (Some client) t = Ok c"
  shows "\<exists>h r'. cache_run c ops r = Some (h, r') \<and> map fst h = map snd ops \<and>
    lossy_run (maps_of (store r)) h (maps_of (store r'))"
  using redis_store.cache_run_spec [OF assms(1), of t ops r] NewCache_Ok [OF assms(2)] by auto

text \<open>
  C12: the cache refines a pair of maps that may lose entries. Over any client with the laws of
  \<open>redis_store\<close> (expiry at any time, calls that fail before or after their effect), every history
  of operations on a cache made by \<open>NewCache\<close> comes to an end, its answers are those of the two
  maps, and the store at the end decodes to the maps at the end.
\<close>

theorem cache_refines_map:
  assumes "redis_store client store unseen left" and "NewCache lg (Some client) t = Ok c"
  shows "\<exists>h r'. cache_run c ops r = Some (h, r') \<and> map fst h = map snd ops \<and>
    lossy_run (maps_of (store r)) h (maps_of (store r'))"
  by (rule cache_refines_map_lemma [OF assms])

text \<open>
  A hit is never older than the history allows. From an empty store, a hit returns the
  product last stored under the id (or one whose storing failed since then), and nothing once
  the product was deleted from the cache; a page hit returns the page last stored for the same
  limit and offset, and nothing once the pages were invalidated.
\<close>

theorem cache_hits_are_recent:
  assumes "redis_store client store unseen left" and "NewCache lg (Some client) t = Ok c"
    and "store r = Map.empty" and "cache_run c ops r = Some (h1 @ (oper, a) # h2, r')"
  shows "(\<forall>i p. oper = GetP i \<and> a = Hit p \<longrightarrow> p \<in> set (recent i h1)) \<and>
    (\<forall>l f ps. oper = GetL l f \<and> a = HitList ps \<longrightarrow> ps \<in> set (recent_pages l f h1))"
proof -
  have "lossy_run (maps_of (store r)) (h1 @ (oper, a) # h2) (maps_of (store r'))"
    using cache_refines_map_lemma [OF assms(1,2), of ops r] assms(4) by auto
  then obtain s1 s2 where run: "lossy_run (maps_of (store r)) h1 s1" and spec: "cache_spec oper a s1 s2"
    by (auto simp: lossy_run_append)
  have "fst (maps_of (store r)) i = None" "snd (maps_of (store r)) lf = None" for i lf
    by (simp_all add: maps_of_def assms(3) cached_products_def cached_pages_def)
  with lossy_run_recent [OF run, of _ "[]"] lossy_run_recent_page [OF run, of _ _ "[]"] spec
  show ?thesis
    by (fastforce simp: recent_def recent_pages_def)
qed

text \<open>
  C13: the invalidation of the pages terminates. The \<open>SCAN\<close> loop has no bound of its own, but
  over a client with the laws of \<open>redis_store\<close> it ends from every state, without a panic, and
  after a call that returned nil no page can be read from the cache.
\<close>

theorem InvalidateListCache_clears:
  assumes "redis_store client store unseen left" and "NewCache lg (Some client) t = Ok c"
  shows "\<exists>q r'. InvalidateListCache c ctx r = Some (q, r') \<and> (\<forall>m. q \<noteq> Panic m) \<and>
    (q = Ok () \<longrightarrow> (\<forall>ctx' l f ps. fst (GetProductList c ctx' l f r') \<noteq> Ok (Some ps)))"
  using redis_store.InvalidateListCache_clears_lemma [OF assms(1), of t ctx r] NewCache_Ok [OF assms(2)]
  by simp

subsection \<open>Concrete runs\<close>

definition pen :: product where
  "pen = \<lparr>ID = ''prod-7'', SKU = ''PEN-1'', Name = ''Pen'', Description = ''A <b>pen</b>'',
          PriceCents = 150, Currency = ''EUR'', Stock = 12, Active = True\<rparr>"

abbreviation ref_cache :: "ref_redis cache" where
  "ref_cache \<equiv> \<lparr>cache_client = ref_redis_client, cache_ttl = 300000000000\<rparr>"

lemma NewCache_ref: "NewCache True (Some ref_redis_client) 300000000000 = Ok ref_cache"
  by (simp add: NewCache_def word_sle_eq)

lemma utf8_pen: "utf8_product pen"
  by (simp add: utf8_product_def pen_def valid_utf8_ascii byte_def)

definition empty_redis :: "redis_fault list \<Rightarrow> ref_redis" where
  "empty_redis fs = \<lparr>rr_table = [], rr_script = fs\<rparr>"

lemma rr_store_empty [simp]: "rr_store (empty_redis fs) = Map.empty"
  by (simp add: empty_redis_def rr_store_def fun_eq_iff)

text \<open>Two pages are stored, one expires; the invalidation scans and deletes the other.\<close>

definition two_pages :: "ref_redis" where
  "two_pages =
     \<lparr>rr_table = [(productListKey 20 0, Some (print_json (product_list_json [pen]))),
                  (productKey ''prod-7'', Some (print_json (product_json pen))),
                  (productListKey 20 20, Some (print_json (product_list_json [])))],
      rr_script = [Expires (productListKey 20 0)]\<rparr>"

lemma two_pages_invalidated:
  "\<exists>r'. InvalidateListCache ref_cache None two_pages = Some (Ok (), r') \<and>
     rr_store r' (productKey ''prod-7'') = Some (print_json (product_json pen))"
  by (simp add: InvalidateListCache_def scan_loop.simps ref_redis_client_def two_pages_def rr_next_def
      rr_drop_def rr_scan_def rr_width_def rr_store_def glob_match_def Let_def)

theorem InvalidateListCache_clears_witness:
  "\<exists>r'. InvalidateListCache ref_cache None two_pages = Some (Ok (), r') \<and>
     rr_store r' (productKey ''prod-7'') = Some (print_json (product_json pen)) \<and>
     (\<forall>ctx' l f ps. fst (GetProductList ref_cache ctx' l f r') \<noteq> Ok (Some ps))"
  using InvalidateListCache_clears [OF rr.redis_store_axioms NewCache_ref, of None two_pages]
    two_pages_invalidated
  by auto

text \<open>A product is stored and read; a storing that breaks, and an expiry, follow.\<close>

definition cache_ops :: "(context_err \<times> cache_op) list" where
  "cache_ops =
     [(None, SetP pen), (None, GetP ''prod-7''), (None, SetL 20 0 [pen]), (None, GetP ''prod-7'')]"

abbreviation cache_script :: "redis_fault list" where
  "cache_script \<equiv> [Works, Works, Breaks, Expires (productKey ''prod-7'')]"

lemma cache_ops_run:
  "\<exists>r'. cache_run ref_cache cache_ops (empty_redis cache_script) =
     Some ([(SetP pen, Stored)] @ (GetP ''prod-7'', Hit pen) #
           [(SetL 20 0 [pen], Failed redis_down), (GetP ''prod-7'', Miss)], r')"
proof -
  have "ID pen = ''prod-7''" by (simp add: pen_def)
  moreover have "clean_product pen = pen" by (rule clean_product_id [OF utf8_pen])
  ultimately show ?thesis
    by (simp add: cache_ops_def GetProduct_cache_def SetProduct_def SetProductList_def cache_get_def
        ref_redis_client_def empty_redis_def rr_next_def rr_drop_def rr_store_def unmarshal_product)
qed

theorem cache_refines_map_witness:
  "\<exists>h r'. cache_run ref_cache cache_ops (empty_redis cache_script) = Some (h, r') \<and>
     map fst h = map snd cache_ops \<and>
     lossy_run (maps_of (rr_store (empty_redis cache_script))) h (maps_of (rr_store r'))"
  by (rule cache_refines_map [OF rr.redis_store_axioms NewCache_ref])

theorem cache_hits_are_recent_witness:
  "\<exists>h r'. cache_run ref_cache cache_ops (empty_redis cache_script) =
       Some ([(SetP pen, Stored)] @ (GetP ''prod-7'', Hit pen) # h, r') \<and>
     pen \<in> set (recent ''prod-7'' [(SetP pen, Stored)])"
proof -
  obtain r' where run: "cache_run ref_cache cache_ops (empty_redis cache_script) =
     Some ([(SetP pen, Stored)] @ (GetP ''prod-7'', Hit pen) #
           [(SetL 20 0 [pen], Failed redis_down), (GetP ''prod-7'', Miss)], r')"
    using cache_ops_run by blast
  from cache_hits_are_recent [OF rr.redis_store_axioms NewCache_ref rr_store_empty this]
  have "pen \<in> set (recent ''prod-7'' [(SetP pen, Stored)])" by simp
  with run show ?thesis by (intro exI conjI)
qed

end
