(* ===== verification/Cached.thy ===== *)
theory Cached
  imports Redis_Cache
begin

section \<open>The caching repository\<close>

text \<open>
  \<open>internal/repository/cached/product_repository.go\<close>: a repository that reads through the Redis
  cache and invalidates it after each write of the next repository. Its state is the pair of the
  next repository's state and the client's. Logging and spans are left out; the metric calls are
  kept, the deferred duration of the cache read last.
\<close>

record ('s, 'r) cached =
  cd_cache :: "'r cache"
  cd_next :: "'s product_repository"

definition cached_NewProductRepository ::
  "bool \<Rightarrow> 'r cache option \<Rightarrow> 's product_repository option \<Rightarrow> ('s, 'r) cached result"
where
  "cached_NewProductRepository has_logger cache nxt =
     (case nxt of
        None \<Rightarrow> Err (Plain ''next repository is empty'')
      | Some n \<Rightarrow>
          (case cache of
             None \<Rightarrow> Err (Plain ''cache is empty'')
           | Some c \<Rightarrow> Ok \<lparr>cd_cache = c, cd_next = n\<rparr>))"

definition cache_total :: "string \<Rightarrow> string \<Rightarrow> metric_event" where
  "cache_total method res = Inc CacheRequestsTotal [method, res]"

definition cache_duration :: "string \<Rightarrow> string \<Rightarrow> metric_event" where
  "cache_duration method operation = Observe CacheRequestDuration [method, operation]"

text \<open>The deferred call.\<close>

definition with_cache_duration ::
  "string \<Rightarrow> 'a result \<times> metric_event list \<times> 's \<Rightarrow> 'a result \<times> metric_event list \<times> 's"
where
  "with_cache_duration method res =
     (case res of (q, ms, s) \<Rightarrow> (q, ms @ [cache_duration method ''get''], s))"

subsection \<open>Reading\<close>

text \<open>
  \<open>GetByID\<close> in two parts: the answer of the cache or of the next repository, and the filling of
  the cache after a miss. Between the two another request may run. What \<open>get_or_fetch\<close> returns
  says whether the second part follows.
\<close>

definition get_or_fetch ::
  "('s, 'r) cached \<Rightarrow> context_err \<Rightarrow> string \<Rightarrow> 's \<times> 'r \<Rightarrow>
     (product \<times> bool) result \<times> metric_event list \<times> 's \<times> 'r"
where
  "get_or_fetch c ctx i sr =
     (case sr of
        (s, r) \<Rightarrow>
          (case GetProduct_cache (cd_cache c) ctx i r of
             (Err e, r) \<Rightarrow> (Err e, [cache_total ''GetProduct'' ''error''], (s, r))
           | (Panic m, r) \<Rightarrow> (Panic m, [], (s, r))
           | (Ok (Some p), r) \<Rightarrow> (Ok (p, True), [cache_total ''GetProduct'' ''hit''], (s, r))
           | (Ok None, r) \<Rightarrow>
               (case repo_GetByID (cd_next c) ctx i s of
                  (Err e, ms, s) \<Rightarrow>
                    (Err e, cache_total ''GetProduct'' ''miss'' # ms @
                       [cache_total ''GetProduct'' ''error''], (s, r))
                | (Panic m, ms, s) \<Rightarrow> (Panic m, cache_total ''GetProduct'' ''miss'' # ms, (s, r))
                | (Ok p, ms, s) \<Rightarrow>
                    (Ok (p, False), cache_total ''GetProduct'' ''miss'' # ms, (s, r)))))"

definition fill :: "('s, 'r) cached \<Rightarrow> context_err \<Rightarrow> product \<Rightarrow> 's \<times> 'r \<Rightarrow> metric_event list \<times> 's \<times> 'r"
where
  "fill c ctx p sr =
     (case SetProduct (cd_cache c) ctx p (snd sr) of
        (Some e, r) \<Rightarrow> ([cache_total ''GetProduct'' ''set_error''], (fst sr, r))
      | (None, r) \<Rightarrow> ([cache_duration ''GetProduct'' ''set''], (fst sr, r)))"

definition cached_GetByID ::
  "('s, 'r) cached \<Rightarrow> context_err \<Rightarrow> string \<Rightarrow> ('s \<times> 'r, product) act"
where
  "cached_GetByID c ctx i sr = with_cache_duration ''GetProduct''
     (case get_or_fetch c ctx i sr of
        (Err e, ms, sr) \<Rightarrow> (Err e, ms, sr)
      | (Panic m, ms, sr) \<Rightarrow> (Panic m, ms, sr)
      | (Ok (p, hit), ms, sr) \<Rightarrow>
          if hit then (Ok p, ms, sr)
          else (case fill c ctx p sr of (ms', sr) \<Rightarrow> (Ok p, ms @ ms', sr)))"

text \<open>
  \<open>List\<close>: the error of the next repository is counted under the method \<open>List\<close>, a failing set
  under \<open>GetProductList\<close>, everything else under \<open>ListProducts\<close>.
\<close>

definition cached_List ::
  "('s, 'r) cached \<Rightarrow> context_err \<Rightarrow> int64 \<Rightarrow> int64 \<Rightarrow> ('s \<times> 'r, product list) act"
where
  "cached_List c ctx limit offset sr = with_cache_duration ''ListProducts''
     (case sr of
        (s, r) \<Rightarrow>
          (case GetProductList (cd_cache c) ctx limit offset r of
             (Err e, r) \<Rightarrow> (Err e, [cache_total ''ListProducts'' ''error''], (s, r))
           | (Panic m, r) \<Rightarrow> (Panic m, [], (s, r))
           | (Ok (Some ps), r) \<Rightarrow> (Ok ps, [cache_total ''ListProducts'' ''hit''], (s, r))
           | (Ok None, r) \<Rightarrow>
               (case repo_List (cd_next c) ctx limit offset s of
                  (Err e, ms, s) \<Rightarrow>
                    (Err e, cache_total ''ListProducts'' ''miss'' # ms @ [cache_total ''List'' ''error''],
                     (s, r))
                | (Panic m, ms, s) \<Rightarrow> (Panic m, cache_total ''ListProducts'' ''miss'' # ms, (s, r))
                | (Ok ps, ms, s) \<Rightarrow>
                    (case SetProductList (cd_cache c) ctx limit offset ps r of
                       (Some e, r) \<Rightarrow>
                         (Ok ps, cache_total ''ListProducts'' ''miss'' # ms @
                            [cache_total ''GetProductList'' ''set_error''], (s, r))
                     | (None, r) \<Rightarrow>
                         (Ok ps, cache_total ''ListProducts'' ''miss'' # ms @
                            [cache_duration ''ListProducts'' ''set''], (s, r))))))"

subsection \<open>Writing\<close>

text \<open>
  An invalidation that fails is logged and forgotten. One that does not return would hang the
  request; the methods are total functions, so this stands as a panic with a text of its own.
\<close>

definition invalidateListCache :: "('s, 'r) cached \<Rightarrow> context_err \<Rightarrow> 'r \<Rightarrow> string option \<times> 'r" where
  "invalidateListCache c ctx r =
     (case InvalidateListCache (cd_cache c) ctx r of
        None \<Rightarrow> (Some ''does not return'', r)
      | Some (Panic m, r) \<Rightarrow> (Some m, r)
      | Some (_, r) \<Rightarrow> (None, r))"

definition and_invalidate ::
  "('s, 'r) cached \<Rightarrow> context_err \<Rightarrow> (product \<Rightarrow> string option) \<Rightarrow> 'r \<Rightarrow>
     product result \<times> metric_event list \<times> 's \<Rightarrow> product result \<times> metric_event list \<times> 's \<times> 'r"
where
  "and_invalidate c ctx key r res =
     (case res of
        (Err e, ms, s) \<Rightarrow> (Err e, ms, (s, r))
      | (Panic m, ms, s) \<Rightarrow> (Panic m, ms, (s, r))
      | (Ok p, ms, s) \<Rightarrow>
          (let r = (case key p of None \<Rightarrow> r | Some i \<Rightarrow> snd (DeleteProduct (cd_cache c) ctx i r))
           in case invalidateListCache c ctx r of
                (Some m, r) \<Rightarrow> (Panic m, ms, (s, r))
              | (None, r) \<Rightarrow> (Ok p, ms, (s, r))))"

definition cached_Create ::
  "('s, 'r) cached \<Rightarrow> context_err \<Rightarrow> create_cmd \<Rightarrow> ('s \<times> 'r, product) act"
where
  "cached_Create c ctx cmd sr =
     and_invalidate c ctx (\<lambda>p. None) (snd sr) (repo_Create (cd_next c) ctx cmd (fst sr))"

definition cached_Update ::
  "('s, 'r) cached \<Rightarrow> context_err \<Rightarrow> update_cmd \<Rightarrow> ('s \<times> 'r, product) act"
where
  "cached_Update c ctx cmd sr =
     and_invalidate c ctx (\<lambda>p. Some (ID p)) (snd sr) (repo_Update (cd_next c) ctx cmd (fst sr))"

definition cached_UpdateStock ::
  "('s, 'r) cached \<Rightarrow> context_err \<Rightarrow> string \<Rightarrow> int32 \<Rightarrow> ('s \<times> 'r, product) act"
where
  "cached_UpdateStock c ctx productID delta sr =
     and_invalidate c ctx (\<lambda>p. Some productID) (snd sr)
       (repo_UpdateStock (cd_next c) ctx productID delta (fst sr))"

definition cached_repo :: "('s, 'r) cached \<Rightarrow> ('s \<times> 'r) product_repository" where
  "cached_repo c =
     \<lparr>repo_List = cached_List c, repo_GetByID = cached_GetByID c, repo_Create = cached_Create c,
      repo_Update = cached_Update c, repo_UpdateStock = cached_UpdateStock c\<rparr>"

lemma cached_repo_sel [simp]:
  "repo_List (cached_repo c) = cached_List c" "repo_GetByID (cached_repo c) = cached_GetByID c"
  "repo_Create (cached_repo c) = cached_Create c" "repo_Update (cached_repo c) = cached_Update c"
  "repo_UpdateStock (cached_repo c) = cached_UpdateStock c"
  by (simp_all add: cached_repo_def)

lemma cache_events [simp]:
  "cache_event (cache_total method res)" "cache_event (cache_duration method operation)"
  by (simp_all add: cache_event_def cache_total_def cache_duration_def)

subsection \<open>What the single cache operations do to the maps\<close>

context redis_store
begin

lemma GetProduct_maps:
  assumes "GetProduct_cache (cache_of t) ctx i r = (q, r')"
  shows "shrinks (maps r) (maps r')" and "q \<noteq> Panic m"
    and "q = Ok (Some p) \<Longrightarrow> fst (maps r) i = Some p" and "q = Ok None \<Longrightarrow> fst (maps r') i = None"
  using cache_step_spec [of t ctx "GetP i" r] assms
  by (cases q; auto split: option.splits elim: got.elims simp: got.simps)+

lemma GetProductList_maps:
  assumes "GetProductList (cache_of t) ctx l f r = (q, r')"
  shows "shrinks (maps r) (maps r')" and "q \<noteq> Panic m"
    and "q = Ok (Some ps) \<Longrightarrow> snd (maps r) (l, f) = Some ps"
    and "q = Ok None \<Longrightarrow> snd (maps r') (l, f) = None"
  using cache_step_spec [of t ctx "GetL l f" r] assms
  by (cases q; auto split: option.splits elim: got.elims simp: got.simps)+

lemma SetProduct_maps:
  assumes "SetProduct (cache_of t) ctx p r = (e, r')"
  shows "shrinks (set_product p (maps r)) (maps r') \<or> shrinks (maps r) (maps r')"
  using cache_step_spec [of t ctx "SetP p" r] assms by (cases e) auto

lemma SetProductList_maps:
  assumes "SetProductList (cache_of t) ctx l f ps r = (e, r')"
  shows "shrinks (set_page l f ps (maps r)) (maps r') \<or> shrinks (maps r) (maps r')"
  using cache_step_spec [of t ctx "SetL l f ps" r] assms by (cases e) auto

lemma DeleteProduct_maps:
  assumes "DeleteProduct (cache_of t) ctx i r = (e, r')"
  shows "shrinks (maps r) (maps r')" and "e = None \<Longrightarrow> fst (maps r') i = None"
  using cache_step_spec [of t ctx "DelP i" r] assms by (cases e; auto)+

lemma InvalidateListCache_maps:
  obtains q r' where "InvalidateListCache (cache_of t) ctx r = Some (q, r')" and "\<And>m. q \<noteq> Panic m"
    and "shrinks (maps r) (maps r')" and "q = Ok () \<Longrightarrow> snd (maps r') = Map.empty"
proof (rule InvalidateListCache_returns [of t ctx r])
  fix q r'
  assume inv: "InvalidateListCache (cache_of t) ctx r = Some (q, r')" "\<And>m. q \<noteq> Panic m"
    "store r' \<subseteq>\<^sub>m store r"
    and gone: "\<And>k. q = Ok () \<Longrightarrow> prefix list_prefix k \<Longrightarrow> store r' k = None"
  have "snd (maps r') = Map.empty" if "q = Ok ()"
    using gone [OF that] maps_of_None(2) by (auto simp: fun_eq_iff)
  with that inv maps_of_mono show thesis by blast
qed

end

subsection \<open>The caching repository is safe\<close>

text \<open>Cached products are valid, and a cached page is no longer than its limit.\<close>

definition good_maps :: "cache_maps \<Rightarrow> bool" where
  "good_maps s \<longleftrightarrow>
     (\<forall>i p. fst s i = Some p \<longrightarrow> product_wf p) \<and>
     (\<forall>l f ps. snd s (l, f) = Some ps \<longrightarrow> good_page l ps)"

lemma good_maps_shrinks: "good_maps s \<Longrightarrow> shrinks s s' \<Longrightarrow> good_maps s'"
  unfolding good_maps_def by (auto simp: shrinks_def dest: map_le_SomeD)

lemma good_maps_set_product: "good_maps s \<Longrightarrow> product_wf p \<Longrightarrow> good_maps (set_product p s)"
  by (auto simp: good_maps_def clean_product_wf)

lemma good_maps_set_page: "good_maps s \<Longrightarrow> good_page l ps \<Longrightarrow> good_maps (set_page l f ps s)"
  by (auto simp: good_maps_def good_page_def list_all_iff clean_product_wf)

locale cached_stack = nxt: safe_repository nxt ninv + redis_store client store unseen left
  for nxt :: "'s product_repository" and ninv :: "'s \<Rightarrow> bool"
    and client :: "'r redis_client" and store unseen left +
  fixes ttl :: int64
begin

abbreviation stack :: "('s, 'r) cached" where
  "stack \<equiv> \<lparr>cd_cache = cache_of ttl, cd_next = nxt\<rparr>"

definition cinv :: "'s \<times> 'r \<Rightarrow> bool" where
  "cinv sr \<longleftrightarrow> ninv (fst sr) \<and> good_maps (maps (snd sr))"

lemma cinv_start: "ninv s \<Longrightarrow> store r = Map.empty \<Longrightarrow> cinv (s, r)"
  by (simp add: cinv_def good_maps_def maps_of_def cached_products_def [abs_def] cached_pages_def [abs_def])

lemma cinv_weaker:
  "cinv sr \<Longrightarrow> (ninv (fst sr) \<Longrightarrow> ninv (fst sr')) \<Longrightarrow> store (snd sr') \<subseteq>\<^sub>m store (snd sr) \<Longrightarrow> cinv sr'"
  by (auto simp: cinv_def intro: good_maps_shrinks maps_of_mono)

lemma cinv_next: "cinv sr \<Longrightarrow> ninv (fst sr)"
  by (simp add: cinv_def)

lemma invalidateListCache_result:
  obtains r' where "invalidateListCache stack ctx r = (None, r')" and "shrinks (maps r) (maps r')"
    and "InvalidateListCache (cache_of ttl) ctx r = Some (Ok (), r') \<Longrightarrow> snd (maps r') = Map.empty"
proof (rule InvalidateListCache_maps [of ttl ctx r])
  fix q r'
  assume inv: "InvalidateListCache (cache_of ttl) ctx r = Some (q, r')" "\<And>m. q \<noteq> Panic m"
    "shrinks (maps r) (maps r')" "q = Ok () \<Longrightarrow> snd (maps r') = Map.empty"
  then show thesis
    by (cases q) (auto simp: invalidateListCache_def intro!: that)
qed

lemma shrinks_trans: "shrinks a b \<Longrightarrow> shrinks b c \<Longrightarrow> shrinks a c"
  by (auto simp: shrinks_def intro: map_le_trans)

lemma and_invalidate_result:
  "\<exists>r'. and_invalidate stack ctx key r (q, ms, s) = (q, ms, (s, r')) \<and> shrinks (maps r) (maps r')"
proof (cases q)
  case (Ok p)
  define r1 where "r1 = (case key p of None \<Rightarrow> r | Some i \<Rightarrow> snd (DeleteProduct (cd_cache stack) ctx i r))"
  have "shrinks (maps r) (maps r1)"
    using DeleteProduct_maps(1) [of ttl ctx _ r] by (auto simp: r1_def split: option.splits) (metis prod.collapse)
  moreover obtain r' where "invalidateListCache stack ctx r1 = (None, r')" "shrinks (maps r1) (maps r')"
    by (rule invalidateListCache_result)
  ultimately show ?thesis
    using Ok by (auto simp: and_invalidate_def r1_def [symmetric] intro: shrinks_trans)
qed (auto simp: and_invalidate_def)

lemma and_invalidate_safe:
  assumes "runs_safe ninv cache_event product_wf m"
  shows "runs_safe cinv cache_event product_wf
    (\<lambda>sr. and_invalidate stack ctx key (snd sr) (m (fst sr)))"
proof (rule runs_safeI)
  fix sr q ms sr'
  assume inv: "cinv sr" and run: "and_invalidate stack ctx key (snd sr) (m (fst sr)) = (q, ms, sr')"
  obtain q0 ms0 s0 where m: "m (fst sr) = (q0, ms0, s0)" by (metis prod_cases3)
  with and_invalidate_result [of ctx key "snd sr" q0 ms0 s0] run obtain r'
    where "q = q0" "ms = ms0" "sr' = (s0, r')" "shrinks (maps (snd sr)) (maps r')" by auto
  with runs_safeD [OF assms _ m] inv show "cinv sr' \<and> list_all cache_event ms \<and> ok_or_err product_wf q"
    by (auto simp: cinv_def intro: good_maps_shrinks)
qed

lemma cached_GetByID_safe: "runs_safe cinv cache_event product_wf (cached_GetByID stack ctx i)"
proof (rule runs_safeI)
  fix sr q ms sr'
  assume inv: "cinv sr" and run: "cached_GetByID stack ctx i sr = (q, ms, sr')"
  obtain s r where sr: "sr = (s, r)" by (metis surj_pair)
  obtain g r1 where g: "GetProduct_cache (cache_of ttl) ctx i r = (g, r1)" by (metis surj_pair)
  obtain q2 ms2 s2 where q2: "repo_GetByID nxt ctx i s = (q2, ms2, s2)" by (metis prod_cases3)
  note get = GetProduct_maps [OF g]
  have good: "good_maps (maps r1)"
    using inv sr get(1) by (auto simp: cinv_def intro: good_maps_shrinks)
  have step: "ninv s2 \<and> list_all cache_event ms2 \<and> ok_or_err product_wf q2"
    using runs_safeD [OF nxt.GetByID_safe _ q2] inv sr by (simp add: cinv_def)
  show "cinv sr' \<and> list_all cache_event ms \<and> ok_or_err product_wf q"
  proof (cases "g = Ok None \<and> (\<exists>p. q2 = Ok p)")
    case True
    then obtain p where p: "g = Ok None" "q2 = Ok p" by blast
    obtain e r3 where e: "SetProduct (cache_of ttl) ctx p r1 = (e, r3)" by (metis surj_pair)
    have "good_maps (maps r3)"
      using SetProduct_maps [OF e] good good_maps_set_product [OF good, of p] step p
      by (auto intro: good_maps_shrinks)
    with run sr g q2 p e step show ?thesis
      by (cases e) (auto simp: cached_GetByID_def get_or_fetch_def fill_def with_cache_duration_def cinv_def)
  next
    case False
    have "product_wf p" if "g = Ok (Some p)" for p
      using get(3) [OF that] inv sr by (auto simp: cinv_def good_maps_def)
    with False run sr g q2 step good get(2) inv show ?thesis
      by (cases g; cases q2)
         (auto simp: cached_GetByID_def get_or_fetch_def with_cache_duration_def cinv_def
           split: option.splits)
  qed
qed

lemma cached_List_safe:
  assumes "page_args limit offset"
  shows "runs_safe cinv cache_event (good_page limit) (cached_List stack ctx limit offset)"
proof (rule runs_safeI)
  fix sr q ms sr'
  assume inv: "cinv sr" and run: "cached_List stack ctx limit offset sr = (q, ms, sr')"
  obtain s r where sr: "sr = (s, r)" by (metis surj_pair)
  obtain g r1 where g: "GetProductList (cache_of ttl) ctx limit offset r = (g, r1)" by (metis surj_pair)
  obtain q2 ms2 s2 where q2: "repo_List nxt ctx limit offset s = (q2, ms2, s2)" by (metis prod_cases3)
  note get = GetProductList_maps [OF g]
  have good: "good_maps (maps r1)"
    using inv sr get(1) by (auto simp: cinv_def intro: good_maps_shrinks)
  have step: "ninv s2 \<and> list_all cache_event ms2 \<and> ok_or_err (good_page limit) q2"
    using runs_safeD [OF nxt.List_safe [OF assms] _ q2] inv sr by (simp add: cinv_def)
  show "cinv sr' \<and> list_all cache_event ms \<and> ok_or_err (good_page limit) q"
  proof (cases "g = Ok None \<and> (\<exists>p. q2 = Ok p)")
    case True
    then obtain ps where ps: "g = Ok None" "q2 = Ok ps" by blast
    obtain e r3 where e: "SetProductList (cache_of ttl) ctx limit offset ps r1 = (e, r3)" by (metis surj_pair)
    have "good_maps (maps r3)"
      using SetProductList_maps [OF e] good good_maps_set_page [OF good, of limit ps offset] step ps
      by (auto intro: good_maps_shrinks)
    with run sr g q2 ps e step show ?thesis
      by (cases e) (auto simp: cached_List_def with_cache_duration_def cinv_def)
  next
    case False
    have "good_page limit ps" if "g = Ok (Some ps)" for ps
      using get(3) [OF that] inv sr by (auto simp: cinv_def good_maps_def)
    with False run sr g q2 step good get(2) inv show ?thesis
      by (cases g; cases q2)
         (auto simp: cached_List_def with_cache_duration_def cinv_def split: option.splits)
  qed
qed

end

sublocale cached_stack \<subseteq> safe_repository "cached_repo \<lparr>cd_cache = cache_of ttl, cd_next = nxt\<rparr>" cinv
proof (unfold_locales, goal_cases)
  case (1 limit offset ctx)
  then show ?case by (simp add: cached_List_safe)
next
  case (2 ctx i)
  show ?case by (simp add: cached_GetByID_safe)
next
  case (3 c ctx)
  then show ?case
    unfolding cached_repo_sel cached_Create_def cached.simps
    by (intro and_invalidate_safe nxt.Create_safe)
next
  case (4 u ctx)
  then show ?case
    unfolding cached_repo_sel cached_Update_def cached.simps
    by (intro and_invalidate_safe nxt.Update_safe)
next
  case (5 ctx i d)
  show ?case
    unfolding cached_repo_sel cached_UpdateStock_def cached.simps
    by (intro and_invalidate_safe nxt.UpdateStock_safe)
qed

subsection \<open>The caching repository writes what the next one writes\<close>

locale cached_catalogue =
  cached_stack nxt ninv client store unseen left ttl + nxt: write_repository nxt ninv listing
  for nxt :: "'s product_repository" and ninv and client :: "'r redis_client" and store unseen left
    and ttl and listing
begin

lemma and_invalidate_passes:
  assumes "and_invalidate stack ctx key r res = (q, ms, sr')"
  shows "res = (q, ms, fst sr')"
proof -
  obtain q0 ms0 s0 where "res = (q0, ms0, s0)" by (metis prod_cases3)
  with and_invalidate_result [of ctx key r q0 ms0 s0] assms show ?thesis by auto
qed

lemma cached_writes_pass:
  "cached_Create stack ctx c sr = (q, ms, sr') \<Longrightarrow> repo_Create nxt ctx c (fst sr) = (q, ms, fst sr')"
  "cached_Update stack ctx u sr = (q, ms, sr') \<Longrightarrow> repo_Update nxt ctx u (fst sr) = (q, ms, fst sr')"
  "cached_UpdateStock stack ctx i d sr = (q, ms, sr') \<Longrightarrow>
     repo_UpdateStock nxt ctx i d (fst sr) = (q, ms, fst sr')"
  by (auto simp: cached_Create_def cached_Update_def cached_UpdateStock_def dest: and_invalidate_passes)

lemma get_or_fetch_state:
  assumes "get_or_fetch stack ctx i sr = (q, ms, sr')"
  shows "fst sr' = fst sr \<or> (\<exists>q1 ms1. repo_GetByID nxt ctx i (fst sr) = (q1, ms1, fst sr'))"
  using assms by (auto simp: get_or_fetch_def split: prod.splits outcome.splits option.splits)

lemma fill_state: "fst (snd (fill c ctx p sr)) = fst sr"
  by (simp add: fill_def split: prod.split option.split)

lemma cached_GetByID_state:
  assumes "cached_GetByID stack ctx i sr = (q, ms, sr')"
  shows "fst sr' = fst sr \<or> (\<exists>q1 ms1. repo_GetByID nxt ctx i (fst sr) = (q1, ms1, fst sr'))"
proof -
  obtain g ms1 sr1 where g: "get_or_fetch stack ctx i sr = (g, ms1, sr1)" by (metis prod_cases3)
  have "fst sr' = fst sr1"
    using assms g fill_state [of stack ctx _ sr1]
    by (auto simp: cached_GetByID_def with_cache_duration_def split: outcome.splits prod.splits if_splits)
      (metis fst_conv snd_conv)
  with get_or_fetch_state [OF g] show ?thesis by simp
qed

lemma cached_List_state:
  assumes "cached_List stack ctx l f sr = (q, ms, sr')"
  shows "fst sr' = fst sr \<or> (\<exists>q1 ms1. repo_List nxt ctx l f (fst sr) = (q1, ms1, fst sr'))"
  using assms
  by (auto simp: cached_List_def with_cache_duration_def split: prod.splits outcome.splits option.splits)

end

sublocale cached_catalogue \<subseteq>
  write_repository "cached_repo \<lparr>cd_cache = cache_of ttl, cd_next = nxt\<rparr>" cinv "\<lambda>sr. listing (fst sr)"
proof (unfold_locales, goal_cases)
  case (1 sr)
  then show ?case by (simp add: cinv_def nxt.listing_ok)
next
  case (2 sr c ctx p ms sr')
  then show ?case
    using nxt.Create_ok cached_writes_pass(1) by (simp add: cinv_def) blast
next
  case (3 sr u ctx p ms sr')
  then show ?case
    using nxt.Update_ok cached_writes_pass(2) by (simp add: cinv_def) blast
next
  case (4 sr ctx i d p ms sr')
  then have "repo_UpdateStock nxt ctx i d (fst sr) = (Ok p, ms, fst sr')" "ninv (fst sr)"
    by (simp_all add: cinv_def cached_writes_pass(3))
  then show ?case by (rule nxt.UpdateStock_ok [rotated])
next
  case (5 sr ctx i q ms sr')
  then have "cached_GetByID stack ctx i sr = (q, ms, sr')" "ninv (fst sr)"
    by (simp_all add: cinv_def)
  with cached_GetByID_state nxt.read_frame(1) show ?case by metis
next
  case (6 sr ctx l f q ms sr')
  then have "cached_List stack ctx l f sr = (q, ms, sr')" "ninv (fst sr)"
    by (simp_all add: cinv_def)
  with cached_List_state nxt.read_frame(2) show ?case by metis
next
  case (7 sr ctx c e ms sr')
  then show ?case
    using nxt.sentinel_frame(1) cached_writes_pass(1) by (simp add: cinv_def) blast
next
  case (8 sr ctx u e ms sr')
  then show ?case
    using nxt.sentinel_frame(2) cached_writes_pass(2) by (simp add: cinv_def) blast
next
  case (9 sr ctx i d e ms sr')
  then show ?case
    using nxt.sentinel_frame(3) cached_writes_pass(3) by (simp add: cinv_def) blast
qed

context cached_stack
begin

lemmas stack_safe = safe_repository_axioms

end

context cached_catalogue
begin

lemmas stack_contract = write_repository_axioms

end

end
