(* ===== verification/Cache_Coherence.thy ===== *)
theory Cache_Coherence
  imports Cached History Pg_Outbox
begin

section \<open>When the cache is coherent, and when it is not\<close>

text \<open>
  The caching repository answers reads from Redis as long as an entry lives. This theory shows
  what that means for the callers of the service: while the invalidations work, every read is
  answered from the catalogue as it is, whatever else Redis loses or refuses; one failed
  invalidation, or a read that fills the cache across a write, leaves an old version that is
  handed out until it expires.
\<close>

subsection \<open>Coherent contents\<close>

definition coherent :: "product list \<Rightarrow> cache_maps \<Rightarrow> bool" where
  "coherent ps m \<longleftrightarrow>
     (\<forall>i p. fst m i = Some p \<longrightarrow> (\<exists>q \<in> set ps. ID q = i \<and> p = clean_product q)) \<and>
     (\<forall>l f pg. page_args l f \<longrightarrow> snd m (l, f) = Some pg \<longrightarrow> pg = map clean_product (page l f ps))"

lemma coherent_shrinks: "coherent ps m \<Longrightarrow> shrinks m m' \<Longrightarrow> coherent ps m'"
  unfolding coherent_def by (auto simp: shrinks_def dest: map_le_SomeD)

lemma coherent_set_product: "coherent ps m \<Longrightarrow> q \<in> set ps \<Longrightarrow> coherent ps (set_product q m)"
  by (auto simp: coherent_def)

lemma coherent_set_page:
  "coherent ps m \<Longrightarrow> coherent ps (set_page l f (page l f ps) m)"
  by (auto simp: coherent_def)

lemma coherent_empty [simp]: "coherent ps (Map.empty, Map.empty)"
  by (simp add: coherent_def)

text \<open>After a write: no pages are left, and the products that are left are in the new catalogue.\<close>

lemma coherent_grow:
  assumes "coherent ps m" and "shrinks m m'" and "snd m' = Map.empty" and "set ps \<subseteq> set ps'"
  shows "coherent ps' m'"
  using coherent_shrinks [OF assms(1,2)] assms(3,4) by (fastforce simp: coherent_def)

lemma coherent_replace:
  assumes "coherent ps m" and "shrinks m m'" and "snd m' = Map.empty" and "fst m' (ID q) = None"
    and "set ps' = insert p (set ps - {q})"
  shows "coherent ps' m'"
proof -
  have "\<exists>x \<in> set ps'. ID x = i \<and> c = clean_product x" if "fst m' i = Some c" for i c
  proof -
    from that coherent_shrinks [OF assms(1,2)] obtain x where "x \<in> set ps" "ID x = i" "c = clean_product x"
      by (auto simp: coherent_def)
    with that assms(4,5) show ?thesis by auto
  qed
  with assms(3) show ?thesis by (auto simp: coherent_def)
qed

subsection \<open>A client whose deletions and scans work\<close>

text \<open>Gets and sets may fail and keys may expire; \<open>DEL\<close> and \<open>SCAN\<close> do not fail.\<close>

locale calm_redis = redis_store client store unseen left
  for client :: "'r redis_client" and store unseen left +
  fixes calm :: "'r \<Rightarrow> bool"
  assumes calm_Get: "calm r \<Longrightarrow> r_Get client ctx k r = (q, r') \<Longrightarrow> calm r'"
    and calm_Set: "calm r \<Longrightarrow> r_Set client ctx k v ttl r = (e, r') \<Longrightarrow> calm r'"
    and calm_Del: "calm r \<Longrightarrow> r_Del client ctx ks r = (e, r') \<Longrightarrow> e = None \<and> calm r'"
    and calm_Scan: "calm r \<Longrightarrow> r_Scan client ctx cur pat n r = (x, r') \<Longrightarrow> (\<forall>e. x \<noteq> Err e) \<and> calm r'"
begin

lemma scan_loop_calm:
  "calm r \<Longrightarrow> scan_loop client ctx cur ks r = Some (res, r') \<Longrightarrow> (\<exists>all. res = Ok all) \<and> calm r'"
proof (induction "left cur r" arbitrary: cur ks r rule: less_induct)
  case less
  obtain x r1 where x: "r_Scan client ctx cur (list_prefix @ ''*'') 100 r = (x, r1)"
    by (metis surj_pair)
  note calm = calm_Scan [OF less(2) x]
  have "x \<noteq> Panic m" for m
    using x Scan_returns by metis
  with calm obtain keys cur' where ok: "x = Ok (keys, cur')"
    by (cases x) auto
  show ?case
  proof (cases "cur' = 0")
    case True
    with less(3) x ok calm show ?thesis by (auto simp add: scan_loop.simps [of client ctx cur])
  next
    case False
    with less(3) x ok have "scan_loop client ctx cur' (ks @ keys) r1 = Some (res, r')"
      by (simp add: scan_loop.simps [of client ctx cur])
    with less(1) [of cur' r1] Scan_ends [OF x [unfolded ok] False] calm show ?thesis by blast
  qed
qed

lemma InvalidateListCache_calm:
  assumes "calm r" and "InvalidateListCache (cache_of t) ctx r = Some (q, r')"
  shows "q = Ok () \<and> calm r'"
proof -
  obtain res r1 where loop: "scan_loop client ctx 0 [] r = Some (res, r1)"
    using scan_loop_ends by blast
  from scan_loop_calm [OF assms(1) this] obtain ks where "res = Ok ks" "calm r1" by blast
  with assms(2) loop calm_Del [of r1 ctx ks] show ?thesis
    by (auto simp: InvalidateListCache_def split: if_splits prod.splits option.splits)
qed

lemma cache_get_calm: "calm r \<Longrightarrow> cache_get (cache_of t) decode ctx k r = (q, r') \<Longrightarrow> calm r'"
  by (auto simp: cache_get_def dest: calm_Get split: prod.splits outcome.splits option.splits)

end

subsection \<open>The caching repository over it\<close>

text \<open>What a read may answer: the product as it is, or as it comes back from JSON.\<close>

definition current_product :: "product list \<Rightarrow> string \<Rightarrow> product \<Rightarrow> bool" where
  "current_product ps i p \<longleftrightarrow> (\<exists>x \<in> set ps. ID x = i \<and> (p = x \<or> p = clean_product x))"

definition current_page :: "product list \<Rightarrow> int64 \<Rightarrow> int64 \<Rightarrow> product list \<Rightarrow> bool" where
  "current_page ps l f pg \<longleftrightarrow> pg = page l f ps \<or> pg = map clean_product (page l f ps)"

fun current :: "product list \<Rightarrow> request \<Rightarrow> response \<Rightarrow> bool" where
  "current ps (ReqGet i) (One (Ok p)) \<longleftrightarrow> current_product ps i p"
| "current ps (ReqList l f) (Page (Ok pg)) \<longleftrightarrow> current_page ps (effective_limit l) f pg"
| "current ps _ _ \<longleftrightarrow> True"

locale coherent_stack =
  cached_catalogue nxt ninv client store unseen left ttl listing +
  nxt: spec_repository nxt ninv listing + calm_redis client store unseen left calm
  for nxt :: "'s product_repository" and ninv and client :: "'r redis_client" and store unseen left
    and ttl and listing and calm
begin

definition cohinv :: "'s \<times> 'r \<Rightarrow> bool" where
  "cohinv sr \<longleftrightarrow> cinv sr \<and> calm (snd sr) \<and> coherent (listing (fst sr)) (maps (snd sr))"

lemma cached_GetByID_current:
  assumes inv: "cohinv sr" and run: "cached_GetByID stack ctx i sr = (q, ms, sr')"
  shows "cohinv sr' \<and> (\<forall>p. q = Ok p \<longrightarrow> current_product (listing (fst sr')) i p)"
proof -
  obtain s r where sr: "sr = (s, r)" by (metis surj_pair)
  obtain g r1 where g: "GetProduct_cache (cache_of ttl) ctx i r = (g, r1)" by (metis surj_pair)
  obtain q2 ms2 s2 where q2: "repo_GetByID nxt ctx i s = (q2, ms2, s2)" by (metis prod_cases3)
  have cinv': "cinv sr'"
    using runs_safeD [OF cached_GetByID_safe _ run] inv by (simp add: cohinv_def)
  have ninv: "ninv s" using inv sr by (simp add: cohinv_def cinv_def)
  have same: "listing s2 = listing s" using nxt.read_frame(1) [OF ninv q2] .
  have calm1: "calm r1"
    using g inv sr cache_get_calm [of r] by (auto simp: GetProduct_cache_def cohinv_def)
  have coh1: "coherent (listing s) (maps r1)"
    using coherent_shrinks [OF _ GetProduct_maps(1) [OF g]] inv sr by (simp add: cohinv_def)
  show ?thesis
  proof (cases "g = Ok None \<and> (\<exists>p. q2 = Ok p)")
    case True
    then obtain p where p: "g = Ok None" "q2 = Ok p" by blast
    obtain e r3 where e: "SetProduct (cache_of ttl) ctx p r1 = (e, r3)" by (metis surj_pair)
    have member: "p \<in> set (listing s)" "ID p = i"
      using nxt.GetByID_ok [OF ninv] q2 p by blast+
    have "calm r3" using calm_Set [OF calm1] e by (auto simp: SetProduct_def)
    moreover have "coherent (listing s) (maps r3)"
      using SetProduct_maps [OF e] coherent_set_product [OF coh1 member(1)] coh1
      by (auto intro: coherent_shrinks)
    moreover have "sr' = (s2, r3) \<and> q = Ok p"
      using run sr g q2 p e
      by (cases e) (auto simp: cached_GetByID_def get_or_fetch_def fill_def with_cache_duration_def)
    ultimately show ?thesis
      using cinv' same member by (auto simp: cohinv_def current_product_def)
  next
    case False
    have hit: "current_product (listing s) i p" if "g = Ok (Some p)" for p
      using GetProduct_maps(3) [OF g that] inv sr
      by (auto simp: cohinv_def coherent_def current_product_def)
    have "(sr' = (s, r1) \<or> sr' = (s2, r1)) \<and> (\<forall>p. q = Ok p \<longrightarrow> g = Ok (Some p))"
      using False run sr g q2 GetProduct_maps(2) [OF g]
      by (cases g; cases q2)
         (auto simp: cached_GetByID_def get_or_fetch_def with_cache_duration_def split: option.splits)
    with cinv' calm1 coh1 same hit show ?thesis by (auto simp: cohinv_def)
  qed
qed

lemma cached_List_current:
  assumes inv: "cohinv sr" and args: "page_args l f" and run: "cached_List stack ctx l f sr = (q, ms, sr')"
  shows "cohinv sr' \<and> (\<forall>ps. q = Ok ps \<longrightarrow> current_page (listing (fst sr')) l f ps)"
proof -
  obtain s r where sr: "sr = (s, r)" by (metis surj_pair)
  obtain g r1 where g: "GetProductList (cache_of ttl) ctx l f r = (g, r1)" by (metis surj_pair)
  obtain q2 ms2 s2 where q2: "repo_List nxt ctx l f s = (q2, ms2, s2)" by (metis prod_cases3)
  have cinv': "cinv sr'"
    using runs_safeD [OF cached_List_safe [OF args] _ run] inv by (simp add: cohinv_def)
  have ninv: "ninv s" using inv sr by (simp add: cohinv_def cinv_def)
  have same: "listing s2 = listing s" using nxt.read_frame(2) [OF ninv q2] .
  have calm1: "calm r1"
    using g inv sr cache_get_calm [of r] by (auto simp: GetProductList_def cohinv_def)
  have coh1: "coherent (listing s) (maps r1)"
    using coherent_shrinks [OF _ GetProductList_maps(1) [OF g]] inv sr by (simp add: cohinv_def)
  show ?thesis
  proof (cases "g = Ok None \<and> (\<exists>p. q2 = Ok p)")
    case True
    then obtain ps where ps: "g = Ok None" "q2 = Ok ps" by blast
    obtain e r3 where e: "SetProductList (cache_of ttl) ctx l f ps r1 = (e, r3)" by (metis surj_pair)
    have pg: "ps = page l f (listing s)"
      using nxt.List_ok [OF ninv args] q2 ps by blast
    have "calm r3" using calm_Set [OF calm1] e by (auto simp: SetProductList_def)
    moreover have "coherent (listing s) (maps r3)"
      using SetProductList_maps [OF e] coherent_set_page [OF coh1, of l f] coh1 pg
      by (auto intro: coherent_shrinks)
    moreover have "sr' = (s2, r3) \<and> q = Ok ps"
      using run sr g q2 ps e by (cases e) (auto simp: cached_List_def with_cache_duration_def)
    ultimately show ?thesis
      using cinv' same pg by (auto simp: cohinv_def current_page_def)
  next
    case False
    have hit: "current_page (listing s) l f ps" if "g = Ok (Some ps)" for ps
      using GetProductList_maps(3) [OF g that] inv sr args
      by (auto simp: cohinv_def coherent_def current_page_def)
    have "(sr' = (s, r1) \<or> sr' = (s2, r1)) \<and> (\<forall>ps. q = Ok ps \<longrightarrow> g = Ok (Some ps))"
      using False run sr g q2 GetProductList_maps(2) [OF g]
      by (cases g; cases q2) (auto simp: cached_List_def with_cache_duration_def split: option.splits)
    with cinv' calm1 coh1 same hit show ?thesis by (auto simp: cohinv_def)
  qed
qed

text \<open>After a write that succeeded the invalidations have emptied the pages and dropped the product.\<close>

lemma and_invalidate_calm:
  assumes "calm r" and "and_invalidate stack ctx key r (Ok p, ms, s) = (q, ms', sr')"
  shows "calm (snd sr') \<and> shrinks (maps r) (maps (snd sr')) \<and> snd (maps (snd sr')) = Map.empty \<and>
    (\<forall>i. key p = Some i \<longrightarrow> fst (maps (snd sr')) i = None)"
proof -
  define r1 where "r1 = (case key p of None \<Rightarrow> r | Some i \<Rightarrow> snd (DeleteProduct (cd_cache stack) ctx i r))"
  have r1: "calm r1" "shrinks (maps r) (maps r1)" "\<And>i. key p = Some i \<Longrightarrow> fst (maps r1) i = None"
  proof -
    have "calm r1 \<and> shrinks (maps r) (maps r1) \<and> (\<forall>i. key p = Some i \<longrightarrow> fst (maps r1) i = None)"
    proof (cases "key p")
      case None
      with assms(1) show ?thesis by (simp add: r1_def)
    next
      case (Some i)
      obtain e r2 where e: "DeleteProduct (cache_of ttl) ctx i r = (e, r2)" by (metis surj_pair)
      then have "e = None \<and> calm r2"
        using calm_Del [OF assms(1)] by (simp add: DeleteProduct_def)
      with e Some DeleteProduct_maps [OF e] show ?thesis by (simp add: r1_def)
    qed
    then show "calm r1" "shrinks (maps r) (maps r1)" "\<And>i. key p = Some i \<Longrightarrow> fst (maps r1) i = None"
      by blast+
  qed
  obtain u r' where inv: "InvalidateListCache (cache_of ttl) ctx r1 = Some (u, r')"
    and pages: "shrinks (maps r1) (maps r')" "u = Ok () \<Longrightarrow> snd (maps r') = Map.empty"
    using InvalidateListCache_maps [of ttl ctx r1] by blast
  have u: "u = Ok ()" "calm r'"
    using InvalidateListCache_calm [OF r1(1) inv] by blast+
  have "invalidateListCache stack ctx r1 = (None, r')"
    using inv u by (simp add: invalidateListCache_def)
  then have "snd sr' = r'"
    using assms(2) by (auto simp: and_invalidate_def r1_def [symmetric])
  moreover have "fst (maps r') i = None" if "key p = Some i" for i
    using r1(3) [OF that] pages(1) by (auto simp: shrinks_def map_le_def dom_def) 
  ultimately show ?thesis
    using u pages r1(2) shrinks_trans by auto
qed

lemma and_invalidate_Err:
  "and_invalidate stack ctx key r (Err e, ms, s) = (q, ms', sr') \<Longrightarrow> snd sr' = r"
  by (auto simp: and_invalidate_def)

lemma cached_Create_coherent:
  assumes inv: "cohinv sr" and ok: "create_validate c = None"
    and run: "cached_Create stack ctx c sr = (q, ms, sr')"
    and settled: "(\<exists>p. q = Ok p) \<or> (\<exists>e. q = Err e \<and> domain_sentinel e)"
  shows "cohinv sr'"
proof -
  have call: "repo_Create nxt ctx c (fst sr) = (q, ms, fst sr')"
    using run by (rule cached_writes_pass(1))
  have ninv: "ninv (fst sr)" using inv by (simp add: cohinv_def cinv_def)
  have cinv': "cinv sr'"
    using Create_safe [OF ok] run inv by (auto simp: cohinv_def dest: runs_safeD)
  show ?thesis
  proof (cases q)
    case (Ok p)
    with run call have "and_invalidate stack ctx (\<lambda>p. None) (snd sr) (Ok p, ms, fst sr') = (q, ms, sr')"
      by (simp add: cached_Create_def)
    from and_invalidate_calm [OF _ this] inv nxt.Create_ok [OF ninv ok call [unfolded Ok]] cinv'
    show ?thesis
      using coherent_grow [of "listing (fst sr)" "maps (snd sr)" "maps (snd sr')" "listing (fst sr')"]
      by (auto simp: cohinv_def)
  next
    case (Err e)
    with run call have "snd sr' = snd sr"
      by (simp add: cached_Create_def and_invalidate_Err)
    with Err call settled nxt.sentinel_frame(1) [OF ninv] inv cinv' show ?thesis
      by (auto simp: cohinv_def)
  qed (use settled in simp)
qed

lemma replaced_coherent:
  assumes inv: "cohinv sr" and cinv': "cinv sr'"
    and ai: "and_invalidate stack ctx key (snd sr) (Ok p, ms, fst sr') = (q, ms', sr')"
    and key: "key p = Some (ID x)"
    and set: "set (listing (fst sr')) = insert p (set (listing (fst sr)) - {x})"
  shows "cohinv sr'"
proof -
  have calm: "calm (snd sr)" using inv by (simp add: cohinv_def)
  note after = and_invalidate_calm [OF calm ai]
  have "coherent (listing (fst sr')) (maps (snd sr'))"
  proof (rule coherent_replace [OF _ _ _ _ set])
    show "coherent (listing (fst sr)) (maps (snd sr))" using inv by (simp add: cohinv_def)
  qed (use after key in simp_all)
  with after cinv' show ?thesis by (simp add: cohinv_def)
qed

lemma cached_Update_coherent:
  assumes inv: "cohinv sr" and ok: "update_validate u = None"
    and run: "cached_Update stack ctx u sr = (q, ms, sr')"
    and settled: "(\<exists>p. q = Ok p) \<or> (\<exists>e. q = Err e \<and> domain_sentinel e)"
  shows "cohinv sr'"
proof -
  have call: "repo_Update nxt ctx u (fst sr) = (q, ms, fst sr')"
    using run by (rule cached_writes_pass(2))
  have ninv: "ninv (fst sr)" using inv by (simp add: cohinv_def cinv_def)
  have cinv': "cinv sr'"
    using Update_safe [OF ok] run inv by (auto simp: cohinv_def dest: runs_safeD)
  show ?thesis
  proof (cases q)
    case (Ok p)
    with run call have ai: "and_invalidate stack ctx (\<lambda>p. Some (ID p)) (snd sr) (Ok p, ms, fst sr') = (q, ms, sr')"
      by (simp add: cached_Update_def)
    from nxt.Update_ok [OF ninv ok call [unfolded Ok]] obtain x
      where "p = apply_update u x" "set (listing (fst sr')) = insert p (set (listing (fst sr)) - {x})"
      by blast
    then show ?thesis by (intro replaced_coherent [OF inv cinv' ai]) simp_all
  next
    case (Err e)
    with run call have "snd sr' = snd sr"
      by (simp add: cached_Update_def and_invalidate_Err)
    with Err call settled nxt.sentinel_frame(2) [OF ninv] inv cinv' show ?thesis
      by (auto simp: cohinv_def)
  qed (use settled in simp)
qed

lemma cached_UpdateStock_coherent:
  assumes inv: "cohinv sr" and run: "cached_UpdateStock stack ctx i d sr = (q, ms, sr')"
    and settled: "(\<exists>p. q = Ok p) \<or> (\<exists>e. q = Err e \<and> domain_sentinel e)"
  shows "cohinv sr'"
proof -
  have call: "repo_UpdateStock nxt ctx i d (fst sr) = (q, ms, fst sr')"
    using run by (rule cached_writes_pass(3))
  have ninv: "ninv (fst sr)" using inv by (simp add: cohinv_def cinv_def)
  have cinv': "cinv sr'"
    using UpdateStock_safe run inv by (auto simp: cohinv_def dest: runs_safeD)
  show ?thesis
  proof (cases q)
    case (Ok p)
    with run call have ai: "and_invalidate stack ctx (\<lambda>p. Some i) (snd sr) (Ok p, ms, fst sr') = (q, ms, sr')"
      by (simp add: cached_UpdateStock_def)
    from nxt.UpdateStock_ok [OF ninv call [unfolded Ok]] obtain x
      where "ID x = i" "set (listing (fst sr')) = insert p (set (listing (fst sr)) - {x})"
      by blast
    then show ?thesis by (intro replaced_coherent [OF inv cinv' ai]) simp_all
  next
    case (Err e)
    with run call have "snd sr' = snd sr"
      by (simp add: cached_UpdateStock_def and_invalidate_Err)
    with Err call settled nxt.sentinel_frame(3) [OF ninv] inv cinv' show ?thesis
      by (auto simp: cohinv_def)
  qed (use settled in simp)
qed

subsection \<open>Histories of the service over it\<close>

abbreviation svc :: "('s \<times> 'r) catalog_service option" where
  "svc \<equiv> service_of (cached_repo stack)"

lemma answered_or_refused:
  "settled (req, One q) \<Longrightarrow> \<not> refused req \<Longrightarrow> (\<forall>i. req \<noteq> ReqGet i) \<Longrightarrow>
     (\<exists>p. q = Ok p) \<or> (\<exists>e. q = Err e \<and> domain_sentinel e)"
  by (cases q; cases req) auto

lemma svc_step_coherent:
  assumes inv: "cohinv sr" and range: "offset_in_range (snd q)"
    and step: "svc_step svc q sr = (a, ms, sr')" and settled: "settled (snd q, a)"
  shows "cohinv sr' \<and> current (listing (fst sr')) (snd q) a"
proof -
  obtain ctx req where q: "q = (ctx, req)" by force
  show ?thesis
  proof (cases req)
    case (ReqList l f)
    with q step obtain r where a: "a = Page r" "ListProducts svc ctx l f sr = (r, ms, sr')"
      by (auto split: prod.splits)
    show ?thesis
    proof (cases "f <s 0")
      case True
      with ListProducts_passes [OF a(2)] inv a q ReqList show ?thesis by auto
    next
      case False
      with ListProducts_passes [OF a(2)] obtain ms1
        where "cached_List stack ctx (effective_limit l) f sr = (r, ms1, sr')" by auto
      moreover have "page_args (effective_limit l) f"
        using range q ReqList False by (intro page_args_effective) (simp_all add: word_sless_alt)
      ultimately have "cohinv sr' \<and> (\<forall>ps. r = Ok ps \<longrightarrow> current_page (listing (fst sr')) (effective_limit l) f ps)"
        using cached_List_current [OF inv] by blast
      with a q ReqList show ?thesis by (cases r) simp_all
    qed
  next
    case (ReqGet i)
    with q step obtain r where a: "a = One r" "GetProduct svc ctx i sr = (r, ms, sr')"
      by (auto split: prod.splits)
    show ?thesis
    proof (cases "blank i")
      case True
      with GetProduct_passes [OF a(2)] inv a q ReqGet show ?thesis by auto
    next
      case False
      with GetProduct_passes [OF a(2)] obtain ms1 where "cached_GetByID stack ctx i sr = (r, ms1, sr')"
        by auto
      with cached_GetByID_current [OF inv]
      have "cohinv sr' \<and> (\<forall>p. r = Ok p \<longrightarrow> current_product (listing (fst sr')) i p)" by blast
      with a q ReqGet show ?thesis by (cases r) simp_all
    qed
  next
    case (ReqCreate c)
    with q step obtain r where a: "a = One r" "CreateProduct svc ctx c sr = (r, ms, sr')"
      by (auto split: prod.splits)
    have "cohinv sr'"
    proof (cases "create_validate c")
      case None
      with CreateProduct_passes [OF a(2)] obtain ms1 where "cached_Create stack ctx c sr = (r, ms1, sr')"
        by auto
      with cached_Create_coherent [OF inv None] answered_or_refused [of req r] settled a q ReqCreate None
      show ?thesis by simp
    next
      case (Some e)
      with CreateProduct_passes [OF a(2)] inv show ?thesis by auto
    qed
    with a q ReqCreate show ?thesis by simp
  next
    case (ReqUpdate u)
    with q step obtain r where a: "a = One r" "UpdateProduct svc ctx u sr = (r, ms, sr')"
      by (auto split: prod.splits)
    have "cohinv sr'"
    proof (cases "update_validate u")
      case None
      with UpdateProduct_passes [OF a(2)] obtain ms1 where "cached_Update stack ctx u sr = (r, ms1, sr')"
        by auto
      with cached_Update_coherent [OF inv None] answered_or_refused [of req r] settled a q ReqUpdate None
      show ?thesis by simp
    next
      case (Some e)
      with UpdateProduct_passes [OF a(2)] inv show ?thesis by auto
    qed
    with a q ReqUpdate show ?thesis by simp
  next
    case (ReqStock i d)
    with q step obtain r where a: "a = One r" "UpdateStock svc ctx i d sr = (r, ms, sr')"
      by (auto split: prod.splits)
    have "cohinv sr'"
    proof (cases "blank i \<or> d = 0")
      case False
      with UpdateStock_passes [OF a(2)] obtain ms1 where "cached_UpdateStock stack ctx i d sr = (r, ms1, sr')"
        by auto
      with cached_UpdateStock_coherent [OF inv] answered_or_refused [of req r] settled a q ReqStock False
      show ?thesis by simp
    next
      case True
      with UpdateStock_passes [OF a(2)] inv show ?thesis by auto
    qed
    with a q ReqStock show ?thesis by simp
  qed
qed

lemma svc_run_coherent:
  "cohinv sr \<Longrightarrow> list_all (\<lambda>q. offset_in_range (snd q)) (qs @ [q]) \<Longrightarrow>
   svc_run svc (qs @ [q]) sr = (h, ms, sr') \<Longrightarrow> list_all settled h \<Longrightarrow>
     \<exists>a. last h = (snd q, a) \<and> current (listing (fst sr')) (snd q) a"
proof (induction qs arbitrary: sr h ms sr')
  case Nil
  obtain a ms1 sr1 where step: "svc_step svc q sr = (a, ms1, sr1)" by (metis prod_cases3)
  with Nil have "h = [(snd q, a)]" "sr1 = sr'" by auto
  with svc_step_coherent [OF _ _ step] Nil show ?case by simp
next
  case (Cons q1 qs)
  obtain a ms1 sr1 where step: "svc_step svc q1 sr = (a, ms1, sr1)" by (metis prod_cases3)
  obtain h2 ms2 sr2 where run: "svc_run svc (qs @ [q]) sr1 = (h2, ms2, sr2)" by (metis prod_cases3)
  have h: "h = (snd q1, a) # h2" "sr' = sr2" using Cons.prems(3) step run by auto
  have "cohinv sr1"
    using svc_step_coherent [OF _ _ step] Cons.prems h by simp
  moreover have "h2 \<noteq> []"
    using run by (cases qs) (auto split: prod.splits)
  ultimately show ?case
    using Cons.IH [OF _ _ run] Cons.prems h by simp
qed

end

subsection \<open>The stores of the program behind the cache\<close>

definition rr_calm :: "ref_redis \<Rightarrow> bool" where
  "rr_calm r \<longleftrightarrow> list_all (\<lambda>f. f \<noteq> Breaks \<and> f \<noteq> BreaksAfter) (rr_script r)"

lemma rr_calm_next: "rr_calm r \<Longrightarrow> rr_next r = (f, r') \<Longrightarrow> f = Works \<and> rr_calm r'"
  by (auto simp: rr_calm_def rr_next_def rr_drop_def split: list.splits redis_fault.splits)

lemma rr_calm_drop [simp]:
  "rr_calm (rr_drop ks r) = rr_calm r" "rr_calm (r\<lparr>rr_table := t\<rparr>) = rr_calm r"
  by (simp_all add: rr_calm_def rr_drop_def)

interpretation rr: calm_redis ref_redis_client rr_store rr_unseen rr_left rr_calm
proof (unfold_locales, goal_cases)
  case (1 r ctx k q r')
  obtain f r1 where f: "rr_next r = (f, r1)" by (metis surj_pair)
  with rr_calm_next [OF 1(1) f] 1(2) show ?case by (simp add: ref_redis_client_def)
next
  case (2 r ctx k v ttl e r')
  obtain f r1 where f: "rr_next r = (f, r1)" by (metis surj_pair)
  with rr_calm_next [OF 2(1) f] 2(2) have "r' = r1\<lparr>rr_table := AList.update k (Some v) (rr_table r1)\<rparr>"
    by (simp add: ref_redis_client_def)
  with rr_calm_next [OF 2(1) f] show ?case by simp
next
  case (3 r ctx ks e r')
  obtain f r1 where f: "rr_next r = (f, r1)" by (metis surj_pair)
  with rr_calm_next [OF 3(1) f] 3(2) have "e = None" "r' = rr_drop ks r1"
    by (simp_all add: ref_redis_client_def)
  with rr_calm_next [OF 3(1) f] show ?case by simp
next
  case (4 r ctx cur pat n x r')
  obtain f r1 where f: "rr_next r = (f, r1)" by (metis surj_pair)
  with rr_calm_next [OF 4(1) f] 4(2) have "x = Ok (rr_scan cur pat n r1)" "r' = r1"
    by (auto simp: ref_redis_client_def)
  with rr_calm_next [OF 4(1) f] show ?case by simp
qed

interpretation imc: coherent_stack in_memory_repo im_inv ref_redis_client rr_store rr_unseen rr_left
    300000000000 products rr_calm
  by unfold_locales

interpretation pgc: coherent_stack "pg_repo ref_engine" "\<lambda>d. catalogue_ok (tb_products (rd_committed d))"
    ref_redis_client rr_store rr_unseen rr_left 300000000000 "\<lambda>d. ref_by_id (tb_products (rd_committed d))" rr_calm
  by unfold_locales

subsection \<open>Properties\<close>

context coherent_stack
begin

lemma cohinv_start: "ninv s \<Longrightarrow> store r = Map.empty \<Longrightarrow> calm r \<Longrightarrow> cohinv (s, r)"
  by (simp add: cohinv_def cinv_start maps_of_def cached_products_def [abs_def] cached_pages_def [abs_def])

end


abbreviation ref_stack :: "(in_memory, ref_redis) cached" where
  "ref_stack \<equiv> \<lparr>cd_cache = ref_cache, cd_next = in_memory_repo\<rparr>"

lemma cached_UpdateStock_run:
  "\<exists>h ms s' r'. svc_run (service_of (cached_repo ref_stack))
      [(None, ReqStock ''prod-001'' 8), (None, ReqGet ''prod-001'')] (im_default, r) = (h, ms, (s', r')) \<and>
     list_all settled h"
proof -
  have "\<not> blank ''prod-001''" by code_simp
  obtain q where q: "index_by_id defaultProducts ''prod-001'' = Some q" "Stock q = 42" "ID q = ''prod-001''"
    by (simp add: defaultProducts_def)
  let ?p = "q\<lparr>Stock := 50\<rparr>"
  have "im_UpdateStock None ''prod-001'' 8 im_default = (Ok ?p, [], im_store ?p im_default)"
    using q by (subst im_UpdateStock_Some(1) [of im_default _ q]) (simp_all add: word_sless_alt)
  then obtain r1 where up: "cached_UpdateStock ref_stack None ''prod-001'' 8 (im_default, r) =
      (Ok ?p, [], (im_store ?p im_default, r1))"
    using imc.and_invalidate_result [of None "\<lambda>p. Some ''prod-001''" r "Ok ?p" "[]" "im_store ?p im_default"]
    by (auto simp: cached_UpdateStock_def)
  obtain a ms s' r' where get: "svc_step (service_of (cached_repo ref_stack)) (None, ReqGet ''prod-001'')
      (im_store ?p im_default, r1) = (a, ms, (s', r'))"
    by (metis surj_pair)
  have "settled (ReqGet ''prod-001'', a)"
    using get by (auto split: prod.splits)
  moreover have "svc_step (service_of (cached_repo ref_stack)) (None, ReqStock ''prod-001'' 8) (im_default, r) =
      (One (Ok ?p), [requests_total ''UpdateStock'' ''success'',
         Observe CatalogRequestDuration [''UpdateStock'']], (im_store ?p im_default, r1))"
    using up \<open>\<not> blank _\<close> by (simp add: UpdateStock_service_of with_repository_service_of with_duration_def)
  ultimately show ?thesis
    using get by (simp del: svc_step.simps)
qed




subsection \<open>Stale answers\<close>

text \<open>One read that fills the cache and one that hits it, from the store they meet.\<close>

lemma ref_get_miss:
  "rr_next r = (Works, r1) \<Longrightarrow> rr_store r1 (productKey i) = None \<Longrightarrow>
     GetProduct_cache ref_cache ctx i r = (Ok None, r1)"
  by (simp add: GetProduct_cache_def cache_get_def ref_redis_client_def)

lemma ref_get_hit:
  "rr_next r = (Works, r1) \<Longrightarrow> rr_store r1 (productKey i) = Some (print_json (product_json p)) \<Longrightarrow>
     utf8_product p \<Longrightarrow> GetProduct_cache ref_cache ctx i r = (Ok (Some p), r1)"
  by (simp add: GetProduct_cache_def cache_get_def ref_redis_client_def unmarshal_product clean_product_id)

lemma ref_set:
  "rr_next r = (Works, r1) \<Longrightarrow> SetProduct ref_cache ctx p r =
     (None, r1\<lparr>rr_table := AList.update (productKey (ID p)) (Some (print_json (product_json p))) (rr_table r1)\<rparr>)"
  by (simp add: SetProduct_def ref_redis_client_def)

definition shirt :: product where
  "shirt = hd defaultProducts"

lemma shirt_sel [simp]: "ID shirt = ''prod-001''" "Stock shirt = 42"
  by (simp_all add: shirt_def defaultProducts_def)

lemma utf8_shirt: "utf8_product shirt"
  by (simp add: utf8_product_def shirt_def defaultProducts_def valid_utf8_ascii byte_def)

lemma shirt_lookup: "index_by_id defaultProducts ''prod-001'' = Some shirt"
  by (simp add: shirt_def defaultProducts_def)

abbreviation shirt_key :: string where "shirt_key \<equiv> productKey ''prod-001''"
abbreviation shirt_entry :: "string \<times> string option" where
  "shirt_entry \<equiv> (shirt_key, Some (print_json (product_json shirt)))"
abbreviation sold :: in_memory where "sold \<equiv> im_store (shirt\<lparr>Stock := 50\<rparr>) im_default"

lemma im_shirt_update:
  "im_UpdateStock None ''prod-001'' 8 im_default = (Ok (shirt\<lparr>Stock := 50\<rparr>), [], sold)"
  by (subst im_UpdateStock_Some(1) [of im_default _ shirt])
     (simp_all add: shirt_lookup word_sless_alt)

text \<open>A request that the repository answers with a value.\<close>

lemma get_step:
  "\<not> blank i \<Longrightarrow> repo_GetByID repo ctx i s = (Ok p, ms, s') \<Longrightarrow>
     \<exists>ms'. svc_step (service_of repo) (ctx, ReqGet i) s = (One (Ok p), ms', s')"
  by (simp add: GetProduct_def with_duration_def)

lemma stock_step:
  "\<not> blank i \<Longrightarrow> d \<noteq> 0 \<Longrightarrow> repo_UpdateStock repo ctx i d s = (Ok p, ms, s') \<Longrightarrow>
     \<exists>ms'. svc_step (service_of repo) (ctx, ReqStock i d) s = (One (Ok p), ms', s')"
  by (simp add: UpdateStock_service_of with_repository_service_of with_duration_def)

text \<open>No page is cached, so the invalidation of the pages scans once and deletes nothing.\<close>

lemma scan_no_pages:
  "InvalidateListCache ref_cache ctx \<lparr>rr_table = [(shirt_key, v)], rr_script = []\<rparr> =
     Some (Ok (), \<lparr>rr_table = [(shirt_key, v)], rr_script = []\<rparr>)"
  "InvalidateListCache ref_cache ctx \<lparr>rr_table = [], rr_script = []\<rparr> =
     Some (Ok (), \<lparr>rr_table = [], rr_script = []\<rparr>)"
  by (simp_all add: InvalidateListCache_def scan_loop.simps ref_redis_client_def rr_next_def rr_scan_def
      rr_width_def glob_match_def Let_def)


text \<open>
  C37: a read across a write. Nothing fails here: a reader misses the cache and reads the product
  (stock 42), a writer raises the stock to 50 and deletes the key, the reader fills the cache
  with what it read; from then on every read answers 42 until the entry expires.
\<close>

theorem fill_across_write_is_stale:
  "\<exists>ms1 ms2 ms3 ms4 sr1 sr2 sr3 sr4.
     get_or_fetch ref_stack None ''prod-001'' (im_default, empty_redis []) = (Ok (shirt, False), ms1, sr1) \<and>
     cached_UpdateStock ref_stack None ''prod-001'' 8 sr1 = (Ok (shirt\<lparr>Stock := 50\<rparr>), ms2, sr2) \<and>
     fill ref_stack None shirt sr2 = (ms3, sr3) \<and>
     cached_GetByID ref_stack None ''prod-001'' sr3 = (Ok shirt, ms4, sr4)"
proof -
  let ?r = "empty_redis []" and ?r' = "\<lparr>rr_table = [shirt_entry], rr_script = []\<rparr>"
  obtain ms1 where get1: "get_or_fetch ref_stack None ''prod-001'' (im_default, ?r) =
      (Ok (shirt, False), ms1, (im_default, ?r))"
    by (simp add: get_or_fetch_def empty_redis_def ref_get_miss rr_next_def rr_store_def im_GetByID_def
        shirt_lookup)
  obtain ms2 where up: "cached_UpdateStock ref_stack None ''prod-001'' 8 (im_default, ?r) =
      (Ok (shirt\<lparr>Stock := 50\<rparr>), ms2, (sold, ?r))"
    by (simp add: cached_UpdateStock_def im_shirt_update and_invalidate_def DeleteProduct_def empty_redis_def
        ref_redis_client_def [THEN arg_cong [where f = r_Del]] rr_next_def rr_drop_def
        invalidateListCache_def scan_no_pages)
  obtain ms3 where fill: "fill ref_stack None shirt (sold, ?r) = (ms3, (sold, ?r'))"
    by (simp add: fill_def empty_redis_def ref_set rr_next_def)
  obtain ms4 where get2: "cached_GetByID ref_stack None ''prod-001'' (sold, ?r') = (Ok shirt, ms4, (sold, ?r'))"
    by (simp add: cached_GetByID_def get_or_fetch_def with_cache_duration_def
        ref_get_hit [of _ ?r' _ shirt] rr_next_def rr_store_def utf8_shirt)
  from get1 up fill get2 show ?thesis by (intro exI conjI)
qed

end
