(* ===== verification/Logger.thy ===== *)
theory Logger
  imports Domain
begin

section \<open>The runtime logger and its level\<close>

text \<open>
  \<open>internal/observability/logger.go\<close>. What is modelled of a logger is its fixed attributes and
  its level variable, which the admin handler reads and sets while the program runs; the records
  it writes are not. The level of a record decides whether it is written: \<open>level_enabled\<close>.
\<close>

datatype slog_level = LevelDebug | LevelInfo | LevelWarn | LevelError

fun level_value :: "slog_level \<Rightarrow> int" where
  "level_value LevelDebug = - 4"
| "level_value LevelInfo = 0"
| "level_value LevelWarn = 4"
| "level_value LevelError = 8"

text \<open>\<open>slog.Level\<close> is an integer; the four levels are ordered by their values.\<close>

instantiation slog_level :: linorder
begin

definition less_eq_slog_level :: "slog_level \<Rightarrow> slog_level \<Rightarrow> bool" where
  "less_eq_slog_level a b \<longleftrightarrow> level_value a \<le> level_value b"

definition less_slog_level :: "slog_level \<Rightarrow> slog_level \<Rightarrow> bool" where
  "less_slog_level a b \<longleftrightarrow> level_value a < level_value b"

instance
proof
  fix a b c :: slog_level
  show "a < b \<longleftrightarrow> a \<le> b \<and> \<not> b \<le> a"
    by (auto simp: less_eq_slog_level_def less_slog_level_def)
  show "a \<le> a" by (simp add: less_eq_slog_level_def)
  show "a \<le> b \<Longrightarrow> b \<le> c \<Longrightarrow> a \<le> c" by (simp add: less_eq_slog_level_def)
  show "a \<le> b \<Longrightarrow> b \<le> a \<Longrightarrow> a = b"
    by (cases a; cases b) (simp_all add: less_eq_slog_level_def)
  show "a \<le> b \<or> b \<le> a" by (auto simp: less_eq_slog_level_def)
qed

end

text \<open>\<open>Level.String()\<close>.\<close>

fun level_string :: "slog_level \<Rightarrow> string" where
  "level_string LevelDebug = ''DEBUG''"
| "level_string LevelInfo = ''INFO''"
| "level_string LevelWarn = ''WARN''"
| "level_string LevelError = ''ERROR''"

definition parseLevel :: "string \<Rightarrow> slog_level" where
  "parseLevel v =
     (let v = to_lower (trim_space v)
      in if v = ''debug'' then LevelDebug
         else if v = ''warn'' \<or> v = ''warning'' then LevelWarn
         else if v = ''error'' then LevelError
         else LevelInfo)"

subsection \<open>RuntimeLogger\<close>

record logger_options =
  opt_Service :: string
  opt_Env :: string
  opt_Version :: string
  opt_Level :: string

text \<open>A \<open>RuntimeLogger\<close>; its level is a pointer to a variable, nil in the zero value.\<close>

record runtime_logger =
  rl_attrs :: "(string \<times> string) list"
  rl_level :: "slog_level option"

definition NewLogger :: "logger_options \<Rightarrow> runtime_logger" where
  "NewLogger opts =
     \<lparr>rl_attrs = [(''service'', opt_Service opts), (''env'', opt_Env opts), (''version'', opt_Version opts)],
      rl_level = Some (parseLevel (opt_Level opts))\<rparr>"

text \<open>The methods have a pointer receiver, nil being \<open>None\<close>.\<close>

definition SetLevel :: "runtime_logger option \<Rightarrow> string \<Rightarrow> go_error option \<times> runtime_logger option" where
  "SetLevel r level =
     (case r of
        None \<Rightarrow> (Some (Plain ''logger is not initialized''), r)
      | Some l \<Rightarrow>
          if rl_level l = None then (Some (Plain ''logger is not initialized''), r)
          else (None, Some (l\<lparr>rl_level := Some (parseLevel level)\<rparr>)))"

definition logger_Level :: "runtime_logger option \<Rightarrow> slog_level" where
  "logger_Level r =
     (case r of None \<Rightarrow> LevelInfo | Some l \<Rightarrow> (case rl_level l of None \<Rightarrow> LevelInfo | Some v \<Rightarrow> v))"

text \<open>The process-wide default logger.\<close>

definition SetDefaultLogger :: "runtime_logger option \<Rightarrow> runtime_logger \<Rightarrow> runtime_logger" where
  "SetDefaultLogger l d = (case l of None \<Rightarrow> d | Some l \<Rightarrow> l)"

text \<open>The handler made by \<open>NewLogger\<close> writes a record when its level is at least the variable's.\<close>

definition level_enabled :: "runtime_logger option \<Rightarrow> slog_level \<Rightarrow> bool" where
  "level_enabled r lv \<longleftrightarrow> logger_Level r \<le> lv"

definition logger_ready :: "runtime_logger option \<Rightarrow> bool" where
  "logger_ready r \<longleftrightarrow> (\<exists>l. r = Some l \<and> rl_level l \<noteq> None)"

lemma logger_ready_New [simp]: "logger_ready (Some (NewLogger opts))"
  by (simp add: logger_ready_def NewLogger_def)

lemma SetLevel_ready:
  "logger_ready r \<Longrightarrow> \<exists>r'. SetLevel r v = (None, r') \<and> logger_ready r' \<and> logger_Level r' = parseLevel v"
  by (auto simp: logger_ready_def SetLevel_def logger_Level_def)

lemma SetLevel_not_ready: "\<not> logger_ready r \<Longrightarrow> SetLevel r v = (Some (Plain ''logger is not initialized''), r)"
  by (auto simp: logger_ready_def SetLevel_def split: option.splits)

lemma parse_level_string: "parseLevel (level_string l) = l"
  by (cases l) (simp, code_simp)+

text \<open>
  The level round trip. Whatever text is set, the level read afterwards is a level whose own
  text sets it again; a record is written from then on exactly when its level is at least that;
  and a text that is none of the names, in any case and with any white space around, is INFO.
\<close>

theorem level_roundtrip:
  assumes "logger_ready r"
  shows "\<exists>r'. SetLevel r v = (None, r') \<and>
    SetLevel r' (level_string (logger_Level r')) = (None, r') \<and>
    (\<forall>lv. level_enabled r' lv \<longleftrightarrow> parseLevel v \<le> lv) \<and>
    (to_lower (trim_space v) \<notin> {''debug'', ''warn'', ''warning'', ''error''} \<longrightarrow>
       logger_Level r' = LevelInfo)"
proof -
  obtain l lv0 where r: "r = Some l" "rl_level l = Some lv0"
    using assms by (auto simp: logger_ready_def)
  show ?thesis
    by (rule exI [of _ "Some (l\<lparr>rl_level := Some (parseLevel v)\<rparr>)"])
       (simp add: r SetLevel_def logger_Level_def parse_level_string level_enabled_def,
        simp add: parseLevel_def Let_def)
qed

theorem level_roundtrip_witness:
  "\<exists>r'. SetLevel (Some (NewLogger \<lparr>opt_Service = ''catalog-service'', opt_Env = ''local'',
        opt_Version = ''dev'', opt_Level = ''info''\<rparr>)) '' Warning '' = (None, r') \<and>
     logger_Level r' = LevelWarn \<and> \<not> level_enabled r' LevelInfo"
proof -
  have "parseLevel '' Warning '' = LevelWarn" by code_simp
  moreover have "\<not> LevelWarn \<le> LevelInfo"
    by (simp add: less_eq_slog_level_def)
  ultimately show ?thesis
    using level_roundtrip [OF logger_ready_New, of "\<lparr>opt_Service = ''catalog-service'', opt_Env = ''local'',
        opt_Version = ''dev'', opt_Level = ''info''\<rparr>" "'' Warning ''"]
      SetLevel_ready [OF logger_ready_New, of "\<lparr>opt_Service = ''catalog-service'', opt_Env = ''local'',
        opt_Version = ''dev'', opt_Level = ''info''\<rparr>" "'' Warning ''"]
    by auto
qed

end
