(* ===== verification/Http.thy ===== *)
theory Http
  imports Product_Json Service Logger In_Memory
begin

section \<open>The HTTP admin API\<close>

text \<open>
  \<open>internal/transport/http/v1\<close>: \<open>router.go\<close>, \<open>handlers/catalog_admin.go\<close>, \<open>admin.go\<close>,
  \<open>health.go\<close> and \<open>contracts/ports.go\<close>. A request is its method, decoded path, parsed query,
  body and context; a response its status, headers and body. A panic of a handler is \<open>Panic\<close>
  (\<open>net/http\<close> then drops the connection). The state is the service's and the runtime logger,
  which the log-level handler changes. The Prometheus handler and the readiness checker's
  clients are parameters.
\<close>

record http_request =
  rq_Method :: string
  rq_Path :: string
  rq_Query :: "(string \<times> string) list"
  rq_Body :: string
  rq_Ctx :: context_err

record http_response =
  rs_Status :: nat
  rs_Header :: "(string \<times> string) list"
  rs_Body :: string

type_synonym 's http_state = "'s \<times> runtime_logger option"
type_synonym 's http_result = "http_response result \<times> metric_event list \<times> 's http_state"

abbreviation StatusOK :: nat where "StatusOK \<equiv> 200"
abbreviation StatusCreated :: nat where "StatusCreated \<equiv> 201"
abbreviation StatusMovedPermanently :: nat where "StatusMovedPermanently \<equiv> 301"
abbreviation StatusBadRequest :: nat where "StatusBadRequest \<equiv> 400"
abbreviation StatusNotFound :: nat where "StatusNotFound \<equiv> 404"
abbreviation StatusMethodNotAllowed :: nat where "StatusMethodNotAllowed \<equiv> 405"
abbreviation StatusConflict :: nat where "StatusConflict \<equiv> 409"
abbreviation StatusUnprocessableEntity :: nat where "StatusUnprocessableEntity \<equiv> 422"
abbreviation StatusInternalServerError :: nat where "StatusInternalServerError \<equiv> 500"
abbreviation StatusServiceUnavailable :: nat where "StatusServiceUnavailable \<equiv> 503"

subsection \<open>Writing responses\<close>

text \<open>An \<open>Encoder\<close> writes what \<open>Marshal\<close> does and a newline; the keys of a map are sorted.\<close>

definition writeJSON :: "nat \<Rightarrow> json \<Rightarrow> http_response" where
  "writeJSON status payload =
     \<lparr>rs_Status = status, rs_Header = [(''Content-Type'', ''application/json'')],
      rs_Body = print_json payload @ [CHR 0x0A]\<rparr>"

definition writeError :: "nat \<Rightarrow> string \<Rightarrow> http_response" where
  "writeError status msg = writeJSON status (JObj [(''error'', JStr msg)])"

text \<open>\<open>http.Error\<close>.\<close>

definition http_Error :: "string \<Rightarrow> nat \<Rightarrow> http_response" where
  "http_Error msg code =
     \<lparr>rs_Status = code,
      rs_Header = [(''Content-Type'', ''text/plain; charset=utf-8''), (''X-Content-Type-Options'', ''nosniff'')],
      rs_Body = msg @ [CHR 0x0A]\<rparr>"

subsection \<open>Reading request bodies\<close>

text \<open>\<open>json.NewDecoder(body).Decode(&req)\<close>: the first value of the body, decoded into the struct.\<close>

definition decode_body :: "(json \<Rightarrow> 'a option) \<Rightarrow> string \<Rightarrow> 'a option" where
  "decode_body dec body = Option.bind (json_decode body) dec"

definition create_field :: "string \<Rightarrow> json \<Rightarrow> create_cmd \<Rightarrow> create_cmd option" where
  "create_field k j c =
     (if k = ''sku'' then map_option (\<lambda>x. c\<lparr>cSKU := x\<rparr>) (decode_string j)
      else if k = ''name'' then map_option (\<lambda>x. c\<lparr>cName := x\<rparr>) (decode_string j)
      else if k = ''description'' then map_option (\<lambda>x. c\<lparr>cDescription := x\<rparr>) (decode_string j)
      else if k = ''price_cents'' then map_option (\<lambda>x. c\<lparr>cPriceCents := x\<rparr>) (decode_int j)
      else if k = ''currency'' then map_option (\<lambda>x. c\<lparr>cCurrency := x\<rparr>) (decode_string j)
      else if k = ''stock'' then map_option (\<lambda>x. c\<lparr>cStock := x\<rparr>) (decode_int j)
      else Some c)"

definition decode_create :: "json \<Rightarrow> create_cmd option" where
  "decode_create = decode_struct create_field
     \<lparr>cSKU = [], cName = [], cDescription = [], cPriceCents = 0, cCurrency = [], cStock = 0\<rparr>"

text \<open>A pointer field: \<open>null\<close> makes it nil, also after another value for the same key.\<close>

fun decode_ptr :: "(json \<Rightarrow> 'a option) \<Rightarrow> json \<Rightarrow> 'a option option" where
  "decode_ptr dec JNull = Some None"
| "decode_ptr dec j = map_option Some (dec j)"

definition update_field :: "string \<Rightarrow> json \<Rightarrow> update_cmd \<Rightarrow> update_cmd option" where
  "update_field k j c =
     (if k = ''name'' then map_option (\<lambda>x. c\<lparr>uName := x\<rparr>) (decode_ptr decode_string j)
      else if k = ''description'' then map_option (\<lambda>x. c\<lparr>uDescription := x\<rparr>) (decode_ptr decode_string j)
      else if k = ''price_cents'' then map_option (\<lambda>x. c\<lparr>uPriceCents := x\<rparr>) (decode_ptr decode_int j)
      else if k = ''active'' then map_option (\<lambda>x. c\<lparr>uActive := x\<rparr>) (decode_ptr decode_bool j)
      else Some c)"

fun decode_update_members :: "(string \<times> json) list \<Rightarrow> update_cmd \<Rightarrow> update_cmd option" where
  "decode_update_members [] c = Some c"
| "decode_update_members ((k, j) # ms) c =
     (case update_field (fold_key k) j c of
        None \<Rightarrow> None
      | Some c' \<Rightarrow> decode_update_members ms c')"

fun decode_update :: "string \<Rightarrow> json \<Rightarrow> update_cmd option" where
  "decode_update i (JObj ms) =
     decode_update_members ms
       \<lparr>uID = i, uName = None, uDescription = None, uPriceCents = None, uActive = None\<rparr>"
| "decode_update i JNull =
     Some \<lparr>uID = i, uName = None, uDescription = None, uPriceCents = None, uActive = None\<rparr>"
| "decode_update i _ = None"

definition stock_field :: "string \<Rightarrow> json \<Rightarrow> int32 \<Rightarrow> int32 option" where
  "stock_field k j d = (if k = ''delta'' then decode_int j else Some d)"

definition decode_stock :: "json \<Rightarrow> int32 option" where
  "decode_stock = decode_struct stock_field 0"

subsection \<open>The catalog admin handler\<close>

text \<open>
  The service is an interface holding a pointer, and the logger a pointer; calling through a nil
  one panics. \<open>respond\<close> is the common end: the error of the service becomes a status by the
  switch of the method, whose default is logged and hidden behind \<open>internal error\<close>.
\<close>

record 's catalog_admin =
  adm_svc :: "'s catalog_service option option"
  adm_logger :: "logger option"

text \<open>\<open>productResponse\<close> has the fields and keys of the cache's struct.\<close>

definition toProductResponse :: "product \<Rightarrow> json" where
  "toProductResponse p =
     JObj [(''id'', JStr (ID p)), (''sku'', JStr (SKU p)), (''name'', JStr (Name p)),
           (''description'', JStr (Description p)),
           (''price_cents'', JNum (itoa (sint (PriceCents p)))),
           (''currency'', JStr (Currency p)), (''stock'', JNum (itoa (sint (Stock p)))),
           (''active'', JBool (Active p))]"

lemma toProductResponse [simp]: "toProductResponse p = product_json p"
  by (simp add: toProductResponse_def product_json_def)

definition respond ::
  "'s catalog_admin \<Rightarrow> nat \<Rightarrow> (go_error \<Rightarrow> nat option) \<Rightarrow>
     product result \<times> metric_event list \<times> 's \<Rightarrow> http_response result \<times> metric_event list \<times> 's"
where
  "respond h success status res =
     (case res of
        (Ok p, ms, s) \<Rightarrow> (Ok (writeJSON success (toProductResponse p)), ms, s)
      | (Panic m, ms, s) \<Rightarrow> (Panic m, ms, s)
      | (Err e, ms, s) \<Rightarrow>
          (case status e of
             Some code \<Rightarrow> (Ok (writeError code (error_text e)), ms, s)
           | None \<Rightarrow>
               if adm_logger h = None then (nil_dereference, ms, s)
               else (Ok (writeError StatusInternalServerError ''internal error''), ms, s)))"

definition create_status :: "go_error \<Rightarrow> nat option" where
  "create_status e =
     (if errors_is e ErrProductAlreadyExists then Some StatusConflict
      else if errors_is e ErrInvalidProduct then Some StatusBadRequest
      else None)"

definition update_status :: "go_error \<Rightarrow> nat option" where
  "update_status e =
     (if errors_is e ErrProductNotFound then Some StatusNotFound
      else if errors_is e ErrInvalidProduct then Some StatusBadRequest
      else None)"

definition stock_status :: "go_error \<Rightarrow> nat option" where
  "stock_status e =
     (if errors_is e ErrProductNotFound then Some StatusNotFound
      else if errors_is e ErrInsufficientStock then Some StatusUnprocessableEntity
      else None)"

definition http_CreateProduct ::
  "'s catalog_admin \<Rightarrow> http_request \<Rightarrow> 's \<Rightarrow> http_response result \<times> metric_event list \<times> 's"
where
  "http_CreateProduct h rq s =
     (case decode_body decode_create (rq_Body rq) of
        None \<Rightarrow> (Ok (writeError StatusBadRequest ''invalid request body''), [], s)
      | Some cmd \<Rightarrow>
          (case adm_svc h of
             None \<Rightarrow> (nil_dereference, [], s)
           | Some svc \<Rightarrow>
               respond h StatusCreated create_status (CreateProduct svc (rq_Ctx rq) cmd s)))"

definition extractProductID :: "string \<Rightarrow> string" where
  "extractProductID path =
     (let parts = split_on2 CHR ''/'' (trim_prefix path ''/admin/products/'')
      in if parts = [] then [] else hd parts)"

definition http_UpdateProduct ::
  "'s catalog_admin \<Rightarrow> http_request \<Rightarrow> 's \<Rightarrow> http_response result \<times> metric_event list \<times> 's"
where
  "http_UpdateProduct h rq s =
     (let productID = extractProductID (rq_Path rq) in
      if productID = [] then (Ok (writeError StatusBadRequest ''product id is required''), [], s)
      else
        (case decode_body (decode_update productID) (rq_Body rq) of
           None \<Rightarrow> (Ok (writeError StatusBadRequest ''invalid request body''), [], s)
         | Some cmd \<Rightarrow>
             (case adm_svc h of
                None \<Rightarrow> (nil_dereference, [], s)
              | Some svc \<Rightarrow> respond h StatusOK update_status (UpdateProduct svc (rq_Ctx rq) cmd s))))"

definition http_UpdateStock ::
  "'s catalog_admin \<Rightarrow> http_request \<Rightarrow> 's \<Rightarrow> http_response result \<times> metric_event list \<times> 's"
where
  "http_UpdateStock h rq s =
     (let parts = split_on CHR ''/'' (trim_prefix (rq_Path rq) ''/admin/products/'') in
      if length parts < 1 \<or> parts ! 0 = []
      then (Ok (writeError StatusBadRequest ''product id is required''), [], s)
      else
        (case decode_body decode_stock (rq_Body rq) of
           None \<Rightarrow> (Ok (writeError StatusBadRequest ''invalid request body''), [], s)
         | Some delta \<Rightarrow>
             (case adm_svc h of
                None \<Rightarrow> (nil_dereference, [], s)
              | Some svc \<Rightarrow>
                  respond h StatusOK stock_status (UpdateStock svc (rq_Ctx rq) (parts ! 0) delta s))))"

subsection \<open>Health, readiness and the log level\<close>

definition http_Health :: "http_request \<Rightarrow> http_response" where
  "http_Health rq =
     (if rq_Method rq \<noteq> ''GET'' then http_Error ''method not allowed'' StatusMethodNotAllowed
      else writeJSON StatusOK (JObj [(''status'', JStr ''ok'')]))"

definition http_Ready ::
  "(context_err \<Rightarrow> 's \<Rightarrow> go_error option \<times> 's) option \<Rightarrow> http_request \<Rightarrow> 's \<Rightarrow> http_response \<times> 's"
where
  "http_Ready checker rq s =
     (if rq_Method rq \<noteq> ''GET'' then (http_Error ''method not allowed'' StatusMethodNotAllowed, s)
      else
        (case checker of
           None \<Rightarrow> (http_Error ''readiness checker is not initialized'' StatusInternalServerError, s)
         | Some check \<Rightarrow>
             (case check (rq_Ctx rq) s of
                (Some e, s) \<Rightarrow>
                  (writeJSON StatusServiceUnavailable
                     (JObj [(''error'', JStr (error_text e)), (''status'', JStr ''not_ready'')]), s)
              | (None, s) \<Rightarrow> (writeJSON StatusOK (JObj [(''status'', JStr ''ready'')]), s))))"

text \<open>\<open>url.Values.Get\<close>: the first value under the key, or the empty string.\<close>

definition query_get :: "(string \<times> string) list \<Rightarrow> string \<Rightarrow> string" where
  "query_get q k = (case map_of q k of None \<Rightarrow> [] | Some v \<Rightarrow> v)"

text \<open>The controller is an interface, nil or holding the pointer to the runtime logger.\<close>

definition level_body :: "runtime_logger option \<Rightarrow> string" where
  "level_body lg =
     [CHR ''{'', CHR 0x22] @ ''level'' @ [CHR 0x22, CHR '':'', CHR 0x22] @
     level_string (logger_Level lg) @ [CHR 0x22, CHR ''}'']"

definition http_LogLevel ::
  "bool \<Rightarrow> http_request \<Rightarrow> runtime_logger option \<Rightarrow> http_response \<times> runtime_logger option"
where
  "http_LogLevel has_controller rq lg =
     (if rq_Method rq \<noteq> ''GET'' \<and> rq_Method rq \<noteq> ''POST''
      then (http_Error ''method not allowed'' StatusMethodNotAllowed, lg)
      else if \<not> has_controller
      then (http_Error ''logger is not initialized'' StatusInternalServerError, lg)
      else
        (let level = query_get (rq_Query rq) ''level'';
             set = (if level \<noteq> [] then SetLevel lg level else (None, lg))
         in case set of
              (Some e, lg) \<Rightarrow> (http_Error (error_text e) StatusBadRequest, lg)
            | (None, lg) \<Rightarrow>
                (\<lparr>rs_Status = StatusOK, rs_Header = [(''Content-Type'', ''application/json'')],
                  rs_Body = level_body lg\<rparr>, lg)))"

subsection \<open>The router\<close>

text \<open>
  \<open>http.ServeMux\<close> redirects a path that is not in canonical form (empty, \<open>.\<close> and \<open>..\<close> segments
  removed, a trailing slash kept), unless the method is CONNECT; then an exact pattern matches,
  or the pattern that ends in a slash, by prefix. The text and the query of a redirect are left
  out.
\<close>

fun clean_segments :: "string list \<Rightarrow> string list \<Rightarrow> string list" where
  "clean_segments acc [] = rev acc"
| "clean_segments acc (s # ss) =
     (if s = [] \<or> s = ''.'' then clean_segments acc ss
      else if s = ''..'' then clean_segments (tl acc) ss
      else clean_segments (s # acc) ss)"

definition clean_path :: "string \<Rightarrow> string" where
  "clean_path p =
     (if p = [] then ''/''
      else
        let p = (if hd p = CHR ''/'' then p else CHR ''/'' # p);
            np = CHR ''/'' # join_with ''/'' (clean_segments [] (split_on CHR ''/'' p))
        in if last p = CHR ''/'' \<and> np \<noteq> ''/'' then np @ ''/'' else np)"

record 's router_deps =
  dep_LogLevelController :: bool
  dep_ReadinessChecker :: "(context_err \<Rightarrow> 's \<Rightarrow> go_error option \<times> 's) option"
  dep_CatalogService :: "'s catalog_service option option"
  dep_Logger :: "logger option"
  dep_promhttp :: "http_request \<Rightarrow> http_response"

definition route_products ::
  "'s catalog_admin \<Rightarrow> http_request \<Rightarrow> 's \<Rightarrow> http_response result \<times> metric_event list \<times> 's"
where
  "route_products h rq s =
     (if rq_Method rq = ''POST'' then http_CreateProduct h rq s
      else (Ok (http_Error ''method not allowed'' StatusMethodNotAllowed), [], s))"

definition route_product ::
  "'s catalog_admin \<Rightarrow> http_request \<Rightarrow> 's \<Rightarrow> http_response result \<times> metric_event list \<times> 's"
where
  "route_product h rq s =
     (if suffix ''/stock'' (rq_Path rq) \<and> rq_Method rq = ''POST'' then http_UpdateStock h rq s
      else if rq_Method rq = ''PATCH'' then http_UpdateProduct h rq s
      else (Ok (http_Error ''method not allowed'' StatusMethodNotAllowed), [], s))"

definition with_logger ::
  "runtime_logger option \<Rightarrow> http_response result \<times> metric_event list \<times> 's \<Rightarrow> 's http_result"
where
  "with_logger lg res = (case res of (r, ms, s) \<Rightarrow> (r, ms, (s, lg)))"

definition http_serve :: "'s router_deps \<Rightarrow> http_request \<Rightarrow> 's http_state \<Rightarrow> 's http_result" where
  "http_serve deps rq st =
     (case st of
        (s, lg) \<Rightarrow>
          (let h = \<lparr>adm_svc = dep_CatalogService deps, adm_logger = dep_Logger deps\<rparr>;
               path = rq_Path rq
           in if rq_Method rq \<noteq> ''CONNECT'' \<and> clean_path path \<noteq> path then
                (Ok \<lparr>rs_Status = StatusMovedPermanently, rs_Header = [(''Location'', clean_path path)],
                     rs_Body = []\<rparr>, [], (s, lg))
              else if path = ''/health'' then (Ok (http_Health rq), [], (s, lg))
              else if path = ''/ready'' then
                (case http_Ready (dep_ReadinessChecker deps) rq s of (r, s) \<Rightarrow> (Ok r, [], (s, lg)))
              else if path = ''/metrics'' then (Ok (dep_promhttp deps rq), [], (s, lg))
              else if path = ''/admin/log-level'' then
                (case http_LogLevel (dep_LogLevelController deps) rq lg of (r, lg) \<Rightarrow> (Ok r, [], (s, lg)))
              else if path = ''/admin/products'' then with_logger lg (route_products h rq s)
              else if prefix ''/admin/products/'' path then with_logger lg (route_product h rq s)
              else (Ok (http_Error ''404 page not found'' StatusNotFound), [], (s, lg))))"

subsection \<open>Paths\<close>

text \<open>The id of a path: one segment that survives the router.\<close>

definition path_id :: "string \<Rightarrow> bool" where
  "path_id i \<longleftrightarrow> i \<noteq> [] \<and> CHR ''/'' \<notin> set i \<and> i \<noteq> ''.'' \<and> i \<noteq> ''..''"

definition product_path :: "string \<Rightarrow> string" where
  "product_path i = ''/admin/products/'' @ i"

definition stock_path :: "string \<Rightarrow> string" where
  "stock_path i = ''/admin/products/'' @ i @ ''/stock''"

lemma split_product_path: "path_id i \<Longrightarrow> split_on CHR ''/'' (product_path i) = [[], ''admin'', ''products'', i]"
  using split_on_none [of "CHR ''/''" i] by (simp add: path_id_def product_path_def)

lemma split_stock_path:
  "path_id i \<Longrightarrow> split_on CHR ''/'' (stock_path i) = [[], ''admin'', ''products'', i, ''stock'']"
  using split_on_append [of "CHR ''/''" i "''stock''"] by (simp add: path_id_def stock_path_def)

lemma clean_paths [simp]:
  "path_id i \<Longrightarrow> clean_path (product_path i) = product_path i"
  "path_id i \<Longrightarrow> clean_path (stock_path i) = stock_path i"
  "clean_path ''/admin/products'' = ''/admin/products''"
  by (auto simp: clean_path_def split_product_path split_stock_path Let_def)
    (auto simp: product_path_def stock_path_def path_id_def dest: last_in_set)

lemma routed_paths [simp]:
  "prefix ''/admin/products/'' (stock_path i)" "suffix ''/stock'' (stock_path i)"
  "prefix ''/admin/products/'' (product_path i)"
  "stock_path i \<noteq> ''/health''" "stock_path i \<noteq> ''/ready''" "stock_path i \<noteq> ''/metrics''"
  "stock_path i \<noteq> ''/admin/log-level''" "stock_path i \<noteq> ''/admin/products''"
  "product_path i \<noteq> ''/health''" "product_path i \<noteq> ''/ready''" "product_path i \<noteq> ''/metrics''"
  "product_path i \<noteq> ''/admin/log-level''" "product_path i \<noteq> ''/admin/products''"
  by (simp_all add: stock_path_def product_path_def suffix_def)

lemma trim_paths [simp]:
  "trim_prefix (product_path i) ''/admin/products/'' = i"
  "trim_prefix (stock_path i) ''/admin/products/'' = i @ ''/stock''"
  unfolding product_path_def stock_path_def by (rule trim_prefix_append)+

lemma extractProductID_path: "path_id i \<Longrightarrow> extractProductID (product_path i) = i"
  using hd_split_on2 [of "CHR ''/''" i]
  by (simp add: extractProductID_def path_id_def Let_def)
    (metis (mono_tags, lifting) takeWhile_eq_all_conv)

lemma stock_path_parts:
  "path_id i \<Longrightarrow> split_on CHR ''/'' (i @ ''/stock'') = [i, ''stock'']"
  using split_on_append [of "CHR ''/''" i "''stock''"] by (simp add: path_id_def)

subsection \<open>Bodies\<close>

definition create_json :: "create_cmd \<Rightarrow> json" where
  "create_json c =
     JObj [(''sku'', JStr (cSKU c)), (''name'', JStr (cName c)), (''description'', JStr (cDescription c)),
           (''price_cents'', JNum (itoa (sint (cPriceCents c)))), (''currency'', JStr (cCurrency c)),
           (''stock'', JNum (itoa (sint (cStock c))))]"

definition stock_json :: "int32 \<Rightarrow> json" where
  "stock_json d = JObj [(''delta'', JNum (itoa (sint d)))]"

definition utf8_create :: "create_cmd \<Rightarrow> bool" where
  "utf8_create c \<longleftrightarrow> valid_utf8 (cSKU c) \<and> valid_utf8 (cName c) \<and> valid_utf8 (cDescription c) \<and>
     valid_utf8 (cCurrency c)"

lemma delta_key [simp]: "valid_utf8 ''delta''" "fold_key ''delta'' = ''delta''"
  by (simp add: valid_utf8_ascii byte_def, code_simp)

lemma json_decode_print: "wf_json j \<Longrightarrow> ends_number t \<Longrightarrow> json_decode (print_json j @ t) = Some j"
  using parse_first_print [of j t] wf_json_clean(1) [of j] by (simp add: json_decode_def)

lemma create_field_simps:
  "create_field ''sku'' (JStr x) c = Some (c\<lparr>cSKU := x\<rparr>)"
  "create_field ''name'' (JStr x) c = Some (c\<lparr>cName := x\<rparr>)"
  "create_field ''description'' (JStr x) c = Some (c\<lparr>cDescription := x\<rparr>)"
  "create_field ''price_cents'' (JNum (itoa (sint n))) c = Some (c\<lparr>cPriceCents := n\<rparr>)"
  "create_field ''currency'' (JStr x) c = Some (c\<lparr>cCurrency := x\<rparr>)"
  "create_field ''stock'' (JNum (itoa (sint k))) c = Some (c\<lparr>cStock := k\<rparr>)"
  by (simp_all add: create_field_def decode_int_itoa del: decode_int.simps)

lemma decode_create_json: "decode_create (create_json c) = Some c"
  by (simp add: decode_create_def create_json_def create_field_simps del: fold_key.simps)

lemma decode_stock_json: "decode_stock (stock_json d) = Some d"
  by (simp add: decode_stock_def stock_json_def stock_field_def decode_int_itoa
      del: fold_key.simps decode_int.simps)

lemma wf_create_json: "utf8_create c \<Longrightarrow> wf_json (create_json c)"
  by (auto simp: utf8_create_def create_json_def)

lemma wf_stock_json: "wf_json (stock_json d)"
  by (auto simp: stock_json_def)

lemma decode_create_body: "utf8_create c \<Longrightarrow> decode_body decode_create (print_json (create_json c)) = Some c"
  using json_decode_print [OF wf_create_json, of c "[]"] by (simp add: decode_body_def decode_create_json)

lemma decode_stock_body: "decode_body decode_stock (print_json (stock_json d)) = Some d"
  using json_decode_print [OF wf_stock_json, of "[]" d] by (simp add: decode_body_def decode_stock_json)

subsection \<open>Safety of the router\<close>

text \<open>The dependencies \<open>app.New\<close> passes, over a repository.\<close>

definition deps_over :: "'s product_repository \<Rightarrow> ('s \<Rightarrow> bool) \<Rightarrow> 's router_deps \<Rightarrow> bool" where
  "deps_over repo invar deps \<longleftrightarrow>
     dep_CatalogService deps = Some (service_of repo) \<and> dep_Logger deps = Some Logger \<and>
     (\<forall>check ctx s e s'. dep_ReadinessChecker deps = Some check \<longrightarrow> check ctx s = (e, s') \<longrightarrow>
        invar s \<longrightarrow> invar s')"

definition http_statuses :: "nat set" where
  "http_statuses =
     {StatusOK, StatusCreated, StatusMovedPermanently, StatusBadRequest, StatusNotFound,
      StatusMethodNotAllowed, StatusConflict, StatusUnprocessableEntity,
      StatusInternalServerError, StatusServiceUnavailable}"

definition handler_ok ::
  "('s \<Rightarrow> bool) \<Rightarrow> http_response result \<times> metric_event list \<times> 's \<Rightarrow> bool"
where
  "handler_ok invar res \<longleftrightarrow>
     (case res of (r, ms, s) \<Rightarrow>
        invar s \<and> list_all well_labelled ms \<and> ok_or_err (\<lambda>resp. rs_Status resp \<in> http_statuses) r \<and>
        (\<exists>resp. r = Ok resp))"

lemma response_status [simp]:
  "rs_Status (writeJSON st j) = st" "rs_Status (writeError st msg) = st" "rs_Status (http_Error msg st) = st"
  by (simp_all add: writeJSON_def writeError_def http_Error_def)

lemma statuses_in [simp]:
  "create_status e = Some st \<Longrightarrow> st \<in> http_statuses" "update_status e = Some st \<Longrightarrow> st \<in> http_statuses"
  "stock_status e = Some st \<Longrightarrow> st \<in> http_statuses"
  by (auto simp: create_status_def update_status_def stock_status_def http_statuses_def split: if_splits)

lemma respond_ok:
  assumes "runs_safe invar well_labelled product_wf call" and "invar s" and "adm_logger h = Some Logger"
    and "success \<in> http_statuses" and "\<And>e st. status e = Some st \<Longrightarrow> st \<in> http_statuses"
  shows "handler_ok invar (respond h success status (call s))"
proof -
  obtain r ms s' where call: "call s = (r, ms, s')" by (metis prod_cases3)
  have "StatusInternalServerError \<in> http_statuses" by (simp add: http_statuses_def)
  with runs_safeD [OF assms(1,2) call] assms(3-5) call show ?thesis
    by (cases r) (auto simp: respond_def handler_ok_def split: option.splits)
qed

lemma handler_ok_const [simp]:
  "invar s \<Longrightarrow> rs_Status resp \<in> http_statuses \<Longrightarrow> handler_ok invar (Ok resp, [], s)"
  by (simp add: handler_ok_def)

lemma more_statuses [simp]:
  "StatusBadRequest \<in> http_statuses" "StatusMethodNotAllowed \<in> http_statuses" "StatusOK \<in> http_statuses"
  "StatusCreated \<in> http_statuses" "StatusNotFound \<in> http_statuses" "StatusInternalServerError \<in> http_statuses"
  "StatusServiceUnavailable \<in> http_statuses" "StatusMovedPermanently \<in> http_statuses"
  by (simp_all add: http_statuses_def)

context safe_repository
begin

lemma admin_handlers_ok:
  assumes "invar s" and "adm_svc h = Some (service_of repo)" and "adm_logger h = Some Logger"
  shows "handler_ok invar (http_CreateProduct h rq s)" and "handler_ok invar (http_UpdateProduct h rq s)"
    and "handler_ok invar (http_UpdateStock h rq s)"
proof -
  show "handler_ok invar (http_CreateProduct h rq s)"
    using assms respond_ok [OF CreateProduct_safe assms(1,3)]
    by (simp add: http_CreateProduct_def split: option.split)
  show "handler_ok invar (http_UpdateProduct h rq s)"
    using assms respond_ok [OF UpdateProduct_safe assms(1,3)]
    by (simp add: http_UpdateProduct_def Let_def split: option.split)
  show "handler_ok invar (http_UpdateStock h rq s)"
    using assms respond_ok [OF UpdateStock_service_safe assms(1,3)]
    by (simp add: http_UpdateStock_def Let_def split: option.split)
qed

lemma admin_routes_ok:
  assumes "invar s" and "adm_svc h = Some (service_of repo)" and "adm_logger h = Some Logger"
  shows "handler_ok invar (route_products h rq s)" and "handler_ok invar (route_product h rq s)"
  using assms admin_handlers_ok [OF assms] by (simp_all add: route_products_def route_product_def)

lemma http_Ready_ok:
  assumes "invar s" and "deps_over repo invar deps" and "http_Ready (dep_ReadinessChecker deps) rq s = (resp, s')"
  shows "invar s' \<and> rs_Status resp \<in> http_statuses"
  using assms by (auto simp: http_Ready_def deps_over_def split: if_splits option.splits prod.splits)

lemma http_LogLevel_ok:
  "http_LogLevel c rq lg = (resp, lg') \<Longrightarrow> rs_Status resp \<in> http_statuses"
  by (auto simp: http_LogLevel_def Let_def split: if_splits option.splits prod.splits)

lemma http_serve_safe_lemma:
  assumes inv: "invar s" and deps: "deps_over repo invar deps"
    and run: "http_serve deps rq (s, lg) = (r, ms, (s', lg'))"
  shows "invar s' \<and> list_all well_labelled ms \<and>
    (\<exists>resp. r = Ok resp \<and> (rq_Path rq = ''/metrics'' \<or> rs_Status resp \<in> http_statuses))"
proof -
  let ?h = "\<lparr>adm_svc = dep_CatalogService deps, adm_logger = dep_Logger deps\<rparr>"
  have routes: "handler_ok invar (route_products ?h rq s)" "handler_ok invar (route_product ?h rq s)"
    using admin_routes_ok [OF inv, of ?h rq] deps by (simp_all add: deps_over_def)
  have passes: "invar s' \<and> list_all well_labelled ms \<and>
      (\<exists>resp. r = Ok resp \<and> rs_Status resp \<in> http_statuses)"
    if "handler_ok invar res" "with_logger lg res = (r, ms, (s', lg'))" for res
    using that by (auto simp: handler_ok_def with_logger_def split: prod.splits)
  show ?thesis
    using run inv passes [OF routes(1)] passes [OF routes(2)] http_Ready_ok [OF inv deps] http_LogLevel_ok
    by (auto simp: http_serve_def Let_def http_Health_def split: if_splits prod.splits)
qed

end

subsection \<open>Properties\<close>

text \<open>
  C18: the router is safe. With the dependencies \<open>app.New\<close> passes, over any safe repository, every
  request (any method, path, query and body, well-formed or not) is answered: no handler panics,
  the status is one of ten (the Prometheus handler apart), each metric call fits its collector
  and the repository's invariant is kept.
\<close>

theorem http_serve_safe:
  assumes "safe_repository repo invar" and "invar s" and "deps_over repo invar deps"
    and "http_serve deps rq (s, lg) = (r, ms, (s', lg'))"
  shows "invar s' \<and> list_all well_labelled ms \<and>
    (\<exists>resp. r = Ok resp \<and> (rq_Path rq = ''/metrics'' \<or> rs_Status resp \<in> http_statuses))"
  using safe_repository.http_serve_safe_lemma [OF assms] .

definition im_deps :: "in_memory router_deps" where
  "im_deps =
     \<lparr>dep_LogLevelController = True, dep_ReadinessChecker = Some (\<lambda>ctx s. (None, s)),
      dep_CatalogService = Some (service_of in_memory_repo), dep_Logger = Some Logger,
      dep_promhttp = (\<lambda>rq. writeJSON StatusOK JNull)\<rparr>"

lemma im_deps_over: "deps_over in_memory_repo im_inv im_deps"
  by (simp add: deps_over_def im_deps_def)

abbreviation admin_request :: "string \<Rightarrow> string \<Rightarrow> string \<Rightarrow> http_request" where
  "admin_request method path body \<equiv>
     \<lparr>rq_Method = method, rq_Path = path, rq_Query = [], rq_Body = body, rq_Ctx = None\<rparr>"

theorem http_serve_safe_witness:
  "\<exists>resp ms s' lg'. http_serve im_deps (admin_request ''DELETE'' ''/admin/products/prod-001'' []) (im_default, None) =
      (Ok resp, ms, (s', lg')) \<and> im_inv s' \<and> rs_Status resp \<in> http_statuses"
proof -
  obtain r ms s' lg' where run: "http_serve im_deps (admin_request ''DELETE'' ''/admin/products/prod-001'' [])
      (im_default, None) = (r, ms, (s', lg'))"
    by (metis surj_pair)
  from http_serve_safe [OF im.safe_repository_axioms im_inv_default im_deps_over run]
  obtain resp where resp: "r = Ok resp" "rs_Status resp \<in> http_statuses" "im_inv s'"
    by auto
  from run [unfolded resp(1)] resp(2,3) show ?thesis by (intro exI conjI)
qed

text \<open>
  C20: a stock request, from the bytes of the body to the bytes of the response. A POST to
  \<open>/admin/products/{id}/stock\<close> with the JSON of a delta calls the service's \<open>UpdateStock\<close> once
  with that id and delta; its value is sent as 200 and JSON that reads back as the product, a
  missing product as 404, an insufficient stock as 422, any other error as 500 without its text.
\<close>

definition stock_response :: "product result \<Rightarrow> http_response result" where
  "stock_response r =
     (case r of
        Ok p \<Rightarrow> Ok (writeJSON StatusOK (toProductResponse p))
      | Err e \<Rightarrow> Ok (if errors_is e ErrProductNotFound then writeError StatusNotFound (error_text e)
                     else if errors_is e ErrInsufficientStock
                       then writeError StatusUnprocessableEntity (error_text e)
                     else writeError StatusInternalServerError ''internal error'')
      | Panic m \<Rightarrow> Panic m)"

lemma serve_stock:
  assumes "path_id i" and "dep_CatalogService deps = Some svc" and "dep_Logger deps = Some Logger"
    and "UpdateStock svc ctx i d s = (r, ms, s')"
  shows "http_serve deps \<lparr>rq_Method = ''POST'', rq_Path = stock_path i, rq_Query = q,
      rq_Body = print_json (stock_json d), rq_Ctx = ctx\<rparr> (s, lg) = (stock_response r, ms, (s', lg))"
proof -
  have "i \<noteq> []" using assms(1) by (simp add: path_id_def)
  with assms show ?thesis
    by (cases r) (simp_all add: http_serve_def with_logger_def route_product_def http_UpdateStock_def
        stock_path_parts decode_stock_body respond_def stock_response_def stock_status_def Let_def)
qed

lemma response_product:
  "Option.bind (json_decode (rs_Body (writeJSON st (product_json p)))) decode_product = Some (clean_product p)"
proof -
  have "parse_first (print_json (product_json p) @ [CHR 0x0A]) = Some (product_json (clean_product p), [CHR 0x0A])"
    using parse_first_print [of "product_json p" "[CHR 0x0A]"] by (simp add: ends_number_def is_digit_def byte_def)
  then show ?thesis by (simp add: writeJSON_def json_decode_def decode_product_json)
qed

theorem http_stock_request:
  assumes "path_id i" and "dep_CatalogService deps = Some svc" and "dep_Logger deps = Some Logger"
    and "UpdateStock svc ctx i d s = (r, ms, s')"
  shows "http_serve deps \<lparr>rq_Method = ''POST'', rq_Path = stock_path i, rq_Query = q,
      rq_Body = print_json (stock_json d), rq_Ctx = ctx\<rparr> (s, lg) = (stock_response r, ms, (s', lg)) \<and>
    (\<forall>p. r = Ok p \<longrightarrow>
       Option.bind (json_decode (rs_Body (writeJSON StatusOK (product_json p)))) decode_product =
         Some (clean_product p))"
  using serve_stock [OF assms] response_product by blast

theorem http_stock_request_witness:
  "\<exists>r ms s'. http_serve im_deps
      (admin_request ''POST'' (stock_path ''prod-001'') (print_json (stock_json 8))) (im_default, None) =
    (stock_response r, ms, (s', None))"
proof -
  obtain r ms s' where run: "UpdateStock (service_of in_memory_repo) None ''prod-001'' 8 im_default = (r, ms, s')"
    by (metis surj_pair)
  have "path_id ''prod-001''" by (simp add: path_id_def)
  from http_stock_request [OF this _ _ run, of im_deps "[]" None] show ?thesis
    by (simp add: im_deps_def) blast
qed

text \<open>
  C38: the service's own refusals are not told. A delta of zero is an error of the caller, and the
  service counts it as \<open>invalid_argument\<close>, but its error wraps no sentinel, so the handler
  answers 500 and \<open>internal error\<close>; over any repository, and nothing is changed.
\<close>

theorem zero_delta_is_internal_error:
  assumes "path_id i" and "\<not> blank i"
    and "dep_CatalogService deps = Some (service_of repo)" and "dep_Logger deps = Some Logger"
  shows "http_serve deps \<lparr>rq_Method = ''POST'', rq_Path = stock_path i, rq_Query = q,
      rq_Body = print_json (stock_json 0), rq_Ctx = ctx\<rparr> (s, lg) =
    (Ok (writeError StatusInternalServerError ''internal error''),
     [requests_total ''UpdateStock'' ''invalid_argument'', Observe CatalogRequestDuration [''UpdateStock'']],
     (s, lg))"
proof -
  have "UpdateStock (service_of repo) ctx i 0 s = (Err (Plain ''delta cannot be zero''),
      [requests_total ''UpdateStock'' ''invalid_argument'', Observe CatalogRequestDuration [''UpdateStock'']], s)"
    using assms(2) by (simp add: UpdateStock_def with_duration_def)
  from serve_stock [OF assms(1,3,4) this] show ?thesis
    by (simp add: stock_response_def)
qed

theorem zero_delta_is_internal_error_witness:
  "rs_Status (case fst (http_serve im_deps
      (admin_request ''POST'' (stock_path ''prod-001'') (print_json (stock_json 0))) (im_default, None))
    of Ok resp \<Rightarrow> resp) = 500"
proof -
  have nb: "\<not> blank ''prod-001''" by code_simp
  have "path_id ''prod-001''" by (simp add: path_id_def)
  from zero_delta_is_internal_error [OF this nb, of im_deps in_memory_repo "[]" None im_default None]
  show ?thesis by (simp add: im_deps_def)
qed


definition lamp :: create_cmd where
  "lamp = \<lparr>cSKU = ''SKU-LAMP-001'', cName = ''Lamp'', cDescription = ''Desk lamp'', cPriceCents = 3499,
           cCurrency = ''EUR'', cStock = 7\<rparr>"


end
