(* ===== verification/Config.thy ===== *)
theory Config
  imports Domain
begin

section \<open>Configuration\<close>

text \<open>
  \<open>internal/config/config.go\<close>: the structs, \<open>Load\<close> with its checks, and the addresses made of the
  fields. Reading and decoding the file is done by \<open>cleanenv\<close>, a parameter, as are the answers of
  \<open>os.Stat\<close> and \<open>os.Getenv\<close>. A \<open>time.Duration\<close> is its nanoseconds, an \<open>int64\<close>.
\<close>

record grpc_config =
  gc_Port :: int64
  gc_Timeout :: int64

record http_config =
  hc_Port :: int64
  hc_Timeout :: int64

record postgres_config =
  pc_Host :: string
  pc_Port :: int64
  pc_DBName :: string
  pc_User :: string
  pc_Password :: string
  pc_SSLMode :: string

record redis_config =
  rc_Host :: string
  rc_Port :: int64
  rc_Password :: string
  rc_DB :: int64
  rc_TTL :: int64

record config =
  cfg_ServiceName :: string
  cfg_Env :: string
  cfg_Version :: string
  cfg_LogLevel :: string
  cfg_ShutdownTimeout :: int64
  cfg_GRPC :: grpc_config
  cfg_HTTP :: http_config
  cfg_OTLPEndpoint :: string
  cfg_Postgres :: postgres_config
  cfg_Redis :: redis_config
  cfg_KafkaBrokers :: "string list"

definition config_Validate :: "config \<Rightarrow> go_error option" where
  "config_Validate c =
     (if cfg_ServiceName c = [] then Some (Plain ''service_name is required'')
      else if cfg_Env c = [] then Some (Plain ''env is required'')
      else if gc_Port (cfg_GRPC c) <=s 0 \<or> 65535 <s gc_Port (cfg_GRPC c)
        then Some (Plain ''grpc.port must be in range 1..65535'')
      else if hc_Port (cfg_HTTP c) <=s 0 \<or> 65535 <s hc_Port (cfg_HTTP c)
        then Some (Plain ''http.port is required'')
      else if gc_Timeout (cfg_GRPC c) <=s 0 then Some (Plain ''grpc.timeout must be > 0'')
      else if hc_Timeout (cfg_HTTP c) <=s 0 then Some (Plain ''http.timeout must be > 0'')
      else if cfg_ShutdownTimeout c <=s 0 then Some (Plain ''shutdown_timeout must be > 0'')
      else if cfg_OTLPEndpoint c = [] then Some (Plain ''otlp.endpoint is required'')
      else None)"

subsection \<open>Loading\<close>

text \<open>What \<open>os.Stat\<close> says of a path, as far as \<open>os.IsNotExist\<close> tells it apart.\<close>

datatype stat_answer = StatOk | StatNotExist | StatError

record os_env =
  os_Getenv :: "string \<Rightarrow> string"
  os_Stat :: "string \<Rightarrow> stat_answer"
  os_ReadConfig :: "string \<Rightarrow> config result"

definition Load :: "os_env \<Rightarrow> string \<Rightarrow> config result" where
  "Load os path =
     (if path = [] then Err (Plain ''config path is empty'')
      else if os_Stat os path = StatNotExist
        then Err (Plain (''config file does not exist: '' @ path))
      else
        (case os_ReadConfig os path of
           Err e \<Rightarrow> Err (Wrap ''failed to read config: '' e [])
         | Panic m \<Rightarrow> Panic m
         | Ok cfg \<Rightarrow> (case config_Validate cfg of Some e \<Rightarrow> Err e | None \<Rightarrow> Ok cfg)))"

definition MustLoadByPath :: "os_env \<Rightarrow> string \<Rightarrow> config result" where
  "MustLoadByPath os path =
     (case Load os path of Err e \<Rightarrow> Panic (error_text e) | r \<Rightarrow> r)"

definition MustLoad :: "os_env \<Rightarrow> config result" where
  "MustLoad os =
     (let path = os_Getenv os ''CONFIG_PATH'' in
      if path = [] then Panic ''CONFIG_PATH is empty''
      else (case Load os path of Err e \<Rightarrow> Panic (error_text e) | r \<Rightarrow> r))"

subsection \<open>Addresses\<close>

definition GRPCAddr :: "config \<Rightarrow> string" where
  "GRPCAddr c = CHR '':'' # itoa (sint (gc_Port (cfg_GRPC c)))"

definition HTTPAddr :: "config \<Rightarrow> string" where
  "HTTPAddr c = CHR '':'' # itoa (sint (hc_Port (cfg_HTTP c)))"

definition PostgresDSN :: "config \<Rightarrow> string" where
  "PostgresDSN c =
     (let p = cfg_Postgres c in
      ''postgres://'' @ pc_User p @ '':'' @ pc_Password p @ ''@'' @ pc_Host p @ '':'' @
      itoa (sint (pc_Port p)) @ ''/'' @ pc_DBName p @ ''?sslmode='' @ pc_SSLMode p)"

definition RedisAddr :: "config \<Rightarrow> string" where
  "RedisAddr c = rc_Host (cfg_Redis c) @ '':'' @ itoa (sint (rc_Port (cfg_Redis c)))"

subsection \<open>Properties\<close>

lemma config_Validate_ok:
  "config_Validate c = None \<longleftrightarrow>
     cfg_ServiceName c \<noteq> [] \<and> cfg_Env c \<noteq> [] \<and> cfg_OTLPEndpoint c \<noteq> [] \<and>
     sint (gc_Port (cfg_GRPC c)) \<in> {1..65535} \<and> sint (hc_Port (cfg_HTTP c)) \<in> {1..65535} \<and>
     0 < sint (gc_Timeout (cfg_GRPC c)) \<and> 0 < sint (hc_Timeout (cfg_HTTP c)) \<and>
     0 < sint (cfg_ShutdownTimeout c)"
  by (auto simp: config_Validate_def word_sless_alt word_sle_eq)

lemma addr_not_Nil [simp]: "GRPCAddr c \<noteq> []" "HTTPAddr c \<noteq> []"
  by (simp_all add: GRPCAddr_def HTTPAddr_def)

text \<open>
  C39: a loaded configuration is usable. Whatever the file and its decoder give, a configuration
  that \<open>Load\<close> returns has ports that are TCP ports and timeouts that have not passed already, the
  addresses made of it determine the ports, and the two servers get the same address only if
  they are configured with the same port.
\<close>

theorem loaded_config_valid:
  assumes "Load os path = Ok c"
  shows "os_Stat os path \<noteq> StatNotExist \<and> os_ReadConfig os path = Ok c \<and>
    sint (gc_Port (cfg_GRPC c)) \<in> {1..65535} \<and> sint (hc_Port (cfg_HTTP c)) \<in> {1..65535} \<and>
    0 < sint (gc_Timeout (cfg_GRPC c)) \<and> 0 < sint (hc_Timeout (cfg_HTTP c)) \<and>
    0 < sint (cfg_ShutdownTimeout c) \<and>
    (GRPCAddr c = HTTPAddr c \<longleftrightarrow> gc_Port (cfg_GRPC c) = hc_Port (cfg_HTTP c))"
proof -
  have "config_Validate c = None" and read: "os_Stat os path \<noteq> StatNotExist" "os_ReadConfig os path = Ok c"
    using assms by (auto simp: Load_def split: if_splits outcome.splits option.splits)
  then show ?thesis
    by (auto simp: config_Validate_ok GRPCAddr_def HTTPAddr_def intro: signed_word_eqI)
qed

definition default_config :: config where
  "default_config =
     \<lparr>cfg_ServiceName = ''catalog-service'', cfg_Env = ''local'', cfg_Version = ''dev'',
      cfg_LogLevel = ''info'', cfg_ShutdownTimeout = 10000000000,
      cfg_GRPC = \<lparr>gc_Port = 9091, gc_Timeout = 5000000000\<rparr>,
      cfg_HTTP = \<lparr>hc_Port = 8081, hc_Timeout = 5000000000\<rparr>, cfg_OTLPEndpoint = ''jaeger:4317'',
      cfg_Postgres = \<lparr>pc_Host = ''localhost'', pc_Port = 5432, pc_DBName = ''catalog'', pc_User = ''catalog'',
        pc_Password = ''catalog'', pc_SSLMode = ''disable''\<rparr>,
      cfg_Redis = \<lparr>rc_Host = ''localhost'', rc_Port = 6379, rc_Password = [], rc_DB = 0,
        rc_TTL = 300000000000\<rparr>,
      cfg_KafkaBrokers = [''localhost:9092'']\<rparr>"

lemma default_config_valid: "config_Validate default_config = None"
  by (simp add: config_Validate_ok default_config_def)

text \<open>A system on which every file is the one of the default configuration.\<close>

definition default_os :: os_env where
  "default_os =
     \<lparr>os_Getenv = (\<lambda>k. []), os_Stat = (\<lambda>p. StatOk), os_ReadConfig = (\<lambda>p. Ok default_config)\<rparr>"

lemma Load_default: "Load default_os ''config.yaml'' = Ok default_config"
  by (simp add: Load_def default_os_def default_config_valid)

theorem loaded_config_valid_witness: "GRPCAddr default_config \<noteq> HTTPAddr default_config"
  using loaded_config_valid [OF Load_default] by (simp add: default_config_def)

text \<open>
  The PostgreSQL URL is not escaped. A configuration for the host \<open>db\<close> whose password holds
  the characters that end the host part of a URL has the same URL as one for the host \<open>other\<close>
  with another password, so whoever opens the URL connects to \<open>other\<close>.
\<close>

theorem dsn_confuses_hosts:
  "let pg = cfg_Postgres default_config;
       a = default_config\<lparr>cfg_Postgres := pg\<lparr>pc_Host := ''db'', pc_Password := ''s3@other:5432/x?''\<rparr>\<rparr>;
       b = default_config\<lparr>cfg_Postgres := pg\<lparr>pc_Host := ''other'', pc_Password := ''s3'',
             pc_DBName := ''x?@db:5432/catalog''\<rparr>\<rparr>
   in config_Validate a = None \<and> config_Validate b = None \<and> PostgresDSN a = PostgresDSN b"
proof -
  have port: "itoa (sint (5432 :: int64)) = ''5432''"
    by (simp add: itoa_def nat_digits.simps digit_char_def char_of_def bit_0)
  show ?thesis
    unfolding Let_def
    by (intro conjI; simp only: PostgresDSN_def default_config_def config.simps postgres_config.simps Let_def port
        config_Validate_ok grpc_config.simps http_config.simps append.simps)
       simp_all
qed

end
