(* ===== verification/App.thy ===== *)
theory App
  imports Config Http Cache_Coherence Outbox Grpc_Handler
begin

section \<open>The application: start, run, stop\<close>

text \<open>
  \<open>internal/app/app.go\<close>, \<open>internal/app/grpcapp\<close>, \<open>internal/app/httpapp\<close>, \<open>InitTracing\<close> and
  \<open>cmd/catalog/main.go\<close>. The libraries the program opens (database driver, Redis client, Kafka
  writer, tracing exporter, network) are an environment that says what each call answers;
  what is observed of a run is what it acquires and releases, in order.
\<close>

subsection \<open>The two servers\<close>

text \<open>\<open>http.ErrServerClosed\<close>, and the gRPC listener by its address.\<close>

abbreviation ErrServerClosed :: go_error where
  "ErrServerClosed \<equiv> Plain ''http: Server closed''"

record grpc_app =
  ga_addr :: string
  ga_lis :: "string option"

definition grpcapp_New ::
  "logger option \<Rightarrow> bool \<Rightarrow> string \<Rightarrow> (string \<Rightarrow> string result) \<Rightarrow> grpc_app result"
where
  "grpcapp_New lg has_server addr listen =
     (if lg = None then Err (Plain ''logger is nil'')
      else if \<not> has_server then Err (Plain ''grpc server is nil'')
      else if addr = [] then Err (Plain ''grpc addr is empty'')
      else
        (case listen addr of
           Err e \<Rightarrow> Err (Wrap ''listen grpc: '' e [])
         | Panic m \<Rightarrow> Panic m
         | Ok lis \<Rightarrow> Ok \<lparr>ga_addr = addr, ga_lis = Some lis\<rparr>))"

text \<open>What \<open>Serve\<close> and \<open>ListenAndServe\<close> end with, as \<open>Run\<close> reports it.\<close>

definition grpcapp_Run :: "go_error option \<Rightarrow> go_error option" where
  "grpcapp_Run served = map_option (\<lambda>e. Wrap ''grpcapp.Run: '' e []) served"

definition grpcapp_Addr :: "grpc_app option \<Rightarrow> string result" where
  "grpcapp_Addr a =
     (case a of
        None \<Rightarrow> nil_dereference
      | Some g \<Rightarrow> (case ga_lis g of None \<Rightarrow> Ok (ga_addr g) | Some lis \<Rightarrow> Ok lis))"

definition httpapp_New :: "logger option \<Rightarrow> string option \<Rightarrow> string result" where
  "httpapp_New lg server =
     (if lg = None then Err (Plain ''logger is nil'')
      else
        (case server of
           None \<Rightarrow> Err (Plain ''http server is nil'')
         | Some addr \<Rightarrow> if addr = [] then Err (Plain ''http server addr is empty'') else Ok addr))"

definition httpapp_Run :: "go_error option \<Rightarrow> go_error option" where
  "httpapp_Run served =
     (case served of
        None \<Rightarrow> None
      | Some e \<Rightarrow> if errors_is e ErrServerClosed then None else Some (Wrap ''httpapp.Run: '' e []))"

definition httpapp_Stop :: "go_error option \<Rightarrow> go_error option" where
  "httpapp_Stop shut = map_option (\<lambda>e. Wrap ''httpapp.Stop: '' e []) shut"

definition httpapp_Addr :: "string option option \<Rightarrow> string" where
  "httpapp_Addr a = (case a of None \<Rightarrow> [] | Some None \<Rightarrow> [] | Some (Some addr) \<Rightarrow> addr)"

subsection \<open>Readiness\<close>

record ('d, 'r) readiness_checker =
  chk_db :: "(context_err \<Rightarrow> 'd \<Rightarrow> go_error option \<times> 'd) option"
  chk_redis :: "(context_err \<Rightarrow> 'r \<Rightarrow> go_error option \<times> 'r) option"

definition readiness_Check ::
  "('d, 'r) readiness_checker option \<Rightarrow> context_err \<Rightarrow> 'd \<times> 'r \<Rightarrow> go_error option \<times> 'd \<times> 'r"
where
  "readiness_Check c ctx dr =
     (case c of
        None \<Rightarrow> (Some (Plain ''readiness checker is nil''), dr)
      | Some c \<Rightarrow>
          (case chk_db c of
             None \<Rightarrow> (Some (Plain ''postgres is not initialized''), dr)
           | Some ping_db \<Rightarrow>
               (case chk_redis c of
                  None \<Rightarrow> (Some (Plain ''redis is not initialized''), dr)
                | Some ping_redis \<Rightarrow>
                    (case ping_db ctx (fst dr) of
                       (Some e, d) \<Rightarrow> (Some (Wrap ''postgres not ready: '' e []), (d, snd dr))
                     | (None, d) \<Rightarrow>
                         (case ping_redis ctx (snd dr) of
                            (Some e, r) \<Rightarrow> (Some (Wrap ''redis not ready: '' e []), (d, r))
                          | (None, r) \<Rightarrow> (None, (d, r)))))))"

subsection \<open>New\<close>

datatype resource = Tracing | DB | RedisClient | Kafka | OutboxContext | Listener | HttpServer | OutboxLoop

datatype action = Acquire resource | Release resource

text \<open>What is still open after the actions, the newest first.\<close>

fun still_open :: "resource list \<Rightarrow> action list \<Rightarrow> resource list" where
  "still_open rs [] = rs"
| "still_open rs (Acquire x # as) = still_open (x # rs) as"
| "still_open rs (Release x # as) = still_open (remove1 x rs) as"

datatype otel_attribute = ServiceName string | ServiceVersion string | DeploymentEnvironment string

record ('d, 'r, 'k) app_env =
  ae_resource :: "otel_attribute list \<Rightarrow> go_error option"
  ae_exporter :: "string \<Rightarrow> go_error option"
  ae_OpenDB :: "string \<Rightarrow> 'd sql_db result"
  ae_PingDB :: "go_error option"
  ae_Redis :: "string \<Rightarrow> string \<Rightarrow> int64 \<Rightarrow> 'r redis_client"
  ae_PingRedis :: "go_error option"
  ae_Kafka :: "writer_options \<Rightarrow> 'k kafka_writer"
  ae_Listen :: "string \<Rightarrow> string result"
  ae_db_Ping :: "context_err \<Rightarrow> 'd \<Rightarrow> go_error option \<times> 'd"
  ae_redis_Ping :: "context_err \<Rightarrow> 'r \<Rightarrow> go_error option \<times> 'r"
  ae_promhttp :: "http_request \<Rightarrow> http_response"

text \<open>\<open>InitTracing\<close>: its error, or the shutdown function of the provider (\<open>None\<close>).\<close>

definition InitTracing ::
  "('d, 'r, 'k) app_env \<Rightarrow> string \<Rightarrow> string \<Rightarrow> string \<Rightarrow> string \<Rightarrow> go_error option"
where
  "InitTracing env serviceName serviceVersion environment endpoint =
     (case ae_resource env
             [ServiceName serviceName, ServiceVersion serviceVersion, DeploymentEnvironment environment] of
        Some e \<Rightarrow> Some (Wrap ''create otel resource: '' e [])
      | None \<Rightarrow> map_option (\<lambda>e. Wrap ''create otlp trace exporter: '' e []) (ae_exporter env endpoint))"

text \<open>\<open>New\<close> calls it with the fields of the configuration.\<close>

abbreviation tracing_of :: "('d, 'r, 'k) app_env \<Rightarrow> config \<Rightarrow> go_error option" where
  "tracing_of env cfg \<equiv>
     InitTracing env (cfg_ServiceName cfg) (cfg_Version cfg) (cfg_Env cfg) (cfg_OTLPEndpoint cfg)"

record ('d, 'r, 'k) app =
  app_logger :: "logger option"
  app_runtime_logger :: runtime_logger
  app_service :: "('d \<times> 'r) catalog_service option"
  app_deps :: "('d \<times> 'r) router_deps"
  app_grpc :: "grpc_app option"
  app_http :: "string option"
  app_publisher :: "('d, 'k) publisher option"
  app_tracing :: bool

text \<open>
  The early returns of \<open>New\<close> release what is open and call \<open>shutdownTracing\<close>, which is nil when
  tracing was not initialised; the later ones call \<open>cleanup\<close>, which tests it.
\<close>

definition abort_new :: "bool \<Rightarrow> action list \<Rightarrow> resource list \<Rightarrow> go_error \<Rightarrow> 'a result \<times> action list" where
  "abort_new tracing acts rs e =
     (if tracing then (Err e, acts @ map Release rs @ [Release Tracing])
      else (nil_dereference, acts @ map Release rs))"

definition cleanup :: "bool \<Rightarrow> action list" where
  "cleanup tracing =
     map Release [OutboxContext, Kafka, RedisClient, DB] @ (if tracing then [Release Tracing] else [])"

definition New_servers ::
  "('d, 'r, 'k) app_env \<Rightarrow> config \<Rightarrow> runtime_logger \<Rightarrow> bool \<Rightarrow> ('d, 'k) publisher \<Rightarrow>
     ('d \<times> 'r) catalog_service \<Rightarrow> action list \<Rightarrow> ('d, 'r, 'k) app result \<times> action list"
where
  "New_servers env cfg lg tracing pub svc acts =
     (case NewHandler (Some svc) of
        Err e \<Rightarrow> (Err (Wrap ''create grpc handler: '' e []), acts @ cleanup tracing)
      | Panic m \<Rightarrow> (Panic m, acts)
      | Ok handler \<Rightarrow>
          (case grpcapp_New (Some Logger) True (GRPCAddr cfg) (ae_Listen env) of
             Err e \<Rightarrow> (Err (Wrap ''create grpc app: '' e []), acts @ cleanup tracing)
           | Panic m \<Rightarrow> (Panic m, acts)
           | Ok g \<Rightarrow>
               (let acts = acts @ [Acquire Listener] in
                case httpapp_New (Some Logger) (Some (HTTPAddr cfg)) of
                  Err e \<Rightarrow> (Err (Wrap ''create http app: '' e []), acts @ cleanup tracing)
                | Panic m \<Rightarrow> (Panic m, acts)
                | Ok h \<Rightarrow>
                    (Ok \<lparr>app_logger = Some Logger, app_runtime_logger = lg, app_service = handler,
                         app_deps = \<lparr>dep_LogLevelController = True,
                           dep_ReadinessChecker = Some (readiness_Check
                             (Some \<lparr>chk_db = Some (ae_db_Ping env), chk_redis = Some (ae_redis_Ping env)\<rparr>)),
                           dep_CatalogService = Some (Some svc), dep_Logger = Some Logger,
                           dep_promhttp = ae_promhttp env\<rparr>,
                         app_grpc = Some g, app_http = Some h, app_publisher = Some pub,
                         app_tracing = tracing\<rparr>, acts))))"

definition New_components ::
  "('d, 'r, 'k) app_env \<Rightarrow> config \<Rightarrow> runtime_logger \<Rightarrow> bool \<Rightarrow> 'd sql_db \<Rightarrow> 'r redis_client \<Rightarrow>
     action list \<Rightarrow> ('d, 'r, 'k) app result \<times> action list"
where
  "New_components env cfg lg tracing db client acts =
     (case pg_NewProductRepository True (Some db) of
        Err e \<Rightarrow> abort_new tracing acts [RedisClient, DB] (Wrap ''create postgres repository: '' e [])
      | Panic m \<Rightarrow> (Panic m, acts)
      | Ok postgresRepo \<Rightarrow>
          (case NewCache True (Some client) (rc_TTL (cfg_Redis cfg)) of
             Err e \<Rightarrow> abort_new tracing acts [RedisClient, DB] (Wrap ''create redis cache: '' e [])
           | Panic m \<Rightarrow> (Panic m, acts)
           | Ok c \<Rightarrow>
               (case cached_NewProductRepository True (Some c) (Some (pg_repo postgresRepo)) of
                  Err e \<Rightarrow> abort_new tracing acts [RedisClient, DB] (Wrap ''create cached repository: '' e [])
                | Panic m \<Rightarrow> (Panic m, acts)
                | Ok repo \<Rightarrow>
                    (let pub = NewPublisher db (Some (ae_Kafka env (NewProducer (cfg_KafkaBrokers cfg))));
                         acts = acts @ [Acquire Kafka, Acquire OutboxContext]
                     in case NewCatalogService (Some Logger) (Some (cached_repo repo)) of
                          Err e \<Rightarrow> (Err (Wrap ''create catalog service: '' e []), acts @ cleanup tracing)
                        | Panic m \<Rightarrow> (Panic m, acts)
                        | Ok svc \<Rightarrow> New_servers env cfg lg tracing pub svc acts))))"

definition App_New ::
  "('d, 'r, 'k) app_env \<Rightarrow> config option \<Rightarrow> ('d, 'r, 'k) app result \<times> action list"
where
  "App_New env cfgo =
     (case cfgo of
        None \<Rightarrow> (Err (Plain ''config is nil''), [])
      | Some cfg \<Rightarrow>
          (let lg = NewLogger \<lparr>opt_Service = cfg_ServiceName cfg, opt_Env = cfg_Env cfg,
                     opt_Version = cfg_Version cfg, opt_Level = cfg_LogLevel cfg\<rparr>;
               tracing = (tracing_of env cfg = None);
               acts = (if tracing then [Acquire Tracing] else [])
           in case ae_OpenDB env (PostgresDSN cfg) of
                Err e \<Rightarrow> abort_new tracing acts [] (Wrap ''open postgres: '' e [])
              | Panic m \<Rightarrow> (Panic m, acts)
              | Ok db \<Rightarrow>
                  (let acts = acts @ [Acquire DB] in
                   case ae_PingDB env of
                     Some e \<Rightarrow> abort_new tracing acts [DB] (Wrap ''ping postgres: '' e [])
                   | None \<Rightarrow>
                       (let client = ae_Redis env (RedisAddr cfg) (rc_Password (cfg_Redis cfg)) (rc_DB (cfg_Redis cfg));
                            acts = acts @ [Acquire RedisClient]
                        in case ae_PingRedis env of
                             Some e \<Rightarrow> abort_new tracing acts [RedisClient, DB] (Wrap ''ping redis: '' e [])
                           | None \<Rightarrow> New_components env cfg lg tracing db client acts))))"

subsection \<open>Shutdown\<close>

text \<open>What the five calls of \<open>Shutdown\<close> that can fail answer.\<close>

record stop_env =
  se_http :: "go_error option"
  se_publisher :: "go_error option"
  se_redis :: "go_error option"
  se_db :: "go_error option"
  se_tracing :: "go_error option"

text \<open>\<open>errors.Join(shutdownErr, fmt.Errorf("pre%w", e))\<close>.\<close>

definition errors_Join :: "go_error option \<Rightarrow> go_error \<Rightarrow> go_error option" where
  "errors_Join acc e = Some (Joined (case acc of None \<Rightarrow> [e] | Some a \<Rightarrow> [a, e]))"

definition stop_step ::
  "bool \<Rightarrow> resource list \<Rightarrow> string \<Rightarrow> go_error option \<Rightarrow> go_error option \<times> action list \<Rightarrow>
     go_error option \<times> action list"
where
  "stop_step present rs pre err st =
     (if \<not> present then st
      else (case err of None \<Rightarrow> fst st | Some e \<Rightarrow> errors_Join (fst st) (Wrap pre e []),
            snd st @ map Release rs))"

text \<open>
  The health server, the outbox context, the Redis client and the database of the application are
  set whenever \<open>New\<close> succeeds; a nil application is \<open>None\<close>. The loop of the publisher is awaited
  after its context is cancelled.
\<close>

definition Shutdown :: "('d, 'r, 'k) app option \<Rightarrow> stop_env \<Rightarrow> go_error option result \<times> action list" where
  "Shutdown app se =
     (case app of
        None \<Rightarrow> (Ok None, [])
      | Some a \<Rightarrow>
          (let st = (None, []);
               st = stop_step (app_grpc a \<noteq> None) [Listener] [] None st;
               st = stop_step (app_http a \<noteq> None) [HttpServer] ''stop http app: '' (httpapp_Stop (se_http se)) st;
               st = stop_step True [OutboxContext, OutboxLoop] [] None st;
               st = stop_step (app_publisher a \<noteq> None) [Kafka] ''close outbox publisher: '' (se_publisher se) st;
               st = stop_step True [RedisClient] ''close redis client: '' (se_redis se) st;
               st = stop_step True [DB] ''close postgres db: '' (se_db se) st;
               st = stop_step (app_tracing a) [Tracing] ''shutdown tracing: '' (se_tracing se) st
           in if app_logger a = None then (nil_dereference, snd st) else (Ok (fst st), snd st)))"

text \<open>\<open>Run\<close> starts the servers and the loop of the publisher.\<close>

definition App_Run :: "('d, 'r, 'k) app option \<Rightarrow> go_error option \<times> action list" where
  "App_Run app =
     (case app of
        None \<Rightarrow> (Some (Plain ''app is nil''), [])
      | Some a \<Rightarrow> (None, [Acquire HttpServer, Acquire OutboxLoop]))"

subsection \<open>New releases what it opened\<close>

lemma still_open_append: "still_open rs (xs @ ys) = still_open (still_open rs xs) ys"
  by (induction rs xs rule: still_open.induct) simp_all

lemma New_components_result:
  "New_components env cfg lg tracing db client acts =
     (if rc_TTL (cfg_Redis cfg) <=s 0
      then abort_new tracing acts [RedisClient, DB]
             (Wrap ''create redis cache: '' (Plain ''redis ttl must be > 0'') [])
      else
        New_servers env cfg lg tracing (NewPublisher db (Some (ae_Kafka env (NewProducer (cfg_KafkaBrokers cfg)))))
          (the (service_of (cached_repo
             \<lparr>cd_cache = \<lparr>cache_client = client, cache_ttl = rc_TTL (cfg_Redis cfg)\<rparr>, cd_next = pg_repo db\<rparr>)))
          (acts @ [Acquire Kafka, Acquire OutboxContext]))"
  by (simp add: New_components_def pg_NewProductRepository_def NewCache_def cached_NewProductRepository_def
      NewCatalogService_def service_of_def Let_def)

lemma New_servers_result:
  "New_servers env cfg lg tracing pub svc acts =
     (case ae_Listen env (GRPCAddr cfg) of
        Err e \<Rightarrow> (Err (Wrap ''create grpc app: '' (Wrap ''listen grpc: '' e []) []), acts @ cleanup tracing)
      | Panic m \<Rightarrow> (Panic m, acts)
      | Ok lis \<Rightarrow>
          (Ok \<lparr>app_logger = Some Logger, app_runtime_logger = lg, app_service = Some svc,
               app_deps = \<lparr>dep_LogLevelController = True,
                 dep_ReadinessChecker = Some (readiness_Check
                   (Some \<lparr>chk_db = Some (ae_db_Ping env), chk_redis = Some (ae_redis_Ping env)\<rparr>)),
                 dep_CatalogService = Some (Some svc), dep_Logger = Some Logger, dep_promhttp = ae_promhttp env\<rparr>,
               app_grpc = Some \<lparr>ga_addr = GRPCAddr cfg, ga_lis = Some lis\<rparr>, app_http = Some (HTTPAddr cfg),
               app_publisher = Some pub, app_tracing = tracing\<rparr>, acts @ [Acquire Listener]))"
  by (simp add: New_servers_def NewHandler_def grpcapp_New_def httpapp_New_def Let_def split: outcome.split)

lemmas New_results = App_New_def New_components_result New_servers_result Let_def abort_new_def cleanup_def

text \<open>
  C16: a start that fails leaves nothing open. Whatever call of the start fails, when \<open>New\<close> returns
  an error it has released every resource it acquired; when it succeeds, exactly the database,
  the Redis client, the Kafka writer, the outbox context, the listener and the tracing provider
  (if it could be made) are open.
\<close>

theorem New_leaves_nothing_open:
  assumes "App_New env cfg = (r, acts)"
  shows "(\<forall>e. r = Err e \<longrightarrow> still_open [] acts = []) \<and>
    (\<forall>a. r = Ok a \<longrightarrow> still_open [] acts =
       [Listener, OutboxContext, Kafka, RedisClient, DB] @ (if app_tracing a then [Tracing] else []))"
  using assms
  by (auto simp: New_results split: option.splits outcome.splits if_splits)

text \<open>
  C40: a start without tracing may panic. When the tracing provider cannot be made the program is
  meant to go on without it, but the early returns of \<open>New\<close> call the nil shutdown function: \<open>New\<close>
  then panics exactly when the database cannot be opened or reached, Redis cannot be reached, or
  the time to live is not positive; with tracing it never panics.
\<close>

theorem New_panics_iff:
  assumes "\<forall>dsn m. ae_OpenDB env dsn \<noteq> Panic m" and "\<forall>addr m. ae_Listen env addr \<noteq> Panic m"
  shows "(\<exists>m. fst (App_New env (Some cfg)) = Panic m) \<longleftrightarrow>
    tracing_of env cfg \<noteq> None \<and>
    ((\<exists>e. ae_OpenDB env (PostgresDSN cfg) = Err e) \<or> ae_PingDB env \<noteq> None \<or>
     ae_PingRedis env \<noteq> None \<or> rc_TTL (cfg_Redis cfg) <=s 0)"
proof -
  have listen: "\<nexists>m. ae_Listen env (GRPCAddr cfg) = Panic m" using assms(2) by simp
  show ?thesis
  proof (cases "ae_OpenDB env (PostgresDSN cfg)")
    case (Ok db)
    then show ?thesis
      using listen by (cases "ae_Listen env (GRPCAddr cfg)") (auto simp: New_results split: option.splits)
  qed (use assms(1) in \<open>auto simp: New_results\<close>)
qed

text \<open>An environment in which everything works but tracing and PostgreSQL.\<close>

definition ref_env :: "go_error option \<Rightarrow> go_error option \<Rightarrow> (ref_db, ref_redis, bool list \<times> kafka_message list) app_env" where
  "ref_env tracing_error ping_error =
     \<lparr>ae_resource = (\<lambda>as. None), ae_exporter = (\<lambda>endpoint. tracing_error), ae_OpenDB = (\<lambda>dsn. Ok ref_engine),
      ae_PingDB = ping_error, ae_Redis = (\<lambda>addr pw n. ref_redis_client), ae_PingRedis = None,
      ae_Kafka = (\<lambda>opts. ref_writer), ae_Listen = (\<lambda>addr. Ok (''[::]'' @ addr)),
      ae_db_Ping = (\<lambda>ctx d. (None, d)), ae_redis_Ping = (\<lambda>ctx r. (None, r)),
      ae_promhttp = (\<lambda>rq. writeJSON StatusOK JNull)\<rparr>"

lemma ref_env_no_panic:
  "\<forall>dsn m. ae_OpenDB (ref_env t p) dsn \<noteq> Panic m" "\<forall>addr m. ae_Listen (ref_env t p) addr \<noteq> Panic m"
  by (simp_all add: ref_env_def)

theorem New_leaves_nothing_open_witness:
  "\<exists>e acts. App_New (ref_env None (Some conn_lost)) (Some default_config) = (Err e, acts) \<and> still_open [] acts = []"
proof -
  have "App_New (ref_env None (Some conn_lost)) (Some default_config) =
    (Err (Wrap ''ping postgres: '' conn_lost []), [Acquire Tracing, Acquire DB, Release DB, Release Tracing])"
    by (simp add: New_results ref_env_def InitTracing_def)
  moreover from New_leaves_nothing_open [OF this]
  have "still_open [] [Acquire Tracing, Acquire DB, Release DB, Release Tracing] = []" by blast
  ultimately show ?thesis by (intro exI conjI)
qed

theorem New_panics_iff_witness:
  "\<exists>m. fst (App_New (ref_env (Some conn_lost) (Some conn_lost)) (Some default_config)) = Panic m"
  by (subst New_panics_iff [OF ref_env_no_panic]) (simp add: ref_env_def InitTracing_def)

subsection \<open>Shutdown closes everything\<close>

definition stop_errors :: "bool \<Rightarrow> stop_env \<Rightarrow> go_error option list" where
  "stop_errors tracing se =
     [se_http se, se_publisher se, se_redis se, se_db se] @ (if tracing then [se_tracing se] else [])"

lemma errors_Join_is:
  "acc' = errors_Join acc e \<Longrightarrow>
     \<exists>x. acc' = Some x \<and> (errors_is e t \<longrightarrow> errors_is x t) \<and> (\<forall>a. acc = Some a \<longrightarrow> errors_is a t \<longrightarrow> errors_is x t)"
  by (auto simp: errors_Join_def split: option.splits)

text \<open>What an error accumulated by a step of the shutdown holds.\<close>

definition holds :: "go_error option \<Rightarrow> go_error \<Rightarrow> bool" where
  "holds acc t \<longleftrightarrow> (\<exists>x. acc = Some x \<and> errors_is x t)"

lemma holds_stop_step:
  "holds (fst st) t \<Longrightarrow> holds (fst (stop_step present rs pre err st)) t"
  "present \<Longrightarrow> err = Some e \<Longrightarrow> errors_is e t \<Longrightarrow> holds (fst (stop_step present rs pre err st)) t"
  by (auto simp: holds_def stop_step_def errors_Join_def split: option.splits)

lemma stop_step_None:
  "fst (stop_step present rs pre err st) = None \<longleftrightarrow> fst st = None \<and> (present \<longrightarrow> err = None)"
  by (auto simp: stop_step_def errors_Join_def split: option.splits)

lemma snd_stop_step:
  "snd (stop_step present rs pre err st) = snd st @ (if present then map Release rs else [])"
  by (simp add: stop_step_def)

lemma Shutdown_result:
  assumes "App_New env cfg = (Ok a, acts)"
  shows "\<exists>err. Shutdown (Some a) se = (Ok err, map Release
      ([Listener, HttpServer, OutboxContext, OutboxLoop, Kafka, RedisClient, DB] @
       (if app_tracing a then [Tracing] else []))) \<and>
    still_open [] (acts @ snd (App_Run (Some a)) @ snd (Shutdown (Some a) se)) = [] \<and>
    (err = None \<longleftrightarrow> list_all (\<lambda>e. e = None) (stop_errors (app_tracing a) se)) \<and>
    (\<forall>e t. Some e \<in> set (stop_errors (app_tracing a) se) \<longrightarrow> errors_is e t \<longrightarrow> holds err t)"
proof -
  have app: "app_logger a = Some Logger" "app_grpc a \<noteq> None" "app_http a \<noteq> None" "app_publisher a \<noteq> None"
    using assms by (auto simp: New_results split: option.splits outcome.splits if_splits)
  have opened: "still_open [] acts =
      [Listener, OutboxContext, Kafka, RedisClient, DB] @ (if app_tracing a then [Tracing] else [])"
    using assms by (auto simp: New_results split: option.splits outcome.splits if_splits)
  let ?http = "httpapp_Stop (se_http se)"
  define st where "st = stop_step (app_tracing a) [Tracing] ''shutdown tracing: '' (se_tracing se)
    (stop_step True [DB] ''close postgres db: '' (se_db se)
    (stop_step True [RedisClient] ''close redis client: '' (se_redis se)
    (stop_step True [Kafka] ''close outbox publisher: '' (se_publisher se)
    (stop_step True [OutboxContext, OutboxLoop] [] None
    (stop_step True [HttpServer] ''stop http app: '' ?http (stop_step True [Listener] [] None (None, [])))))))"
  have down: "Shutdown (Some a) se = (Ok (fst st), snd st)"
    using app by (simp add: Shutdown_def st_def Let_def)
  have acts_st: "snd st = map Release ([Listener, HttpServer, OutboxContext, OutboxLoop, Kafka, RedisClient, DB] @
      (if app_tracing a then [Tracing] else []))"
    by (simp add: st_def snd_stop_step)
  have "still_open [] (acts @ snd (App_Run (Some a)) @ snd (Shutdown (Some a) se)) = []"
    by (simp add: still_open_append opened App_Run_def down acts_st)
  moreover have "fst st = None \<longleftrightarrow> list_all (\<lambda>e. e = None) (stop_errors (app_tracing a) se)"
    by (auto simp: st_def stop_step_None stop_errors_def httpapp_Stop_def)
  moreover have "holds (fst st) t" if "Some e \<in> set (stop_errors (app_tracing a) se)" "errors_is e t" for e t
  proof -
    from that(1) consider "se_http se = Some e" | "se_publisher se = Some e" | "se_redis se = Some e"
      | "se_db se = Some e" | "app_tracing a" "se_tracing se = Some e"
      by (auto simp: stop_errors_def split: if_splits)
    then show ?thesis
    proof cases
      case 1
      then show ?thesis unfolding st_def httpapp_Stop_def
        by - (rule holds_stop_step(1), rule holds_stop_step(1), rule holds_stop_step(1), rule holds_stop_step(1),
            rule holds_stop_step(1), rule holds_stop_step(2) [OF TrueI], simp, simp add: that(2))
    next
      case 2
      then show ?thesis unfolding st_def
        by - (rule holds_stop_step(1), rule holds_stop_step(1), rule holds_stop_step(1),
            rule holds_stop_step(2) [OF TrueI], assumption, rule that(2))
    next
      case 3
      then show ?thesis unfolding st_def
        by - (rule holds_stop_step(1), rule holds_stop_step(1), rule holds_stop_step(2) [OF TrueI],
            assumption, rule that(2))
    next
      case 4
      then show ?thesis unfolding st_def
        by - (rule holds_stop_step(1), rule holds_stop_step(2) [OF TrueI], assumption, rule that(2))
    next
      case 5
      then show ?thesis unfolding st_def
        by - (rule holds_stop_step(2), assumption, assumption, rule that(2))
    qed
  qed
  ultimately show ?thesis using down acts_st by auto
qed

text \<open>
  C15: the shutdown. For an application that \<open>New\<close> made and \<open>Run\<close> started, whatever of the five calls
  fails, every resource is released, once: the listener, the HTTP server, the outbox loop before
  the Kafka writer it uses, then Redis, the database and tracing. The result is nil exactly when
  no call failed, and holds every error that occurred.
\<close>

theorem Shutdown_closes_everything:
  assumes "App_New env cfg = (Ok a, acts)"
  shows "\<exists>err. Shutdown (Some a) se = (Ok err, map Release
      ([Listener, HttpServer, OutboxContext, OutboxLoop, Kafka, RedisClient, DB] @
       (if app_tracing a then [Tracing] else []))) \<and>
    still_open [] (acts @ snd (App_Run (Some a)) @ snd (Shutdown (Some a) se)) = [] \<and>
    (err = None \<longleftrightarrow> list_all (\<lambda>e. e = None) (stop_errors (app_tracing a) se)) \<and>
    (\<forall>e t. Some e \<in> set (stop_errors (app_tracing a) se) \<longrightarrow> errors_is e t \<longrightarrow> holds err t)"
  by (rule Shutdown_result [OF assms])

lemma ref_app: "\<exists>a acts. App_New (ref_env None None) (Some default_config) = (Ok a, acts)"
  by (simp add: New_results ref_env_def InitTracing_def default_config_def word_sle_eq)

theorem Shutdown_closes_everything_witness:
  "\<exists>a acts err as. App_New (ref_env None None) (Some default_config) = (Ok a, acts) \<and>
     Shutdown (Some a) \<lparr>se_http = None, se_publisher = Some conn_lost, se_redis = None, se_db = Some SqlErrNoRows,
       se_tracing = None\<rparr> = (Ok err, as) \<and> holds err conn_lost \<and> holds err SqlErrNoRows"
proof -
  let ?se = "\<lparr>se_http = None, se_publisher = Some conn_lost, se_redis = None, se_db = Some SqlErrNoRows,
       se_tracing = None\<rparr>"
  obtain a acts where new: "App_New (ref_env None None) (Some default_config) = (Ok a, acts)"
    using ref_app by blast
  obtain err as where down: "Shutdown (Some a) ?se = (Ok err, as)"
    and held: "\<And>e t. Some e \<in> set (stop_errors (app_tracing a) ?se) \<Longrightarrow> errors_is e t \<Longrightarrow> holds err t"
    using Shutdown_closes_everything [OF new, of ?se] by blast
  have "Some conn_lost \<in> set (stop_errors (app_tracing a) ?se)" "Some SqlErrNoRows \<in> set (stop_errors (app_tracing a) ?se)"
    by (simp_all add: stop_errors_def)
  then have "holds err conn_lost" "holds err SqlErrNoRows"
    using held errors_is_refl by blast+
  with new down show ?thesis by (intro exI conjI)
qed

subsection \<open>The application that New makes\<close>

text \<open>
  C10: the whole chain. An application made by \<open>New\<close> from a configuration serves HTTP over the
  service over the cache over the database that the environment opened. For any database engine
  and any Redis with their laws, with pings that change no data, every HTTP request in every
  state is answered without a panic by one of the statuses of the router, and the catalogue in
  the database keeps its invariant.
\<close>

theorem running_app_safe:
  assumes "App_New env (Some cfg) = (Ok a, acts)" and "ae_OpenDB env (PostgresDSN cfg) = Ok db"
    and "sql_engine db committed working by_id by_time jsonb"
    and "redis_store (ae_Redis env (RedisAddr cfg) (rc_Password (cfg_Redis cfg)) (rc_DB (cfg_Redis cfg))) store unseen left"
    and "\<forall>ctx d e d'. ae_db_Ping env ctx d = (e, d') \<longrightarrow> committed d' = committed d"
    and "\<forall>ctx r e r'. ae_redis_Ping env ctx r = (e, r') \<longrightarrow> store r' \<subseteq>\<^sub>m store r"
    and "cached_stack.cinv (\<lambda>d. catalogue_ok (tb_products (committed d))) store dr"
    and "http_serve (app_deps a) rq (dr, lg) = (q, ms, (dr', lg'))"
  shows "cached_stack.cinv (\<lambda>d. catalogue_ok (tb_products (committed d))) store dr' \<and>
    catalogue_ok (tb_products (committed (fst dr'))) \<and>
    (\<exists>resp. q = Ok resp \<and> (rq_Path rq = ''/metrics'' \<or> rs_Status resp \<in> http_statuses))"
proof -
  let ?client = "ae_Redis env (RedisAddr cfg) (rc_Password (cfg_Redis cfg)) (rc_DB (cfg_Redis cfg))"
  let ?stack = "\<lparr>cd_cache = \<lparr>cache_client = ?client, cache_ttl = rc_TTL (cfg_Redis cfg)\<rparr>, cd_next = pg_repo db\<rparr>"
  let ?inv = "cached_stack.cinv (\<lambda>d. catalogue_ok (tb_products (committed d))) store"
  have spec: "spec_repository (pg_repo db) (\<lambda>d. catalogue_ok (tb_products (committed d))) (\<lambda>d. by_id (tb_products (committed d)))"
    by (rule sql_engine.pg_contract [OF assms(3)])
  have stack: "cached_stack (pg_repo db) (\<lambda>d. catalogue_ok (tb_products (committed d))) ?client store unseen left"
    by (intro cached_stack.intro assms(4) write_repository.axioms(1) [OF spec_repository.axioms(1) [OF spec]])
  have safe: "safe_repository (cached_repo ?stack) ?inv"
    by (rule cached_stack.stack_safe [OF stack])
  have a: "dep_CatalogService (app_deps a) = Some (service_of (cached_repo ?stack))"
    "dep_Logger (app_deps a) = Some Logger"
    "dep_ReadinessChecker (app_deps a) = Some (readiness_Check
       (Some \<lparr>chk_db = Some (ae_db_Ping env), chk_redis = Some (ae_redis_Ping env)\<rparr>))"
    using assms(1,2) by (auto simp: New_results service_of_def split: option.splits outcome.splits if_splits)
  have "?inv dr2" if "?inv dr1" "readiness_Check (Some \<lparr>chk_db = Some (ae_db_Ping env),
      chk_redis = Some (ae_redis_Ping env)\<rparr>) ctx dr1 = (e, dr2)" for ctx dr1 e dr2
  proof -
    have "committed (fst dr2) = committed (fst dr1)" "store (snd dr2) \<subseteq>\<^sub>m store (snd dr1)"
      using that(2) assms(5,6) by (auto simp: readiness_Check_def split: option.splits prod.splits)
    with that(1) show ?thesis by (intro cached_stack.cinv_weaker [OF stack that(1)]) simp_all
  qed
  then have deps: "deps_over (cached_repo ?stack) ?inv (app_deps a)"
    using a by (auto simp: deps_over_def)
  note served = safe_repository.http_serve_safe_lemma [OF safe assms(7) deps assms(8)]
  have "?inv dr'" using served by (rule conjunct1)
  moreover have "catalogue_ok (tb_products (committed (fst dr')))"
    by (rule cached_stack.cinv_next [OF stack \<open>?inv dr'\<close>])
  moreover have "\<exists>resp. q = Ok resp \<and> (rq_Path rq = ''/metrics'' \<or> rs_Status resp \<in> http_statuses)"
    using served by (rule conjunct2 [OF conjunct2])
  ultimately show ?thesis by (intro conjI)
qed

theorem running_app_safe_witness:
  "\<exists>a acts resp ms dr' lg'. App_New (ref_env None None) (Some default_config) = (Ok a, acts) \<and>
     http_serve (app_deps a) (admin_request ''DELETE'' ''/admin/products/prod-001'' [])
       ((ref_default [NoFault, FailsAfter], empty_redis [Breaks]), None) = (Ok resp, ms, (dr', lg')) \<and>
     rs_Status resp \<in> http_statuses \<and> catalogue_ok (tb_products (rd_committed (fst dr')))"
proof -
  let ?start = "(ref_default [NoFault, FailsAfter], empty_redis [Breaks])"
  let ?rq = "admin_request ''DELETE'' ''/admin/products/prod-001'' []"
  let ?inv = "cached_stack.cinv (\<lambda>d. catalogue_ok (tb_products (rd_committed d))) rr_store"
  obtain a acts where new: "App_New (ref_env None None) (Some default_config) = (Ok a, acts)"
    using ref_app by blast
  obtain q ms dr' lg' where run: "http_serve (app_deps a) ?rq (?start, None) = (q, ms, (dr', lg'))"
    by (metis surj_pair)
  have db: "ae_OpenDB (ref_env None None) (PostgresDSN default_config) = Ok ref_engine"
    by (simp add: ref_env_def)
  have redis: "redis_store (ae_Redis (ref_env None None) (RedisAddr default_config)
      (rc_Password (cfg_Redis default_config)) (rc_DB (cfg_Redis default_config))) rr_store rr_unseen rr_left"
    using rr.redis_store_axioms by (simp add: ref_env_def)
  have inv: "?inv ?start"
    by (rule cached_stack.cinv_start [OF pgc.cached_stack_axioms]) (simp_all add: catalogue_ok_default rr_store_empty)
  have pings: "\<forall>ctx d e d'. ae_db_Ping (ref_env None None) ctx d = (e, d') \<longrightarrow> rd_committed d' = rd_committed d"
    "\<forall>ctx r e r'. ae_redis_Ping (ref_env None None) ctx r = (e, r') \<longrightarrow> rr_store r' \<subseteq>\<^sub>m rr_store r"
    by (simp_all add: ref_env_def)
  note safe = running_app_safe [OF new db ref.sql_engine_axioms redis pings inv run]
  from conjunct2 [OF conjunct2 [OF safe]] obtain resp where resp: "q = Ok resp" "rs_Status resp \<in> http_statuses"
    by auto
  show ?thesis using new run [unfolded resp(1)] resp(2) conjunct1 [OF conjunct2 [OF safe]]
    by (intro exI conjI)
qed

end
