(* ===== verification/Catalog_Main.thy ===== *)
theory Catalog_Main
  imports App
begin

section \<open>The running program\<close>

text \<open>
  \<open>cmd/catalog/main.go\<close> and the goroutines that \<open>App.Run\<close> starts: the start, and then a step
  relation whose steps are those of the main goroutine (wait for a signal or an error, shut down,
  exit) and of the three workers (return from serving, send the error, end), in any order.
\<close>

subsection \<open>The start\<close>

definition fetchConfigPath :: "os_env \<Rightarrow> string \<Rightarrow> string" where
  "fetchConfigPath os flag = (if flag = [] then os_Getenv os ''CONFIG_PATH'' else flag)"

text \<open>\<open>log.Fatal\<close> ends the program with its message and the code 1.\<close>

datatype ('d, 'r, 'k) start = Fatal string | Crash string | Started config "('d, 'r, 'k) app"

definition catalog_start ::
  "os_env \<Rightarrow> ('d, 'r, 'k) app_env \<Rightarrow> string \<Rightarrow> ('d, 'r, 'k) start \<times> action list"
where
  "catalog_start os env flag =
     (let configPath = fetchConfigPath os flag in
      if configPath = [] then (Fatal ''config path is empty: use --config or CONFIG_PATH'', [])
      else
        (case Load os configPath of
           Err e \<Rightarrow> (Fatal (''failed to load config: '' @ error_text e), [])
         | Panic m \<Rightarrow> (Crash m, [])
         | Ok cfg \<Rightarrow>
             (case App_New env (Some cfg) of
                (Err e, acts) \<Rightarrow> (Fatal (''failed to create app: '' @ error_text e), acts)
              | (Panic m, acts) \<Rightarrow> (Crash m, acts)
              | (Ok a, acts) \<Rightarrow>
                  (case App_Run (Some a) of
                     (Some e, acts') \<Rightarrow> (Fatal (''failed to run app: '' @ error_text e), acts @ acts')
                   | (None, acts') \<Rightarrow> (Started cfg a, acts @ acts')))))"

subsection \<open>Goroutines\<close>

datatype worker = GrpcWorker | HttpWorker | OutboxWorker

datatype goroutine = Running | Sending go_error | Finished

text \<open>
  The main goroutine waits in its \<open>select\<close>, stops the two servers, cancels the context of the
  outbox, waits for the wait group, closes the clients and exits.
\<close>

datatype main_state =
    Selecting | StopServers | StopOutbox | AwaitOutbox | CloseClients | Exited nat

definition errCh_capacity :: nat where
  "errCh_capacity = 3"

record runtime =
  rt_go :: "worker \<Rightarrow> goroutine"
  rt_errCh :: "go_error list"
  rt_outboxWG :: nat
  rt_cancelled :: bool
  rt_main :: main_state

definition runtime_start :: runtime where
  "runtime_start =
     \<lparr>rt_go = (\<lambda>w. Running), rt_errCh = [], rt_outboxWG = 1, rt_cancelled = False, rt_main = Selecting\<rparr>"

text \<open>
  What a worker sends, by what its server ended with. The loop of the publisher ends only when
  its context is done, and then without an error.
\<close>

fun worker_error :: "worker \<Rightarrow> go_error option \<Rightarrow> go_error option" where
  "worker_error GrpcWorker served =
     map_option (\<lambda>e. Wrap ''grpc app failed: '' e []) (grpcapp_Run served)"
| "worker_error HttpWorker served =
     map_option (\<lambda>e. Wrap ''http app failed: '' e []) (httpapp_Run served)"
| "worker_error OutboxWorker served =
     map_option (\<lambda>e. Wrap ''outbox publisher failed: '' e []) served"

fun may_return :: "runtime \<Rightarrow> worker \<Rightarrow> go_error option \<Rightarrow> bool" where
  "may_return s OutboxWorker served \<longleftrightarrow> rt_cancelled s \<and> served = None"
| "may_return s w served \<longleftrightarrow> True"

lemma publisher_Run_done:
  "publisher_Run p ctx bs dk = (Some r, dk') \<Longrightarrow> Done \<in> set bs \<and> r = Ok () \<or> (\<exists>m. r = Panic m)"
  by (induction p ctx bs dk rule: publisher_Run.induct) (auto split: prod.splits outcome.splits)

text \<open>The end of a goroutine: the deferred \<open>outboxWG.Done\<close> of the publisher's.\<close>

definition go_end :: "worker \<Rightarrow> runtime \<Rightarrow> runtime" where
  "go_end w s =
     s\<lparr>rt_go := (rt_go s)(w := Finished),
       rt_outboxWG := rt_outboxWG s - (if w = OutboxWorker then 1 else 0)\<rparr>"

definition exit_code :: "go_error option result \<Rightarrow> nat" where
  "exit_code r = (case r of Ok None \<Rightarrow> 0 | Ok (Some e) \<Rightarrow> 1 | Err e \<Rightarrow> 1 | Panic m \<Rightarrow> 2)"

abbreviation ended :: "runtime \<Rightarrow> bool" where
  "ended s \<equiv> rt_main s \<in> range Exited"

inductive run_step :: "('d, 'r, 'k) app \<Rightarrow> stop_env \<Rightarrow> runtime \<Rightarrow> runtime \<Rightarrow> bool"
  for a :: "('d, 'r, 'k) app" and se :: stop_env
where
  Return_nil: "\<not> ended s \<Longrightarrow> rt_go s w = Running \<Longrightarrow> may_return s w served \<Longrightarrow>
    worker_error w served = None \<Longrightarrow> run_step a se s (go_end w s)"
| Return_error: "\<not> ended s \<Longrightarrow> rt_go s w = Running \<Longrightarrow> may_return s w served \<Longrightarrow>
    worker_error w served = Some e \<Longrightarrow> run_step a se s (s\<lparr>rt_go := (rt_go s)(w := Sending e)\<rparr>)"
| Send: "\<not> ended s \<Longrightarrow> rt_go s w = Sending e \<Longrightarrow> length (rt_errCh s) < errCh_capacity \<Longrightarrow>
    run_step a se s (go_end w (s\<lparr>rt_errCh := rt_errCh s @ [e]\<rparr>))"
| Signal: "rt_main s = Selecting \<Longrightarrow> run_step a se s (s\<lparr>rt_main := StopServers\<rparr>)"
| Receive: "rt_main s = Selecting \<Longrightarrow> rt_errCh s = e # es \<Longrightarrow>
    run_step a se s (s\<lparr>rt_errCh := es, rt_main := StopServers\<rparr>)"
| Stop_servers: "rt_main s = StopServers \<Longrightarrow> run_step a se s (s\<lparr>rt_main := StopOutbox\<rparr>)"
| Stop_outbox: "rt_main s = StopOutbox \<Longrightarrow>
    run_step a se s (s\<lparr>rt_cancelled := True, rt_main := AwaitOutbox\<rparr>)"
| Await: "rt_main s = AwaitOutbox \<Longrightarrow> rt_outboxWG s = 0 \<Longrightarrow>
    run_step a se s (s\<lparr>rt_main := CloseClients\<rparr>)"
| Exit: "rt_main s = CloseClients \<Longrightarrow>
    run_step a se s (s\<lparr>rt_main := Exited (exit_code (fst (Shutdown (Some a) se)))\<rparr>)"

subsection \<open>The invariant of the run\<close>

text \<open>
  Every worker has at most one error to send, so the free places of the channel are at least the
  workers that have not ended; the wait group counts the publisher's goroutine; the clients are
  closed only when it has ended.
\<close>

abbreviation unfinished :: "runtime \<Rightarrow> worker \<Rightarrow> nat" where
  "unfinished s w \<equiv> (if rt_go s w = Finished then 0 else 1)"

definition runtime_ok :: "runtime \<Rightarrow> bool" where
  "runtime_ok s \<longleftrightarrow>
     length (rt_errCh s) + unfinished s GrpcWorker + unfinished s HttpWorker + unfinished s OutboxWorker \<le> errCh_capacity \<and>
     rt_outboxWG s = unfinished s OutboxWorker \<and>
     (rt_main s = AwaitOutbox \<longrightarrow> rt_cancelled s) \<and>
     (rt_main s = CloseClients \<or> ended s \<longrightarrow> rt_go s OutboxWorker = Finished)"

lemma runtime_ok_start: "runtime_ok runtime_start"
  by (simp add: runtime_ok_def runtime_start_def errCh_capacity_def image_iff)

lemma runtime_ok_go_end:
  "runtime_ok s \<Longrightarrow> rt_go s w \<noteq> Finished \<Longrightarrow> length es \<le> Suc (length (rt_errCh s)) \<Longrightarrow>
     runtime_ok (go_end w (s\<lparr>rt_errCh := es\<rparr>))"
  by (cases w) (auto simp: runtime_ok_def go_end_def)

lemma runtime_ok_step: "run_step a se s s' \<Longrightarrow> runtime_ok s \<Longrightarrow> runtime_ok s'"
proof (induction rule: run_step.induct)
  case (Return_nil s w served)
  then show ?case using runtime_ok_go_end [of s w "rt_errCh s"] by simp
next
  case (Return_error s w served e)
  then show ?case by (cases w) (auto simp: runtime_ok_def)
next
  case (Send s w e)
  then show ?case using runtime_ok_go_end [of s w "rt_errCh s @ [e]"] by simp
qed (auto simp: runtime_ok_def)

lemma runtime_ok_run: "(run_step a se)\<^sup>*\<^sup>* runtime_start s \<Longrightarrow> runtime_ok s"
  by (induction rule: rtranclp_induct) (auto intro: runtime_ok_start runtime_ok_step)

lemma runtime_ok_room:
  "runtime_ok s \<Longrightarrow> rt_go s w = Sending e \<Longrightarrow> length (rt_errCh s) < errCh_capacity"
  by (cases w) (auto simp: runtime_ok_def split: if_splits)

text \<open>
  No goroutine is stuck in a send. Whatever order the steps come in, a worker that has an
  error to send finds room in \<open>errCh\<close> although nobody reads it after the first error, and can end
  at once; and the Kafka writer, Redis and the database are closed only when the publisher's
  goroutine, which uses them, has ended.
\<close>

theorem no_send_blocks:
  assumes "(run_step a se)\<^sup>*\<^sup>* runtime_start s"
  shows "(\<not> ended s \<longrightarrow> rt_go s w = Sending e \<longrightarrow> (\<exists>s'. run_step a se s s' \<and> rt_go s' w = Finished \<and> e \<in> set (rt_errCh s'))) \<and>
    (rt_main s = CloseClients \<or> ended s \<longrightarrow> rt_go s OutboxWorker = Finished)"
proof -
  have ok: "runtime_ok s" by (rule runtime_ok_run [OF assms])
  have "\<exists>s'. run_step a se s s' \<and> rt_go s' w = Finished \<and> e \<in> set (rt_errCh s')"
    if "\<not> ended s" "rt_go s w = Sending e"
    by (intro exI conjI, rule run_step.Send [OF that runtime_ok_room [OF ok that(2)]]) (simp_all add: go_end_def)
  with ok show ?thesis by (auto simp: runtime_ok_def)
qed

subsection \<open>The run ends\<close>

fun main_weight :: "main_state \<Rightarrow> nat" where
  "main_weight Selecting = 5"
| "main_weight StopServers = 4"
| "main_weight StopOutbox = 3"
| "main_weight AwaitOutbox = 2"
| "main_weight CloseClients = 1"
| "main_weight (Exited c) = 0"

abbreviation go_weight :: "goroutine \<Rightarrow> nat" where
  "go_weight g \<equiv> (case g of Running \<Rightarrow> 2 | Sending e \<Rightarrow> 1 | Finished \<Rightarrow> 0)"

definition run_weight :: "runtime \<Rightarrow> nat" where
  "run_weight s =
     main_weight (rt_main s) + go_weight (rt_go s GrpcWorker) + go_weight (rt_go s HttpWorker) +
     go_weight (rt_go s OutboxWorker)"

lemma run_step_weight: "run_step a se s s' \<Longrightarrow> run_weight s' < run_weight s"
proof (induction rule: run_step.induct)
  case (Return_nil s w served)
  then show ?case by (cases w) (auto simp: run_weight_def go_end_def)
next
  case (Return_error s w served e)
  then show ?case by (cases w) (auto simp: run_weight_def)
next
  case (Send s w e)
  then show ?case by (cases w) (auto simp: run_weight_def go_end_def)
qed (auto simp: run_weight_def)

lemma run_steps_weight: "(run_step a se ^^ n) s s' \<Longrightarrow> n + run_weight s' \<le> run_weight s"
proof (induction n arbitrary: s')
  case (Suc n)
  then obtain t where "(run_step a se ^^ n) s t" "run_step a se t s'" by auto
  with Suc.IH [of t] run_step_weight [of a se t s'] show ?case by simp
qed simp

text \<open>A run that has not ended can go on: after the cancellation by a step of the publisher.\<close>

lemma run_progress: "runtime_ok s \<Longrightarrow> \<not> ended s \<Longrightarrow> \<exists>s'. run_step a se s s'"
proof (cases "rt_main s")
  case AwaitOutbox
  assume ok: "runtime_ok s" and live: "\<not> ended s"
  then have cancelled: "rt_cancelled s" using AwaitOutbox by (simp add: runtime_ok_def)
  show ?thesis
  proof (cases "rt_go s OutboxWorker")
    case Running
    then show ?thesis
      using run_step.Return_nil [OF live, of OutboxWorker None] cancelled by auto
  next
    case (Sending e)
    then show ?thesis using run_step.Send [OF live Sending runtime_ok_room [OF ok Sending]] by blast
  next
    case Finished
    then show ?thesis using ok run_step.Await [OF AwaitOutbox] by (auto simp: runtime_ok_def)
  qed
qed (auto intro: run_step.intros)

lemma exited_code:
  "(run_step a se)\<^sup>*\<^sup>* runtime_start s \<Longrightarrow> rt_main s = Exited c \<Longrightarrow> c = exit_code (fst (Shutdown (Some a) se))"
proof (induction arbitrary: c rule: rtranclp_induct)
  case (step s s')
  from step.hyps(2) step.prems step.IH show ?case
    by (cases rule: run_step.cases) (auto simp: go_end_def)
qed (simp add: runtime_start_def)


subsection \<open>A run of the reference application\<close>

text \<open>The application that \<open>New\<close> makes of the default configuration, and a shutdown without errors.\<close>

definition ref_application :: "(ref_db, ref_redis, bool list \<times> kafka_message list) app" where
  "ref_application =
     (case fst (App_New (ref_env None None) (Some default_config)) of Ok a \<Rightarrow> a)"

definition no_stop_error :: stop_env where
  "no_stop_error =
     \<lparr>se_http = None, se_publisher = None, se_redis = None, se_db = None, se_tracing = None\<rparr>"

lemma ref_application_new:
  obtains acts where "App_New (ref_env None None) (Some default_config) = (Ok ref_application, acts)"
  using ref_app by (auto simp: ref_application_def)

text \<open>The gRPC server fails, and its goroutine has the error to send.\<close>

definition grpc_failed :: runtime where
  "grpc_failed = runtime_start\<lparr>rt_go := (rt_go runtime_start)
     (GrpcWorker := Sending (Wrap ''grpc app failed: '' (Wrap ''grpcapp.Run: '' conn_lost []) []))\<rparr>"

lemma grpc_failed_step: "run_step ref_application no_stop_error runtime_start grpc_failed"
  unfolding grpc_failed_def
  by (rule run_step.Return_error [where served = "Some conn_lost"])
     (auto simp: runtime_start_def grpcapp_Run_def)

theorem no_send_blocks_witness:
  "\<exists>s'. run_step ref_application no_stop_error grpc_failed s' \<and> rt_go s' GrpcWorker = Finished"
  using no_send_blocks [OF r_into_rtranclp [of "run_step ref_application no_stop_error", OF grpc_failed_step],
      where w = GrpcWorker]
  by (fastforce simp: grpc_failed_def runtime_start_def)

text \<open>A signal, the shutdown, the end of the publisher, the exit.\<close>

abbreviation stopped_at :: "main_state \<Rightarrow> runtime" where
  "stopped_at m \<equiv> runtime_start\<lparr>rt_cancelled := True, rt_main := m\<rparr>"

lemma run_step_first:
  "run_step a se s t \<Longrightarrow> (run_step a se ^^ n) t u \<Longrightarrow> (run_step a se ^^ Suc n) s u"
  by (rule relpowp_Suc_I2)

lemma ref_run:
  "\<exists>s. (run_step ref_application no_stop_error ^^ 6) runtime_start s \<and> (\<exists>c. rt_main s = Exited c)"
proof -
  let ?step = "run_step ref_application no_stop_error"
  let ?t = "runtime_start\<lparr>rt_main := StopServers\<rparr>"
  have 1: "?step runtime_start ?t" by (rule run_step.Signal) (simp add: runtime_start_def)
  have 2: "?step ?t (?t\<lparr>rt_main := StopOutbox\<rparr>)" by (rule run_step.Stop_servers) simp
  have 3: "?step (?t\<lparr>rt_main := StopOutbox\<rparr>) (stopped_at AwaitOutbox)"
    using run_step.Stop_outbox [of "?t\<lparr>rt_main := StopOutbox\<rparr>" ref_application no_stop_error] by simp
  have 4: "?step (stopped_at AwaitOutbox) (go_end OutboxWorker (stopped_at AwaitOutbox))"
    by (rule run_step.Return_nil [where served = None]) (auto simp: runtime_start_def)
  obtain u where 5: "?step (go_end OutboxWorker (stopped_at AwaitOutbox)) u" and u: "rt_main u = CloseClients"
    by (rule that, rule run_step.Await) (simp_all add: go_end_def runtime_start_def)
  obtain v c where 6: "?step u v" and v: "rt_main v = Exited c"
    by (rule that, rule run_step.Exit [OF u]) simp
  have "(?step ^^ Suc (Suc (Suc (Suc (Suc (Suc 0)))))) runtime_start v"
    by (rule run_step_first [OF 1 run_step_first [OF 2 run_step_first [OF 3 run_step_first [OF 4
        run_step_first [OF 5 run_step_first [OF 6 relpowp_0_I]]]]]])
  moreover have "Suc (Suc (Suc (Suc (Suc (Suc 0))))) = 6" by simp
  ultimately show ?thesis using v by metis
qed


end
