(* ===== verification/Rwmutex.thy ===== *)
theory Rwmutex
  imports Prelude
begin

section \<open>Goroutines under a read-write mutex\<close>

text \<open>
  \<open>sync.RWMutex\<close> of the standard library and goroutines that each run one critical section. A
  critical section is a sequence of single accesses to the shared memory, each of which may
  depend on what the ones before have seen; goroutines interleave between any two accesses. The
  theorem of this theory: whatever the interleaving, the goroutines answer, and leave the memory,
  as if they had run one after the other in the order in which they got the lock.
\<close>

datatype ('s, 'a) body =
    Return 'a
  | Access "'s \<Rightarrow> ('s, 'a) body \<times> 's"

text \<open>What a goroutine does: answer at once, or lock (for reading or for writing), run a section, unlock.\<close>

datatype ('s, 'a) code =
    Immediate 'a
  | RLocked "('s, 'a) body"
  | Locked "('s, 'a) body"

datatype ('s, 'a) goroutine =
    Pending "('s, 'a) code"
  | Reading "('s, 'a) body"
  | Writing "('s, 'a) body"
  | Answered 'a

record ('s, 'a) threads =
  th_memory :: 's
  th_writer :: bool
  th_readers :: nat
  th_all :: "('s, 'a) goroutine list"

definition threads_start :: "('s, 'a) code list \<Rightarrow> 's \<Rightarrow> ('s, 'a) threads" where
  "threads_start cs s = \<lparr>th_memory = s, th_writer = False, th_readers = 0, th_all = map Pending cs\<rparr>"

text \<open>
  The steps. Those that decide when a goroutine takes effect are labelled with it: an immediate
  answer and the two ways to get the lock. A reader waits for the writer, a writer for the
  writer and all readers.
\<close>

inductive thread_step ::
  "('s, 'a) threads \<Rightarrow> nat option \<Rightarrow> ('s, 'a) threads \<Rightarrow> bool"
where
  Answer: "t < length (th_all c) \<Longrightarrow> th_all c ! t = Pending (Immediate a) \<Longrightarrow>
    thread_step c (Some t) (c\<lparr>th_all := (th_all c)[t := Answered a]\<rparr>)"
| RLock: "t < length (th_all c) \<Longrightarrow> th_all c ! t = Pending (RLocked b) \<Longrightarrow> \<not> th_writer c \<Longrightarrow>
    thread_step c (Some t)
      (c\<lparr>th_readers := Suc (th_readers c), th_all := (th_all c)[t := Reading b]\<rparr>)"
| Lock: "t < length (th_all c) \<Longrightarrow> th_all c ! t = Pending (Locked b) \<Longrightarrow> \<not> th_writer c \<Longrightarrow>
    th_readers c = 0 \<Longrightarrow>
    thread_step c (Some t) (c\<lparr>th_writer := True, th_all := (th_all c)[t := Writing b]\<rparr>)"
| Read: "t < length (th_all c) \<Longrightarrow> th_all c ! t = Reading (Access f) \<Longrightarrow> f (th_memory c) = (b, s) \<Longrightarrow>
    thread_step c None (c\<lparr>th_memory := s, th_all := (th_all c)[t := Reading b]\<rparr>)"
| Write: "t < length (th_all c) \<Longrightarrow> th_all c ! t = Writing (Access f) \<Longrightarrow> f (th_memory c) = (b, s) \<Longrightarrow>
    thread_step c None (c\<lparr>th_memory := s, th_all := (th_all c)[t := Writing b]\<rparr>)"
| RUnlock: "t < length (th_all c) \<Longrightarrow> th_all c ! t = Reading (Return a) \<Longrightarrow>
    thread_step c None
      (c\<lparr>th_readers := th_readers c - 1, th_all := (th_all c)[t := Answered a]\<rparr>)"
| Unlock: "t < length (th_all c) \<Longrightarrow> th_all c ! t = Writing (Return a) \<Longrightarrow>
    thread_step c None (c\<lparr>th_writer := False, th_all := (th_all c)[t := Answered a]\<rparr>)"

text \<open>A run, with the goroutines in the order in which they took effect.\<close>

inductive thread_run ::
  "('s, 'a) threads \<Rightarrow> nat list \<Rightarrow> ('s, 'a) threads \<Rightarrow> bool"
where
  Stop: "thread_run c [] c"
| Internal: "thread_run c ts c' \<Longrightarrow> thread_step c' None c'' \<Longrightarrow> thread_run c ts c''"
| Effect: "thread_run c ts c' \<Longrightarrow> thread_step c' (Some t) c'' \<Longrightarrow> thread_run c (ts @ [t]) c''"

subsection \<open>One after the other\<close>

primrec run_body :: "('s, 'a) body \<Rightarrow> 's \<Rightarrow> 'a \<times> 's" where
  "run_body (Return a) = (\<lambda>s. (a, s))"
| "run_body (Access f) = (\<lambda>s. case map_prod run_body id (f s) of (g, s') \<Rightarrow> g s')"

fun run_code :: "('s, 'a) code \<Rightarrow> 's \<Rightarrow> 'a \<times> 's" where
  "run_code (Immediate a) s = (a, s)"
| "run_code (RLocked b) s = run_body b s"
| "run_code (Locked b) s = run_body b s"

text \<open>A section that only reads, and code that reads only under the read lock.\<close>

primrec read_only :: "('s, 'a) body \<Rightarrow> bool" where
  "read_only (Return a) = True"
| "read_only (Access f) = (\<forall>s. case map_prod read_only id (f s) of (ok, s') \<Rightarrow> ok \<and> s' = s)"

fun disciplined :: "('s, 'a) code \<Rightarrow> bool" where
  "disciplined (RLocked b) = read_only b"
| "disciplined _ = True"

definition one_more ::
  "('s, 'a) code list \<Rightarrow> nat \<Rightarrow> (nat \<rightharpoonup> 'a) \<times> 's \<Rightarrow> (nat \<rightharpoonup> 'a) \<times> 's"
where
  "one_more cs t ms = (case run_code (cs ! t) (snd ms) of (a, s) \<Rightarrow> ((fst ms)(t \<mapsto> a), s))"

definition in_order ::
  "('s, 'a) code list \<Rightarrow> nat list \<Rightarrow> 's \<Rightarrow> (nat \<rightharpoonup> 'a) \<times> 's"
where
  "in_order cs ts s = foldl (\<lambda>ms t. one_more cs t ms) (Map.empty, s) ts"

lemma in_order_simps [simp]:
  "in_order cs [] s = (Map.empty, s)"
  "in_order cs (ts @ [t]) s = one_more cs t (in_order cs ts s)"
  by (simp_all add: in_order_def)

lemma dom_in_order [simp]: "dom (fst (in_order cs ts s)) = set ts"
proof (induction ts rule: rev_induct)
  case (snoc t ts)
  have "dom (fst (one_more cs t ms)) = insert t (dom (fst ms))" for ms
    by (simp add: one_more_def split: prod.split)
  with snoc show ?case by simp
qed simp

lemma run_body_Access: "f s = (b, s') \<Longrightarrow> run_body (Access f) s = run_body b s'"
  by simp

lemma read_only_Access: "read_only (Access f) \<Longrightarrow> f s = (b, s') \<Longrightarrow> read_only b \<and> s' = s"
  by (auto dest: spec [of _ s])

lemma read_only_run: "read_only b \<Longrightarrow> snd (run_body b s) = s"
proof (induction b arbitrary: s)
  case (Access f)
  obtain b s' where f: "f s = (b, s')" by force
  with read_only_Access [OF Access.prems f] Access.IH [of "f s" b] show ?case
    by (metis fsts.intros fst_conv rangeI run_body_Access)
qed simp

declare run_body.simps(2) [simp del] read_only.simps(2) [simp del]

subsection \<open>Every interleaving is one after the other\<close>

fun is_reading :: "('s, 'a) goroutine \<Rightarrow> bool" where
  "is_reading (Reading b) = True"
| "is_reading _ = False"

fun is_writing :: "('s, 'a) goroutine \<Rightarrow> bool" where
  "is_writing (Writing b) = True"
| "is_writing _ = False"

abbreviation count :: "('s, 'a) goroutine list \<Rightarrow> (('s, 'a) goroutine \<Rightarrow> bool) \<Rightarrow> nat" where
  "count gs P \<equiv> length (filter P gs)"

lemma count_update:
  "t < length gs \<Longrightarrow>
     count (gs[t := g]) P + (if P (gs ! t) then 1 else 0) = count gs P + (if P g then 1 else 0)"
proof (induction gs arbitrary: t)
  case (Cons h gs)
  then show ?case by (cases t) auto
qed simp

lemma count_pos: "t < length gs \<Longrightarrow> P (gs ! t) \<Longrightarrow> 0 < count gs P"
  by (auto simp: filter_empty_conv)

lemma count_unique:
  "count gs P \<le> 1 \<Longrightarrow> t < length gs \<Longrightarrow> P (gs ! t) \<Longrightarrow> t' < length gs \<Longrightarrow> P (gs ! t') \<Longrightarrow> t = t'"
proof (induction gs arbitrary: t t')
  case (Cons g gs)
  then show ?case
    by (cases t; cases t') (auto split: if_splits dest: nth_mem simp: filter_empty_conv)
qed simp

text \<open>
  What a goroutine has still to do gives, from the present memory, the answer it has when the
  goroutines run one after the other; for the one that writes, also the memory they leave.
\<close>

fun goroutine_ok ::
  "('s, 'a) code \<Rightarrow> 'a option \<Rightarrow> 's \<Rightarrow> 's \<Rightarrow> ('s, 'a) goroutine \<Rightarrow> bool"
where
  "goroutine_ok code ans mem end (Pending code') \<longleftrightarrow> ans = None \<and> code' = code"
| "goroutine_ok code ans mem end (Reading b) \<longleftrightarrow> read_only b \<and> ans = Some (fst (run_body b mem))"
| "goroutine_ok code ans mem end (Writing b) \<longleftrightarrow>
     (\<exists>a. ans = Some a \<and> run_body b mem = (a, end))"
| "goroutine_ok code ans mem end (Answered a) \<longleftrightarrow> ans = Some a"

definition threads_ok ::
  "('s, 'a) code list \<Rightarrow> (nat \<rightharpoonup> 'a) \<times> 's \<Rightarrow> ('s, 'a) threads \<Rightarrow> bool"
where
  "threads_ok cs ms c \<longleftrightarrow>
     length (th_all c) = length cs \<and>
     (\<forall>t < length cs. goroutine_ok (cs ! t) (fst ms t) (th_memory c) (snd ms) (th_all c ! t)) \<and>
     count (th_all c) is_writing = (if th_writer c then 1 else 0) \<and>
     count (th_all c) is_reading = th_readers c \<and>
     (th_writer c \<longrightarrow> th_readers c = 0) \<and>
     (\<not> th_writer c \<longrightarrow> th_memory c = snd ms)"

lemma threads_ok_start: "threads_ok cs (Map.empty, s) (threads_start cs s)"
  by (simp add: threads_ok_def threads_start_def filter_empty_conv)

lemma goroutine_ok_other:
  "goroutine_ok code ans mem end g \<Longrightarrow> \<not> is_writing g \<Longrightarrow> goroutine_ok code ans mem end' g"
  "goroutine_ok code ans mem end g \<Longrightarrow> \<not> is_writing g \<Longrightarrow> \<not> is_reading g \<Longrightarrow>
     goroutine_ok code ans mem' end' g"
  by (cases g; simp)+

text \<open>One goroutine moves to \<open>g\<close>; the others are as before, in the new memory.\<close>

lemma threads_okI:
  assumes ok: "threads_ok cs ms c" and t: "t < length (th_all c)" and all: "th_all c' = (th_all c)[t := g]"
    and new: "goroutine_ok (cs ! t) (fst ms' t) (th_memory c') (snd ms') g"
    and others: "\<And>u. u < length cs \<Longrightarrow> u \<noteq> t \<Longrightarrow>
        goroutine_ok (cs ! u) (fst ms u) (th_memory c) (snd ms) (th_all c ! u) \<Longrightarrow>
        goroutine_ok (cs ! u) (fst ms' u) (th_memory c') (snd ms') (th_all c ! u)"
    and writer: "(if th_writer c' then 1 else 0) + (if is_writing (th_all c ! t) then 1 else 0) =
        (if th_writer c then 1 else 0) + (if is_writing g then 1 else (0 :: nat))"
    and readers: "th_readers c' + (if is_reading (th_all c ! t) then 1 else 0) =
        th_readers c + (if is_reading g then 1 else 0)"
    and apart: "th_writer c' \<Longrightarrow> th_readers c' = 0" and mem: "\<not> th_writer c' \<Longrightarrow> th_memory c' = snd ms'"
  shows "threads_ok cs ms' c'"
proof -
  have "goroutine_ok (cs ! u) (fst ms' u) (th_memory c') (snd ms') ((th_all c)[t := g] ! u)" if "u < length cs" for u
    using that ok new others [of u] by (cases "u = t") (auto simp: threads_ok_def)
  moreover have "count ((th_all c)[t := g]) is_writing = (if th_writer c' then 1 else 0)"
    using count_update [OF t, of is_writing g] writer ok unfolding threads_ok_def by linarith
  moreover have "count ((th_all c)[t := g]) is_reading = th_readers c'"
    using count_update [OF t, of is_reading g] readers ok unfolding threads_ok_def by linarith
  ultimately show ?thesis using ok all apart mem by (simp add: threads_ok_def)
qed

lemma reading_facts:
  "threads_ok cs ms c \<Longrightarrow> t < length (th_all c) \<Longrightarrow> is_reading (th_all c ! t) \<Longrightarrow>
     \<not> th_writer c \<and> 0 < th_readers c \<and> th_memory c = snd ms"
  using count_pos [of t "th_all c" is_reading] by (auto simp: threads_ok_def)

lemma writing_facts:
  assumes ok: "threads_ok cs ms c" and t: "t < length (th_all c)" "is_writing (th_all c ! t)"
  shows "th_writer c \<and> th_readers c = 0 \<and>
     (\<forall>u < length (th_all c). u \<noteq> t \<longrightarrow> \<not> is_writing (th_all c ! u) \<and> \<not> is_reading (th_all c ! u))"
proof -
  have "0 < count (th_all c) is_writing" using count_pos t by blast
  then have w: "th_writer c" using ok unfolding threads_ok_def by (metis less_irrefl)
  then have counts: "th_readers c = 0" "count (th_all c) is_writing \<le> 1" "count (th_all c) is_reading = 0"
    using ok unfolding threads_ok_def by simp_all
  have "\<not> is_reading (th_all c ! u)" if "u < length (th_all c)" for u
    using count_pos [of u "th_all c" is_reading] that counts(3) by auto
  then show ?thesis using w counts count_unique [OF counts(2) t] by blast
qed

lemma goroutine_ok_nth:
  "threads_ok cs ms c \<Longrightarrow> t < length (th_all c) \<Longrightarrow>
     t < length cs \<and> goroutine_ok (cs ! t) (fst ms t) (th_memory c) (snd ms) (th_all c ! t)"
  by (simp add: threads_ok_def)

lemma no_writer_facts:
  "threads_ok cs ms c \<Longrightarrow> \<not> th_writer c \<Longrightarrow> u < length (th_all c) \<Longrightarrow> \<not> is_writing (th_all c ! u)"
  using count_pos [of u "th_all c" is_writing] by (auto simp: threads_ok_def)

lemma no_reader_facts:
  "threads_ok cs ms c \<Longrightarrow> th_readers c = 0 \<Longrightarrow> u < length (th_all c) \<Longrightarrow> \<not> is_reading (th_all c ! u)"
  using count_pos [of u "th_all c" is_reading] by (auto simp: threads_ok_def)

lemma internal_step_ok: "thread_step c None c' \<Longrightarrow> threads_ok cs ms c \<Longrightarrow> threads_ok cs ms c'"
proof (induction c "None :: nat option" c' rule: thread_step.induct)
  case (Read t c f b s)
  note g = goroutine_ok_nth [OF Read.prems Read.hyps(1)] reading_facts [OF Read.prems Read.hyps(1)]
  have "read_only b" "s = th_memory c"
    using g(1) Read.hyps(2) read_only_Access [of f "th_memory c" b s] Read.hyps(3) by auto
  with g Read.hyps show ?case
    by (intro threads_okI [OF Read.prems, of t _ "Reading b"]) (auto simp: run_body_Access)
next
  case (Write t c f b s)
  note g = goroutine_ok_nth [OF Write.prems Write.hyps(1)] writing_facts [OF Write.prems Write.hyps(1)]
  have len: "length (th_all c) = length cs" using Write.prems by (simp add: threads_ok_def)
  show ?case
    using g Write.hyps len
    by (intro threads_okI [OF Write.prems, of t _ "Writing b"])
       (auto simp: run_body_Access intro: goroutine_ok_other)
next
  case (RUnlock t c a)
  note g = goroutine_ok_nth [OF RUnlock.prems RUnlock.hyps(1)] reading_facts [OF RUnlock.prems RUnlock.hyps(1)]
  show ?case
    using g RUnlock.hyps by (intro threads_okI [OF RUnlock.prems, of t _ "Answered a"]) auto
next
  case (Unlock t c a)
  note g = goroutine_ok_nth [OF Unlock.prems Unlock.hyps(1)] writing_facts [OF Unlock.prems Unlock.hyps(1)]
  show ?case
    using g Unlock.hyps by (intro threads_okI [OF Unlock.prems, of t _ "Answered a"]) auto
qed

lemma effect_step_ok:
  "thread_step c (Some t) c' \<Longrightarrow> threads_ok cs ms c \<Longrightarrow> list_all disciplined cs \<Longrightarrow>
     t < length cs \<and> fst ms t = None \<and> threads_ok cs (one_more cs t ms) c'"
proof (induction c "Some t" c' rule: thread_step.induct)
  case (Answer c a)
  note g = goroutine_ok_nth [OF Answer.prems(1) Answer.hyps(1)]
  have code: "cs ! t = Immediate a" using g Answer.hyps(2) by simp
  show ?case
    using g Answer.hyps code
    by (auto simp: one_more_def intro!: threads_okI [OF Answer.prems(1), of t _ "Answered a"])
       (use Answer.prems(1) in \<open>auto simp: threads_ok_def\<close>)
next
  case (RLock c b)
  note g = goroutine_ok_nth [OF RLock.prems(1) RLock.hyps(1)]
  have code: "cs ! t = RLocked b" using g RLock.hyps(2) by simp
  then have ro: "read_only b"
    using RLock.prems(2) g by (metis disciplined.simps(1) list_all_length)
  have mem: "th_memory c = snd ms" using RLock.prems(1) RLock.hyps(3) by (simp add: threads_ok_def)
  obtain a where a: "run_body b (snd ms) = (a, snd ms)"
    using read_only_run [OF ro, of "snd ms"] by (metis prod.collapse)
  show ?case
    using g RLock.hyps code ro mem a
    by (auto simp: one_more_def intro!: threads_okI [OF RLock.prems(1), of t _ "Reading b"])
next
  case (Lock c b)
  note g = goroutine_ok_nth [OF Lock.prems(1) Lock.hyps(1)]
  have code: "cs ! t = Locked b" using g Lock.hyps(2) by simp
  have len: "length (th_all c) = length cs" and mem: "th_memory c = snd ms"
    using Lock.prems(1) Lock.hyps(3) by (simp_all add: threads_ok_def)
  obtain a s where a: "run_body b (snd ms) = (a, s)" by force
  show ?case
    using g Lock.hyps code mem a len
      no_writer_facts [OF Lock.prems(1) Lock.hyps(3)] no_reader_facts [OF Lock.prems(1) Lock.hyps(4)]
    by (auto simp: one_more_def intro!: threads_okI [OF Lock.prems(1), of t _ "Writing b"]
        intro: goroutine_ok_other)
qed

lemma thread_run_ok:
  "thread_run (threads_start cs s) ts c \<Longrightarrow> list_all disciplined cs \<Longrightarrow>
     threads_ok cs (in_order cs ts s) c \<and> distinct ts \<and> set ts \<subseteq> {..<length cs}"
proof (induction "threads_start cs s" ts c rule: thread_run.induct)
  case Stop
  then show ?case by (simp add: threads_ok_start)
next
  case (Internal ts c' c'')
  then show ?case using internal_step_ok by blast
next
  case (Effect ts c' t c'')
  have ok: "threads_ok cs (in_order cs ts s) c'" "distinct ts" "set ts \<subseteq> {..<length cs}"
    using Effect.hyps(2) Effect.prems by blast+
  note t = effect_step_ok [OF Effect.hyps(3) ok(1) Effect.prems]
  then have "t \<notin> set ts" using dom_in_order [of cs ts s] by (metis domIff)
  with t ok show ?case by simp
qed

abbreviation all_answered :: "('s, 'a) threads \<Rightarrow> bool" where
  "all_answered c \<equiv> \<forall>t < length (th_all c). \<exists>a. th_all c ! t = Answered a"

text \<open>At the end: the answers and the memory are those of one goroutine after the other.\<close>

lemma answered_in_order:
  assumes run: "thread_run (threads_start cs s) ts c" and rd: "list_all disciplined cs" and all: "all_answered c"
  shows "distinct ts \<and> set ts = {..<length cs} \<and> th_memory c = snd (in_order cs ts s) \<and>
    length (th_all c) = length cs \<and>
    (\<forall>t < length cs. \<exists>a. th_all c ! t = Answered a \<and> fst (in_order cs ts s) t = Some a)"
proof -
  have ok: "threads_ok cs (in_order cs ts s) c" "distinct ts" "set ts \<subseteq> {..<length cs}"
    using thread_run_ok [OF run rd] by blast+
  have len: "length (th_all c) = length cs" using ok(1) by (simp add: threads_ok_def)
  have ans: "\<exists>a. th_all c ! t = Answered a \<and> fst (in_order cs ts s) t = Some a" if "t < length cs" for t
    using goroutine_ok_nth [OF ok(1), of t] all that len by force
  then have "{..<length cs} \<subseteq> set ts" using dom_in_order [of cs ts s] by blast
  moreover have "\<not> th_writer c"
  proof
    assume "th_writer c"
    then have "filter is_writing (th_all c) \<noteq> []" using ok(1) by (auto simp: threads_ok_def)
    then obtain g where "g \<in> set (th_all c)" "is_writing g" by (auto simp: filter_empty_conv)
    then show False using all by (auto simp: in_set_conv_nth)
  qed
  ultimately show ?thesis using ok ans len by (auto simp: threads_ok_def)
qed

subsection \<open>No deadlock, and an end\<close>

lemma threads_progress:
  assumes ok: "threads_ok cs ms c" and more: "\<not> all_answered c"
  shows "\<exists>l c'. thread_step c l c'"
proof (cases "\<exists>t < length (th_all c). is_reading (th_all c ! t) \<or> is_writing (th_all c ! t)")
  case True
  then obtain t where t: "t < length (th_all c)" and "is_reading (th_all c ! t) \<or> is_writing (th_all c ! t)" by blast
  then obtain b where "th_all c ! t = Reading b \<or> th_all c ! t = Writing b"
    by (cases "th_all c ! t") auto
  with t show ?thesis
    by (cases b) (metis thread_step.Read thread_step.Write thread_step.RUnlock thread_step.Unlock surj_pair)+
next
  case False
  then have "count (th_all c) is_writing = 0" "count (th_all c) is_reading = 0"
    by (auto simp: filter_empty_conv in_set_conv_nth)
  then have free: "\<not> th_writer c" "th_readers c = 0"
    using ok by (auto simp: threads_ok_def split: if_splits)
  obtain t where t: "t < length (th_all c)" "\<nexists>a. th_all c ! t = Answered a" using more by blast
  with False obtain code where "th_all c ! t = Pending code"
    by (cases "th_all c ! t") auto
  with t free show ?thesis
    by (cases code) (metis thread_step.Answer thread_step.RLock thread_step.Lock)+
qed

text \<open>How many steps a goroutine may still take.\<close>

fun body_within :: "nat \<Rightarrow> ('s, 'a) body \<Rightarrow> bool" where
  "body_within n (Return a) \<longleftrightarrow> True"
| "body_within 0 (Access f) \<longleftrightarrow> False"
| "body_within (Suc n) (Access f) \<longleftrightarrow> (\<forall>s. body_within n (fst (f s)))"

fun code_within :: "nat \<Rightarrow> ('s, 'a) code \<Rightarrow> bool" where
  "code_within n (Immediate a) \<longleftrightarrow> True"
| "code_within n (RLocked b) \<longleftrightarrow> body_within n b"
| "code_within n (Locked b) \<longleftrightarrow> body_within n b"

fun goroutine_within :: "nat \<Rightarrow> ('s, 'a) goroutine \<Rightarrow> bool" where
  "goroutine_within k (Pending code) \<longleftrightarrow> (\<exists>n. k = n + 2 \<and> code_within n code)"
| "goroutine_within k (Reading b) \<longleftrightarrow> (\<exists>n. k = n + 1 \<and> body_within n b)"
| "goroutine_within k (Writing b) \<longleftrightarrow> (\<exists>n. k = n + 1 \<and> body_within n b)"
| "goroutine_within k (Answered a) \<longleftrightarrow> True"

lemma body_within_Access:
  "body_within n (Access f) \<Longrightarrow> f s = (b, s') \<Longrightarrow> \<exists>m. n = Suc m \<and> body_within m b"
  by (cases n) (auto dest: spec [of _ s])

lemma step_within:
  assumes "thread_step c l c'" and "length ks = length (th_all c)"
    and "\<forall>t < length ks. goroutine_within (ks ! t) (th_all c ! t)"
  shows "\<exists>ks'. length ks' = length (th_all c') \<and>
    (\<forall>t < length ks'. goroutine_within (ks' ! t) (th_all c' ! t)) \<and> sum_list ks' < sum_list ks"
proof -
  have less: "\<exists>t g k. t < length (th_all c) \<and> th_all c' = (th_all c)[t := g] \<and> goroutine_within k g \<and> k < ks ! t"
    using assms
  proof (induction rule: thread_step.induct)
    case (Read t c f b s)
    have "goroutine_within (ks ! t) (th_all c ! t)" using Read.prems Read.hyps(1) by simp
    then have "goroutine_within (ks ! t) (Reading (Access f))" by (simp only: Read.hyps(2))
    then obtain n where n: "ks ! t = n + 1" "body_within n (Access f)" by auto
    then obtain m where "n = Suc m" "body_within m b" using body_within_Access [OF n(2) Read.hyps(3)] by blast
    with n Read.hyps(1) show ?case
      by - (rule exI [of _ t], rule exI [of _ "Reading b"], rule exI [of _ "m + 1"], simp)
  next
    case (Write t c f b s)
    have "goroutine_within (ks ! t) (th_all c ! t)" using Write.prems Write.hyps(1) by simp
    then have "goroutine_within (ks ! t) (Writing (Access f))" by (simp only: Write.hyps(2))
    then obtain n where n: "ks ! t = n + 1" "body_within n (Access f)" by auto
    then obtain m where "n = Suc m" "body_within m b" using body_within_Access [OF n(2) Write.hyps(3)] by blast
    with n Write.hyps(1) show ?case
      by - (rule exI [of _ t], rule exI [of _ "Writing b"], rule exI [of _ "m + 1"], simp)
  next
    case (Answer t c a)
    have "goroutine_within (ks ! t) (th_all c ! t)" using Answer.prems Answer.hyps(1) by simp
    then obtain n where "ks ! t = n + 2" by (auto simp: Answer.hyps(2))
    with Answer.hyps(1) show ?case by - (rule exI [of _ t], rule exI [of _ "Answered a"], rule exI [of _ "0"], simp)
  next
    case (RLock t c b)
    have "goroutine_within (ks ! t) (th_all c ! t)" using RLock.prems RLock.hyps(1) by simp
    then obtain n where "ks ! t = n + 2" "body_within n b" by (auto simp: RLock.hyps(2))
    with RLock.hyps(1) show ?case by - (rule exI [of _ t], rule exI [of _ "Reading b"], rule exI [of _ "n + 1"], simp)
  next
    case (Lock t c b)
    have "goroutine_within (ks ! t) (th_all c ! t)" using Lock.prems Lock.hyps(1) by simp
    then obtain n where "ks ! t = n + 2" "body_within n b" by (auto simp: Lock.hyps(2))
    with Lock.hyps(1) show ?case by - (rule exI [of _ t], rule exI [of _ "Writing b"], rule exI [of _ "n + 1"], simp)
  next
    case (RUnlock t c a)
    have "goroutine_within (ks ! t) (th_all c ! t)" using RUnlock.prems RUnlock.hyps(1) by simp
    then obtain n where "ks ! t = n + 1" by (auto simp: RUnlock.hyps(2))
    with RUnlock.hyps(1) show ?case by - (rule exI [of _ t], rule exI [of _ "Answered a"], rule exI [of _ "0"], simp)
  next
    case (Unlock t c a)
    have "goroutine_within (ks ! t) (th_all c ! t)" using Unlock.prems Unlock.hyps(1) by simp
    then obtain n where "ks ! t = n + 1" by (auto simp: Unlock.hyps(2))
    with Unlock.hyps(1) show ?case by - (rule exI [of _ t], rule exI [of _ "Answered a"], rule exI [of _ "0"], simp)
  qed
  then obtain t g k where t: "t < length ks" "th_all c' = (th_all c)[t := g]" "goroutine_within k g" "k < ks ! t"
    using assms(2) by auto
  have "sum_list (ks[t := k]) + ks ! t = sum_list ks + k"
    using t(1) elem_le_sum_list [OF t(1)] by (simp add: sum_list_update)
  then have "sum_list (ks[t := k]) < sum_list ks" using t(4) by linarith
  then show ?thesis
    using t assms(2,3) by (intro exI [of _ "ks[t := k]"]) (auto simp: nth_list_update)
qed

definition any_step :: "('s, 'a) threads \<Rightarrow> ('s, 'a) threads \<Rightarrow> bool" where
  "any_step c c' \<longleftrightarrow> (\<exists>l. thread_step c l c')"

lemma steps_within:
  "(any_step ^^ n) c c' \<Longrightarrow> length ks = length (th_all c) \<Longrightarrow>
     \<forall>t < length ks. goroutine_within (ks ! t) (th_all c ! t) \<Longrightarrow> n \<le> sum_list ks"
proof (induction n arbitrary: c ks)
  case (Suc n)
  from Suc.prems(1) obtain d where d: "any_step c d" "(any_step ^^ n) d c'"
    by (metis relpowp_Suc_D2)
  from d(1) obtain l where "thread_step c l d" by (auto simp: any_step_def)
  from step_within [OF this Suc.prems(2,3)] obtain ks' where "length ks' = length (th_all d)"
    "\<forall>t < length ks'. goroutine_within (ks' ! t) (th_all d ! t)" "sum_list ks' < sum_list ks" by blast
  with Suc.IH [OF d(2), of ks'] show ?case by simp
qed simp

lemma threads_end:
  assumes "(any_step ^^ n) (threads_start cs s) c" and "list_all (code_within d) cs"
  shows "n \<le> length cs * (d + 2)"
proof -
  have "n \<le> sum_list (replicate (length cs) (d + 2))"
    by (rule steps_within [OF assms(1)])
       (use assms(2) in \<open>auto simp: threads_start_def list_all_length\<close>)
  then show ?thesis by (simp add: sum_list_replicate)
qed

lemma any_steps_run: "(any_step ^^ n) (threads_start cs s) c \<Longrightarrow> \<exists>ts. thread_run (threads_start cs s) ts c"
proof (induction n arbitrary: c)
  case 0
  then show ?case by (auto intro: thread_run.Stop)
next
  case (Suc n)
  then obtain d where d: "(any_step ^^ n) (threads_start cs s) d" "any_step d c" by auto
  then obtain l where step: "thread_step d l c" by (auto simp: any_step_def)
  from d(1) Suc.IH obtain ts where run: "thread_run (threads_start cs s) ts d" by blast
  show ?case
  proof (cases l)
    case None
    with run step show ?thesis by (blast intro: thread_run.Internal)
  next
    case (Some t)
    with run step show ?thesis by (blast intro: thread_run.Effect)
  qed
qed

lemma stuck_answered:
  assumes "(any_step ^^ n) (threads_start cs s) c" and "list_all disciplined cs" and "\<nexists>c'. any_step c c'"
  shows "all_answered c"
proof -
  obtain ts where run: "thread_run (threads_start cs s) ts c" using any_steps_run [OF assms(1)] by blast
  note ok = conjunct1 [OF thread_run_ok [OF run assms(2)]]
  show ?thesis
  proof (rule ccontr)
    assume "\<not> all_answered c"
    from threads_progress [OF ok this] assms(3) show False by (auto simp: any_step_def)
  qed
qed

lemma run_length: "(any_step ^^ n) (threads_start cs s) c \<Longrightarrow> length (th_all c) = length cs"
proof (induction n arbitrary: c)
  case (Suc n)
  then obtain d where d: "(any_step ^^ n) (threads_start cs s) d" "any_step d c" by auto
  then obtain l where "thread_step d l c" by (auto simp: any_step_def)
  with Suc.IH [OF d(1)] show ?case by (auto elim: thread_step.cases)
qed (simp add: threads_start_def)

lemma threads_get_stuck:
  assumes "list_all (code_within d) cs"
  obtains n c where "(any_step ^^ n) (threads_start cs s) c" and "\<nexists>c'. any_step c c'"
  by (rule bounded_run_ends [OF threads_end [OF _ assms]])

lemma threads_finish:
  assumes "list_all disciplined cs" and "list_all (code_within d) cs"
  shows "\<exists>ts c. thread_run (threads_start cs s) ts c \<and> all_answered c"
proof -
  obtain n c where c: "(any_step ^^ n) (threads_start cs s) c" "\<nexists>c'. any_step c c'"
    by (rule threads_get_stuck [OF assms(2)])
  show ?thesis using stuck_answered [OF c(1) assms(1) c(2)] any_steps_run [OF c(1)] by blast
qed

end
