(* ===== verification/Concurrent.thy ===== *)
theory Concurrent
  imports History Rwmutex
begin

section \<open>Concurrent requests over the in-memory repository\<close>

text \<open>
  The methods of \<open>internal/repository/in_memory/product_repository.go\<close> once more, now with what
  \<open>In_Memory\<close> takes as one step written as the code has it: the look at the context, the lock, and
  between lock and unlock each read of \<open>r.products\<close> or \<open>r.byID\<close> and each assignment as an access
  of its own. Goroutines that serve requests interleave between the accesses.
\<close>

subsection \<open>The methods, access by access\<close>

definition im_List_code :: "context_err \<Rightarrow> int64 \<Rightarrow> int64 \<Rightarrow> (in_memory, response) code" where
  "im_List_code ctx limit offset =
     (case ctx of
        Some d \<Rightarrow> Immediate (Page (Err (ctx_error d)))
      | None \<Rightarrow> RLocked (Access (\<lambda>r.
         (let n = length (products r) in
          if int n \<le> sint offset then Return (Page (Ok []))
          else
            let end = offset + limit;
                end = (if int n < sint end then word_of_int (int n) else end)
            in Access (\<lambda>r.
                 (if 0 \<le> sint offset \<and> sint offset \<le> sint end \<and> sint end \<le> int (length (products r))
                  then Return (Page (Ok (take (nat (sint end - sint offset)) (drop (nat (sint offset)) (products r)))))
                  else Return (Page (Panic ''slice bounds out of range'')), r)), r))))"

definition im_GetByID_code :: "context_err \<Rightarrow> string \<Rightarrow> (in_memory, response) code" where
  "im_GetByID_code ctx i =
     (case ctx of
        Some d \<Rightarrow> Immediate (One (Err (ctx_error d)))
      | None \<Rightarrow> RLocked (Access (\<lambda>r.
          (case byID r i of
             None \<Rightarrow> Return (One (Err ErrProductNotFound))
           | Some p \<Rightarrow> Return (One (Ok p)), r))))"

text \<open>An assignment to the slice, and one to the map.\<close>

definition set_products ::
  "(product list \<Rightarrow> product list) \<Rightarrow> (in_memory, 'a) body \<Rightarrow> (in_memory, 'a) body"
where
  "set_products f next = Access (\<lambda>r. (next, r\<lparr>products := f (products r)\<rparr>))"

definition set_byID :: "product \<Rightarrow> (in_memory, 'a) body \<Rightarrow> (in_memory, 'a) body" where
  "set_byID p next = Access (\<lambda>r. (next, r\<lparr>byID := (byID r)(ID p \<mapsto> p)\<rparr>))"

definition im_Create_code :: "context_err \<Rightarrow> create_cmd \<Rightarrow> (in_memory, response) code" where
  "im_Create_code ctx c =
     Locked (Access (\<lambda>r.
       (if list_ex (\<lambda>p. SKU p = cSKU c) (products r) then Return (One (Err ErrProductAlreadyExists))
        else Access (\<lambda>r.
          (let product =
                 \<lparr>ID = prod_id (length (products r) + 1),
                  SKU = cSKU c, Name = cName c, Description = cDescription c,
                  PriceCents = cPriceCents c, Currency = cCurrency c, Stock = cStock c,
                  Active = True\<rparr>
           in set_products (\<lambda>ps. ps @ [product]) (set_byID product (Return (One (Ok product)))), r)), r)))"

definition im_Update_code :: "context_err \<Rightarrow> update_cmd \<Rightarrow> (in_memory, response) code" where
  "im_Update_code ctx u =
     Locked (Access (\<lambda>r.
       (case byID r (uID u) of
          None \<Rightarrow> Return (One (Err ErrProductNotFound))
        | Some product \<Rightarrow>
            (let product = apply_update u product
             in set_byID product (set_products (replace_first product) (Return (One (Ok product))))), r)))"

definition im_UpdateStock_code :: "context_err \<Rightarrow> string \<Rightarrow> int32 \<Rightarrow> (in_memory, response) code" where
  "im_UpdateStock_code ctx productID delta =
     Locked (Access (\<lambda>r.
       (case byID r productID of
          None \<Rightarrow> Return (One (Err ErrProductNotFound))
        | Some product \<Rightarrow>
            (let newStock = Stock product + delta in
             if newStock <s 0 then Return (One (Err ErrInsufficientStock))
             else
               let product = product\<lparr>Stock := newStock\<rparr>
               in set_byID product (set_products (replace_first product) (Return (One (Ok product))))), r)))"

subsection \<open>The requests\<close>

text \<open>
  What a request does to its repository is read off the service itself: it runs over a repository
  that records the calls. A request that makes none is answered by the service alone.
\<close>

datatype repo_call =
    CallList context_err int64 int64
  | CallGetByID context_err string
  | CallCreate context_err create_cmd
  | CallUpdate context_err update_cmd
  | CallUpdateStock context_err string int32

definition recorder :: "repo_call list product_repository" where
  "recorder =
     \<lparr>repo_List = (\<lambda>ctx l off cs. (Err (Plain []), [], cs @ [CallList ctx l off])),
      repo_GetByID = (\<lambda>ctx i cs. (Err (Plain []), [], cs @ [CallGetByID ctx i])),
      repo_Create = (\<lambda>ctx c cs. (Err (Plain []), [], cs @ [CallCreate ctx c])),
      repo_Update = (\<lambda>ctx u cs. (Err (Plain []), [], cs @ [CallUpdate ctx u])),
      repo_UpdateStock = (\<lambda>ctx i d cs. (Err (Plain []), [], cs @ [CallUpdateStock ctx i d]))\<rparr>"

fun call_code :: "repo_call \<Rightarrow> (in_memory, response) code" where
  "call_code (CallList ctx l off) = im_List_code ctx l off"
| "call_code (CallGetByID ctx i) = im_GetByID_code ctx i"
| "call_code (CallCreate ctx c) = im_Create_code ctx c"
| "call_code (CallUpdate ctx u) = im_Update_code ctx u"
| "call_code (CallUpdateStock ctx i d) = im_UpdateStock_code ctx i d"

definition request_code :: "context_err \<times> request \<Rightarrow> (in_memory, response) code" where
  "request_code q =
     (case svc_step (service_of recorder) q [] of
        (a, ms, []) \<Rightarrow> Immediate a
      | (a, ms, call # _) \<Rightarrow> call_code call)"

subsection \<open>Access by access is the same as in one step\<close>

lemma body_steps [simp]:
  "run_body (set_products f next) r = run_body next (r\<lparr>products := f (products r)\<rparr>)"
  "run_body (set_byID p next) r = run_body next (r\<lparr>byID := (byID r)(ID p \<mapsto> p)\<rparr>)"
  by (simp_all add: set_products_def set_byID_def run_body_Access)

lemma im_List_code_run:
  "im_List ctx l off r = (a, ms, r') \<Longrightarrow> run_code (im_List_code ctx l off) r = (Page a, r')"
  by (auto simp: im_List_def im_List_code_def Let_def run_body.simps split: option.splits if_splits)

lemma im_GetByID_code_run:
  "im_GetByID ctx i r = (a, ms, r') \<Longrightarrow> run_code (im_GetByID_code ctx i) r = (One a, r')"
  by (auto simp: im_GetByID_def im_GetByID_code_def run_body.simps split: option.splits)

lemma im_Create_code_run:
  "im_Create ctx c r = (a, ms, r') \<Longrightarrow> run_code (im_Create_code ctx c) r = (One a, r')"
  by (auto simp: im_Create_def im_Create_code_def im_append_def Let_def run_body.simps split: if_splits)

lemma im_Update_code_run:
  "im_Update ctx u r = (a, ms, r') \<Longrightarrow> run_code (im_Update_code ctx u) r = (One a, r')"
  by (auto simp: im_Update_def im_Update_code_def im_store_def Let_def run_body.simps split: option.splits)

lemma im_UpdateStock_code_run:
  "im_UpdateStock ctx i d r = (a, ms, r') \<Longrightarrow> run_code (im_UpdateStock_code ctx i d) r = (One a, r')"
  by (auto simp: im_UpdateStock_def im_UpdateStock_code_def im_store_def Let_def run_body.simps
      split: option.splits if_splits)

lemma recorder_sel [simp]:
  "repo_List recorder ctx l off cs = (Err (Plain []), [], cs @ [CallList ctx l off])"
  "repo_GetByID recorder ctx i cs = (Err (Plain []), [], cs @ [CallGetByID ctx i])"
  "repo_Create recorder ctx c cs = (Err (Plain []), [], cs @ [CallCreate ctx c])"
  "repo_Update recorder ctx u cs = (Err (Plain []), [], cs @ [CallUpdate ctx u])"
  "repo_UpdateStock recorder ctx i d cs = (Err (Plain []), [], cs @ [CallUpdateStock ctx i d])"
  by (simp_all add: recorder_def)

lemmas service_methods = ListProducts_def GetProduct_def CreateProduct_def UpdateProduct_def UpdateStock_def
  with_repository_service_of with_duration_def

text \<open>The code of a request, method by method.\<close>

lemma request_code_eqs:
  "request_code (ctx, ReqList l off) =
     (if off <s 0 then Immediate (Page (Err ErrInvalidPagination))
      else im_List_code ctx (effective_limit l) off)"
  "request_code (ctx, ReqGet i) =
     (if blank i then Immediate (One (Err (Plain ''product id is required''))) else im_GetByID_code ctx i)"
  "request_code (ctx, ReqCreate c) =
     (case create_validate c of Some e \<Rightarrow> Immediate (One (Err e)) | None \<Rightarrow> im_Create_code ctx c)"
  "request_code (ctx, ReqUpdate u) =
     (case update_validate u of Some e \<Rightarrow> Immediate (One (Err e)) | None \<Rightarrow> im_Update_code ctx u)"
  "request_code (ctx, ReqStock i d) =
     (if blank i then Immediate (One (Err (Plain ''product id is required'')))
      else if d = 0 then Immediate (One (Err (Plain ''delta cannot be zero'')))
      else im_UpdateStock_code ctx i d)"
  by (simp_all add: request_code_def service_methods Let_def split: option.splits)

lemma request_code_run:
  assumes "svc_step (service_of in_memory_repo) q r = (a, ms, r')"
  shows "run_code (request_code q) r = (a, r')"
proof -
  obtain ctx req where q: "q = (ctx, req)" by force
  show ?thesis
  proof (cases req)
    case (ReqList l off)
    with assms q obtain x where a: "a = Page x" "ListProducts (service_of in_memory_repo) ctx l off r = (x, ms, r')"
      by (auto split: prod.splits)
    from ListProducts_passes [OF a(2)] a(1) q ReqList show ?thesis
      by (auto simp: request_code_eqs im_List_code_run)
  next
    case (ReqGet i)
    with assms q obtain x where a: "a = One x" "GetProduct (service_of in_memory_repo) ctx i r = (x, ms, r')"
      by (auto split: prod.splits)
    from GetProduct_passes [OF a(2)] a(1) q ReqGet show ?thesis
      by (auto simp: request_code_eqs im_GetByID_code_run)
  next
    case (ReqCreate c)
    with assms q obtain x where a: "a = One x" "CreateProduct (service_of in_memory_repo) ctx c r = (x, ms, r')"
      by (auto split: prod.splits)
    from CreateProduct_passes [OF a(2)] a(1) q ReqCreate show ?thesis
      by (auto simp: request_code_eqs im_Create_code_run)
  next
    case (ReqUpdate u)
    with assms q obtain x where a: "a = One x" "UpdateProduct (service_of in_memory_repo) ctx u r = (x, ms, r')"
      by (auto split: prod.splits)
    from UpdateProduct_passes [OF a(2)] a(1) q ReqUpdate show ?thesis
      by (auto simp: request_code_eqs im_Update_code_run)
  next
    case (ReqStock i d)
    with assms q obtain x where a: "a = One x" "UpdateStock (service_of in_memory_repo) ctx i d r = (x, ms, r')"
      by (auto split: prod.splits)
    show ?thesis
    proof (cases "blank i \<or> d = 0")
      case True
      with a q ReqStock show ?thesis
        by (auto simp: request_code_eqs UpdateStock_def with_duration_def)
    next
      case False
      with UpdateStock_passes [OF a(2)] a(1) q ReqStock show ?thesis
        by (auto simp: request_code_eqs im_UpdateStock_code_run)
    qed
  qed
qed

text \<open>Reads take the read lock and only read; no request has more than four accesses.\<close>

lemma request_disciplined: "disciplined (request_code q)"
proof -
  obtain ctx req where "q = (ctx, req)" by force
  then show ?thesis
    by (cases req)
       (auto simp: request_code_eqs im_List_code_def im_GetByID_code_def im_Create_code_def im_Update_code_def
         im_UpdateStock_code_def Let_def read_only.simps split: option.splits)
qed

lemma request_within: "code_within 4 (request_code q)"
proof -
  obtain ctx req where "q = (ctx, req)" by force
  then show ?thesis
    by (cases req)
       (auto simp: request_code_eqs im_List_code_def im_GetByID_code_def im_Create_code_def im_Update_code_def
         im_UpdateStock_code_def set_products_def set_byID_def Let_def numeral_eq_Suc split: option.splits)
qed

subsection \<open>Linearizability\<close>

lemma svc_run_length: "svc_run sv qs s = (h, ms, s') \<Longrightarrow> length h = length qs"
  by (induction qs arbitrary: s h ms s') (auto split: prod.splits)

lemma svc_run_append_one:
  "svc_run sv (qs @ [q]) s =
     (case svc_run sv qs s of (h, ms, s1) \<Rightarrow>
        (case svc_step sv q s1 of (a, ms', s2) \<Rightarrow> (h @ [(snd q, a)], ms @ ms', s2)))"
  by (induction qs arbitrary: s) (auto split: prod.splits)

lemma svc_run_in_order:
  assumes "distinct ts" and "set ts \<subseteq> {..<length qs}"
  obtains h ms where
    "svc_run (service_of in_memory_repo) (map ((!) qs) ts) r = (h, ms, snd (in_order (map request_code qs) ts r))"
    "length h = length ts"
    "\<And>k. k < length ts \<Longrightarrow> fst (h ! k) = snd (qs ! (ts ! k)) \<and>
       fst (in_order (map request_code qs) ts r) (ts ! k) = Some (snd (h ! k))"
  using assms
proof (induction ts arbitrary: thesis rule: rev_induct)
  case (snoc t ts)
  let ?cs = "map request_code qs"
  obtain h ms where IH: "svc_run (service_of in_memory_repo) (map ((!) qs) ts) r = (h, ms, snd (in_order ?cs ts r))"
    "length h = length ts" "\<And>k. k < length ts \<Longrightarrow> fst (h ! k) = snd (qs ! (ts ! k)) \<and>
      fst (in_order ?cs ts r) (ts ! k) = Some (snd (h ! k))"
    using snoc.IH snoc.prems by auto
  obtain a ms' r' where step: "svc_step (service_of in_memory_repo) (qs ! t) (snd (in_order ?cs ts r)) = (a, ms', r')"
    by (metis prod_cases3)
  have more: "in_order ?cs (ts @ [t]) r = ((fst (in_order ?cs ts r))(t \<mapsto> a), r')"
    using request_code_run [OF step] snoc.prems(3) by (simp add: one_more_def)
  show ?case
  proof (rule snoc.prems(1) [of "h @ [(snd (qs ! t), a)]" "ms @ ms'"])
    show "svc_run (service_of in_memory_repo) (map ((!) qs) (ts @ [t])) r =
        (h @ [(snd (qs ! t), a)], ms @ ms', snd (in_order ?cs (ts @ [t]) r))"
      using IH(1) step more by (simp add: svc_run_append_one)
    fix k assume "k < length (ts @ [t])"
    then consider "k < length ts" | "k = length ts" by fastforce
    then show "fst ((h @ [(snd (qs ! t), a)]) ! k) = snd (qs ! ((ts @ [t]) ! k)) \<and>
        fst (in_order ?cs (ts @ [t]) r) ((ts @ [t]) ! k) = Some (snd ((h @ [(snd (qs ! t), a)]) ! k))"
    proof cases
      case 1
      then have "ts ! k \<noteq> t" using snoc.prems(2) by auto
      with 1 IH(2,3) show ?thesis unfolding more by (simp add: nth_append)
    qed (use IH(2) in \<open>unfold more, simp add: nth_append\<close>)
  qed (use IH(2) in simp)
qed simp

abbreviation requests_start :: "(context_err \<times> request) list \<Rightarrow> in_memory \<Rightarrow> (in_memory, response) threads" where
  "requests_start qs r \<equiv> threads_start (map request_code qs) r"

lemma requests_code:
  "list_all disciplined (map request_code qs)" "list_all (code_within 4) (map request_code qs)"
  by (simp_all add: list_all_iff request_disciplined request_within)

lemma requests_linearized:
  assumes run: "thread_run (requests_start qs r) ts c"
  obtains h ms where
    "svc_run (service_of in_memory_repo) (map ((!) qs) ts) r =
       (h, ms, snd (in_order (map request_code qs) ts r))"
    "length h = length ts" "distinct ts" "set ts \<subseteq> {..<length qs}"
    "\<And>k. k < length ts \<Longrightarrow> fst (h ! k) = snd (qs ! (ts ! k)) \<and>
       fst (in_order (map request_code qs) ts r) (ts ! k) = Some (snd (h ! k))"
    "threads_ok (map request_code qs) (in_order (map request_code qs) ts r) c"
proof -
  have ok: "threads_ok (map request_code qs) (in_order (map request_code qs) ts r) c"
    "distinct ts" "set ts \<subseteq> {..<length qs}"
    using thread_run_ok [OF run requests_code(1)] by simp_all
  from svc_run_in_order [OF ok(2,3), of r] that ok show thesis by metis
qed

lemma concurrent_requests_lin:
  assumes run: "thread_run (requests_start qs r) ts c"
  shows "distinct ts \<and>
    (\<exists>h ms r'. svc_run (service_of in_memory_repo) (map ((!) qs) ts) r = (h, ms, r') \<and>
       (\<forall>t < length qs. \<forall>a. th_all c ! t = Answered a \<longrightarrow>
          (\<exists>k < length ts. ts ! k = t \<and> h ! k = (snd (qs ! t), a))) \<and>
       (all_answered c \<longrightarrow> set ts = {..<length qs} \<and> th_memory c = r'))"
proof -
  let ?o = "in_order (map request_code qs) ts r"
  obtain h ms where seq: "svc_run (service_of in_memory_repo) (map ((!) qs) ts) r = (h, ms, snd ?o)"
    and ts: "distinct ts" and h: "\<And>k. k < length ts \<Longrightarrow> fst (h ! k) = snd (qs ! (ts ! k)) \<and>
       fst ?o (ts ! k) = Some (snd (h ! k))" and ok: "threads_ok (map request_code qs) ?o c"
    by (rule requests_linearized [OF run]) blast
  have "\<exists>k < length ts. ts ! k = t \<and> h ! k = (snd (qs ! t), a)"
    if "t < length qs" "th_all c ! t = Answered a" for t a
  proof -
    have ans: "fst ?o t = Some a" using ok that by (fastforce simp: threads_ok_def)
    then have "t \<in> set ts" using dom_in_order [of "map request_code qs" ts r] by blast
    then obtain k where k: "k < length ts" "ts ! k = t" by (auto simp: in_set_conv_nth)
    with h [OF k(1)] ans show ?thesis by (auto simp: prod_eq_iff)
  qed
  moreover have "set ts = {..<length qs} \<and> th_memory c = snd ?o" if "all_answered c"
    using answered_in_order [OF run requests_code(1) that] by simp
  ultimately show ?thesis using ts seq by blast
qed

text \<open>
  C4: concurrent requests are linearizable. Goroutines serve requests over the in-memory
  repository, interleaved in any way between single accesses to the slice and the map. At any
  moment of the run the answers given so far are those of the same requests served one after the
  other by the sequential service, in the order in which they took the lock (or were answered
  without it), which is an order between call and answer of each; when all are answered, the
  slice and the map are those that the sequential service leaves.
\<close>

theorem concurrent_requests_linearizable:
  assumes run: "thread_run (requests_start qs r) ts c"
  shows "distinct ts \<and>
    (\<exists>h ms r'. svc_run (service_of in_memory_repo) (map ((!) qs) ts) r = (h, ms, r') \<and>
       (\<forall>t < length qs. \<forall>a. th_all c ! t = Answered a \<longrightarrow>
          (\<exists>k < length ts. ts ! k = t \<and> h ! k = (snd (qs ! t), a))) \<and>
       (all_answered c \<longrightarrow> set ts = {..<length qs} \<and> th_memory c = r'))"
  by (rule concurrent_requests_lin [OF run])

lemma requests_finish: "\<exists>ts c. thread_run (requests_start qs r) ts c \<and> all_answered c"
  by (rule threads_finish [OF requests_code])

theorem concurrent_requests_linearizable_witness:
  "\<exists>ts c h ms. thread_run (requests_start three_requests im_default) ts c \<and> set ts = {..<3} \<and>
     svc_run (service_of in_memory_repo) (map ((!) three_requests) ts) im_default = (h, ms, th_memory c)"
proof -
  obtain ts c where run: "thread_run (requests_start three_requests im_default) ts c" and all: "all_answered c"
    using requests_finish by blast
  from concurrent_requests_linearizable [OF run] all have "set ts = {..<length three_requests} \<and>
      (\<exists>h ms. svc_run (service_of in_memory_repo) (map ((!) three_requests) ts) im_default = (h, ms, th_memory c))"
    by blast
  moreover have "length three_requests = 3" by (simp add: three_requests_def)
  ultimately show ?thesis using run by auto
qed

text \<open>
  The stock ledger of concurrent requests. When all requests are answered and their answers
  settle them, the stock of each product is its stock before plus exactly the deltas that were
  granted to any of the goroutines, however they interleaved: no update is lost.
\<close>

definition granted_to :: "string \<Rightarrow> request \<Rightarrow> (in_memory, response) goroutine \<Rightarrow> int" where
  "granted_to i req g = (case g of Answered a \<Rightarrow> granted i (req, a) | _ \<Rightarrow> 0)"

theorem concurrent_stock_ledger:
  assumes run: "thread_run (requests_start qs r) ts c" and all: "all_answered c"
    and inv: "im_inv r" and range: "list_all (\<lambda>q. offset_in_range (snd q)) qs"
    and settled: "\<forall>t < length qs. \<forall>a. th_all c ! t = Answered a \<longrightarrow> settled (snd (qs ! t), a)"
    and p: "p \<in> set (products r)"
  shows "\<exists>p' \<in> set (products (th_memory c)). ID p' = ID p \<and>
    sint (Stock p') = sint (Stock p) + (\<Sum>t < length qs. granted_to (ID p) (snd (qs ! t)) (th_all c ! t))"
proof -
  let ?o = "in_order (map request_code qs) ts r"
  obtain h ms where seq: "svc_run (service_of in_memory_repo) (map ((!) qs) ts) r = (h, ms, snd ?o)"
    and len: "length h = length ts" and h: "\<And>k. k < length ts \<Longrightarrow> fst (h ! k) = snd (qs ! (ts ! k)) \<and>
       fst ?o (ts ! k) = Some (snd (h ! k))"
    by (rule requests_linearized [OF run]) blast
  note finished = answered_in_order [OF run requests_code(1) all]
  have ledger_order: "distinct ts" "set ts = {..<length qs}" using finished by simp_all
  have answered: "th_all c ! (ts ! k) = Answered (snd (h ! k))" if "k < length ts" for k
  proof -
    have "ts ! k < length qs" using finished that nth_mem [OF that] by auto
    with finished h [OF that] show ?thesis by auto
  qed
  have pair: "h ! k = (snd (qs ! (ts ! k)), snd (h ! k))" if "k < length ts" for k
    using h [OF that] by (metis prod.collapse)
  have one: "granted (ID p) (h ! k) = granted_to (ID p) (snd (qs ! (ts ! k))) (th_all c ! (ts ! k))"
    if "k < length ts" for k
    by (subst pair [OF that]) (simp add: granted_to_def answered [OF that])
  have sum: "sum_list (map (granted (ID p)) h) =
      (\<Sum>t < length qs. granted_to (ID p) (snd (qs ! t)) (th_all c ! t))"
  proof -
    have "map (granted (ID p)) h = map (\<lambda>t. granted_to (ID p) (snd (qs ! t)) (th_all c ! t)) ts"
      using len one by (intro nth_equalityI) simp_all
    then show ?thesis using ledger_order by (simp add: sum_list_distinct_conv_sum_set)
  qed
  have "list_all settled h"
    unfolding list_all_length
  proof (intro allI impI)
    fix k assume "k < length h"
    then have k: "k < length ts" using len by simp
    then have "ts ! k < length qs" using ledger_order nth_mem [OF k] by auto
    with settled answered [OF k] have "settled (snd (qs ! (ts ! k)), snd (h ! k))" by blast
    then show "settled (h ! k)" by (subst pair [OF k])
  qed
  moreover have "list_all (\<lambda>q. offset_in_range (snd q)) (map ((!) qs) ts)"
    using range ledger_order by (auto simp: list_all_iff)
  ultimately have "\<exists>p' \<in> set (products (snd ?o)). ID p' = ID p \<and>
      sint (Stock p') = sint (Stock p) + sum_list (map (granted (ID p)) h)"
    using im.svc_run_moves [OF inv _ seq, of "ID p"] p by (auto simp: im.moves_def)
  with sum finished show ?thesis by simp
qed

text \<open>A sale and a read at the same time.\<close>

definition sale_and_read :: "(context_err \<times> request) list" where
  "sale_and_read = [(None, ReqStock ''prod-001'' (- 5)), (None, ReqGet ''prod-001'')]"

lemma sale_and_read_in_range: "list_all (\<lambda>q. offset_in_range (snd q)) sale_and_read"
  by (simp add: sale_and_read_def)

lemma two_orders:
  assumes "distinct ts" and "set ts = {..<2 :: nat}"
  shows "ts = [0, 1] \<or> ts = [1, 0]"
proof -
  have "length ts = 2" using distinct_card [OF assms(1)] assms(2) by simp
  then obtain x y where xy: "ts = [x, y]" by (auto simp: length_Suc_conv numeral_2_eq_2)
  moreover have "x < 2" "y < 2" using assms(2) xy by auto
  ultimately show ?thesis using assms(1) by (auto simp: numeral_2_eq_2 less_Suc_eq)
qed

lemma sale_and_read_settled:
  assumes "ts = [0, 1] \<or> ts = [1, 0]"
    and "svc_run (service_of in_memory_repo) (map ((!) sale_and_read) ts) im_default = (h, ms, r')"
    and "k < length ts"
  shows "settled (h ! k)"
proof -
  have "\<not> blank ''prod-001''" by code_simp
  obtain q where q: "index_by_id defaultProducts ''prod-001'' = Some q" "Stock q = 42"
    by (simp add: defaultProducts_def)
  have step: "svc_step (service_of in_memory_repo) (None, ReqStock ''prod-001'' (- 5)) im_default =
      (One (Ok (q\<lparr>Stock := 37\<rparr>)), snd (svc_step (service_of in_memory_repo) (None, ReqStock ''prod-001'' (- 5)) im_default))"
    using q \<open>\<not> blank _\<close>
    by (simp add: UpdateStock_service_of with_repository_service_of im_UpdateStock_Some word_sless_alt with_duration_def)
  have read: "svc_step (service_of in_memory_repo) (None, ReqGet ''prod-001'') im_default =
      (One (Ok q), fst (snd (svc_step (service_of in_memory_repo) (None, ReqGet ''prod-001'') im_default)), im_default)"
    using q \<open>\<not> blank _\<close> by (simp add: GetProduct_def im_GetByID_def with_duration_def)
  show ?thesis
    using assms step read
    by (auto simp: sale_and_read_def less_Suc_eq numeral_2_eq_2 split: prod.splits) 
qed

theorem concurrent_stock_ledger_witness:
  "\<exists>ts c. thread_run (requests_start sale_and_read im_default) ts c \<and>
     (\<exists>p' \<in> set (products (th_memory c)). ID p' = ''prod-001'')"
proof -
  obtain ts c where run: "thread_run (requests_start sale_and_read im_default) ts c" and all: "all_answered c"
    using requests_finish by blast
  have two: "length sale_and_read = 2" by (simp add: sale_and_read_def)
  from concurrent_requests_lin [OF run] all two obtain h ms where
    seq: "svc_run (service_of in_memory_repo) (map ((!) sale_and_read) ts) im_default = (h, ms, th_memory c)"
    and h: "\<forall>t < length sale_and_read. \<forall>a. th_all c ! t = Answered a \<longrightarrow>
       (\<exists>k < length ts. ts ! k = t \<and> h ! k = (snd (sale_and_read ! t), a))"
    and ts: "distinct ts" "set ts = {..<2}" by auto
  have "\<forall>t < length sale_and_read. \<forall>a. th_all c ! t = Answered a \<longrightarrow> settled (snd (sale_and_read ! t), a)"
    using h sale_and_read_settled [OF two_orders [OF ts] seq] by metis
  moreover have "hd defaultProducts \<in> set (products im_default)" "ID (hd defaultProducts) = ''prod-001''"
    by (simp_all add: defaultProducts_def)
  ultimately show ?thesis
    using concurrent_stock_ledger [OF run all im_inv_default sale_and_read_in_range] run by metis
qed

text \<open>
  C17: concurrent requests end. From a catalogue in order, a run of \<open>n\<close> goroutines has at most
  \<open>6 n\<close> steps; one that can go no further, so one without a deadlock, has answered every request,
  without a panic and with valid products only.
\<close>

theorem concurrent_requests_end:
  assumes "im_inv r" and "list_all (\<lambda>q. offset_in_range (snd q)) qs"
    and run: "(any_step ^^ n) (requests_start qs r) c"
  shows "n \<le> 6 * length qs \<and>
    ((\<nexists>c'. any_step c c') \<longrightarrow> im_inv (th_memory c) \<and>
       (\<forall>t < length qs. \<exists>a. th_all c ! t = Answered a \<and> good_response a))"
proof (intro conjI impI)
  show "n \<le> 6 * length qs" using threads_end [OF run requests_code(2)] by simp
next
  assume stuck: "\<nexists>c'. any_step c c'"
  have all: "all_answered c" by (rule stuck_answered [OF run requests_code(1) stuck])
  obtain ts where "thread_run (requests_start qs r) ts c" using any_steps_run [OF run] by blast
  note lin = concurrent_requests_lin [OF this]
  then obtain h ms where seq: "svc_run (service_of in_memory_repo) (map ((!) qs) ts) r = (h, ms, th_memory c)"
    and h: "\<forall>t < length qs. \<forall>a. th_all c ! t = Answered a \<longrightarrow> (\<exists>k < length ts. ts ! k = t \<and> h ! k = (snd (qs ! t), a))"
    and set: "set ts = {..<length qs}"
    using all by blast
  have "list_all (\<lambda>q. offset_in_range (snd q)) (map ((!) qs) ts)"
    using assms(2) set by (auto simp: list_all_iff)
  note good = im.svc_run_safe [OF assms(1) this seq]
  show "im_inv (th_memory c)" using good by blast
  have len: "length h = length ts" using svc_run_length [of _ "map ((!) qs) ts"] seq by simp
  show "\<forall>t < length qs. \<exists>a. th_all c ! t = Answered a \<and> good_response a"
  proof (intro allI impI)
    fix t assume t: "t < length qs"
    have "length (th_all c) = length qs" by (rule run_length [OF run, simplified])
    with all t obtain a where a: "th_all c ! t = Answered a" by auto
    then obtain k where "k < length h" "h ! k = (snd (qs ! t), a)" using h t len by auto
    then have "good_response a" using good by (auto simp: list_all_length)
    with a show "\<exists>a. th_all c ! t = Answered a \<and> good_response a" by blast
  qed
qed

theorem concurrent_requests_end_witness:
  "\<exists>n c. (any_step ^^ n) (requests_start three_requests im_default) c \<and> n \<le> 18 \<and> all_answered c \<and> im_inv (th_memory c)"
proof -
  obtain n c where run: "(any_step ^^ n) (requests_start three_requests im_default) c" and stuck: "\<nexists>c'. any_step c c'"
    using threads_get_stuck [OF requests_code(2)] by blast
  note finished = concurrent_requests_end [OF im_inv_default three_requests_in_range run]
  have "all_answered c" by (rule stuck_answered [OF run requests_code(1) stuck])
  moreover have "length three_requests = 3" by (simp add: three_requests_def)
  ultimately show ?thesis using finished stuck run by auto
qed

end
