(* ===== verification/Concurrent_Stack.thy ===== *)
theory Concurrent_Stack
  imports Concurrent Cache_Coherence
begin

section \<open>Concurrent requests over the deployed stack\<close>

text \<open>
  The methods of the caching repository written as the sequence of the calls they make to Redis
  and to the repository behind them, and goroutines that serve requests and interleave between
  any two calls; there is no lock. A call of the repository behind is one step (over PostgreSQL
  it is one statement or one transaction), as is a \<open>GET\<close>, a \<open>SET\<close>, a \<open>DEL\<close>, and the scan of the
  cached pages with its \<open>DEL\<close>.
\<close>

subsection \<open>Goroutines without a lock\<close>

inductive free_step ::
  "'s \<times> ('s, 'a) body list \<Rightarrow> 's \<times> ('s, 'a) body list \<Rightarrow> bool"
where
  "t < length bs \<Longrightarrow> bs ! t = Access f \<Longrightarrow> f s = (b, s') \<Longrightarrow> free_step (s, bs) (s', bs[t := b])"

inductive_cases free_stepE: "free_step (s, bs) c"

text \<open>A body that keeps \<open>I\<close> at each call, whatever the others did to the state, and returns a \<open>Q\<close>.\<close>

primrec keeps :: "('s \<Rightarrow> bool) \<Rightarrow> ('a \<Rightarrow> bool) \<Rightarrow> ('s, 'a) body \<Rightarrow> bool" where
  "keeps I Q (Return a) = Q a"
| "keeps I Q (Access f) = (\<forall>s. I s \<longrightarrow> (case map_prod (keeps I Q) id (f s) of (k, s') \<Rightarrow> k \<and> I s'))"

text \<open>
  A body that has moved the state by \<open>g\<close> and settles in the end for what it moved: each call moves
  the state by an amount that is added to \<open>g\<close>, and what is returned stands for \<open>g\<close> (\<open>D a g\<close>); or the
  call ends the body with something that does not settle (\<open>\<not> S a\<close>), and then may have done anything.
\<close>

primrec credits ::
  "('s \<Rightarrow> bool) \<Rightarrow> (int \<Rightarrow> 's \<Rightarrow> 's \<Rightarrow> bool) \<Rightarrow> ('a \<Rightarrow> bool) \<Rightarrow> ('a \<Rightarrow> int \<Rightarrow> bool) \<Rightarrow> ('s, 'a) body \<Rightarrow> int \<Rightarrow> bool"
where
  "credits I M S D (Return a) = (\<lambda>g. S a \<longrightarrow> D a g)"
| "credits I M S D (Access f) = (\<lambda>g. \<forall>s. I s \<longrightarrow>
     (\<exists>d. M d s (snd (f s)) \<and> (case map_prod (credits I M S D) id (f s) of (k, s') \<Rightarrow> k (g + d))) \<or>
     (\<exists>a. fst (f s) = Return a \<and> \<not> S a))"

lemma keeps_Access:
  "keeps I Q (Access f) \<longleftrightarrow> (\<forall>s b s'. I s \<longrightarrow> f s = (b, s') \<longrightarrow> keeps I Q b \<and> I s')"
proof -
  have "(case map_prod (keeps I Q) id (f s) of (k, s') \<Rightarrow> k \<and> I s') = (keeps I Q (fst (f s)) \<and> I (snd (f s)))" for s
    by (cases "f s") simp
  then show ?thesis by (simp add: prod_eq_iff)
qed

lemma credits_Access:
  "credits I M S D (Access f) g \<longleftrightarrow> (\<forall>s b s'. I s \<longrightarrow> f s = (b, s') \<longrightarrow>
     (\<exists>d. M d s s' \<and> credits I M S D b (g + d)) \<or> (\<exists>a. b = Return a \<and> \<not> S a))"
proof -
  have "(case map_prod (credits I M S D) id (f s) of (k, s') \<Rightarrow> k h) = credits I M S D (fst (f s)) h" for s h
    by (cases "f s") simp
  then show ?thesis by (auto simp: prod_eq_iff)
qed

declare keeps.simps(2) [simp del] credits.simps(2) [simp del]

lemma sum_list_credit: "t < length gs \<Longrightarrow> sum_list (gs[t := gs ! t + d]) = sum_list gs + (d :: int)"
proof (induction gs arbitrary: t)
  case (Cons g gs)
  then show ?case by (cases t) auto
qed simp

lemma free_run_keeps:
  assumes "free_step\<^sup>*\<^sup>* (s, bs) (s', bs')" and "I s" and "list_all (keeps I Q) bs"
  shows "I s' \<and> list_all (keeps I Q) bs' \<and> length bs' = length bs"
  using assms
proof (induction "(s', bs')" arbitrary: s' bs' rule: rtranclp_induct)
  case (step y)
  obtain s1 bs1 where y: "y = (s1, bs1)" by force
  with step have ok: "I s1" "list_all (keeps I Q) bs1" "length bs1 = length bs" by auto
  from step.hyps(2) y obtain t f b where t: "t < length bs1" "bs1 ! t = Access f" "f s1 = (b, s')" "bs' = bs1[t := b]"
    by (auto elim: free_stepE)
  then have "keeps I Q (Access f)" using ok(2) by (metis list_all_length)
  with t(3) ok(1) have "keeps I Q b" "I s'" by (auto simp: keeps_Access)
  with ok t show ?case by (auto simp: list_all_length nth_list_update)
qed simp

text \<open>
  What the goroutines moved together: unless one of them has returned something that does not
  settle, the state has moved by the sum of what each is credited with. \<open>T t b g\<close> says that
  goroutine \<open>t\<close>, with \<open>b\<close> to come, has moved the state by \<open>g\<close>.
\<close>

lemma free_run_moves:
  fixes M :: "int \<Rightarrow> 's \<Rightarrow> 's \<Rightarrow> bool"
  assumes run: "free_step\<^sup>*\<^sup>* (s, bs) (s', bs')"
    and inv: "\<And>s1 bs1. free_step\<^sup>*\<^sup>* (s, bs) (s1, bs1) \<Longrightarrow> I s1"
    and start: "\<forall>t < length bs. T t (bs ! t) 0"
    and call: "\<And>t f g s1 b s2. T t (Access f) g \<Longrightarrow> I s1 \<Longrightarrow> f s1 = (b, s2) \<Longrightarrow>
      (\<exists>d. M d s1 s2 \<and> T t b (g + d)) \<or> (\<exists>a. b = Return a \<and> \<not> S t a)"
    and M0: "\<And>s. M 0 s s" and Mt: "\<And>g h s1 s2 s3. M g s1 s2 \<Longrightarrow> M h s2 s3 \<Longrightarrow> M (g + h) s1 s3"
  shows "(\<exists>t < length bs'. \<exists>a. bs' ! t = Return a \<and> \<not> S t a) \<or>
    (\<exists>gs. length gs = length bs' \<and> M (sum_list gs) s s' \<and> (\<forall>t < length bs'. T t (bs' ! t) (gs ! t)))"
  using run
proof (induction "(s', bs')" arbitrary: s' bs' rule: rtranclp_induct)
  case base
  then show ?case
    using M0 [of s] start by (intro disjI2 exI [of _ "replicate (length bs) 0"]) (simp add: sum_list_replicate)
next
  case (step y)
  obtain s1 bs1 where y: "y = (s1, bs1)" by force
  have I1: "I s1" using inv step.hyps(1) y by blast
  from step.hyps(2) y obtain t f b where t: "t < length bs1" "bs1 ! t = Access f" "f s1 = (b, s')" "bs' = bs1[t := b]"
    by (auto elim: free_stepE)
  from step.hyps(3) [OF y] show ?case
  proof
    assume "\<exists>u < length bs1. \<exists>a. bs1 ! u = Return a \<and> \<not> S u a"
    then obtain u a where u: "u < length bs1" "bs1 ! u = Return a" "\<not> S u a" by blast
    with t have "u \<noteq> t" by auto
    with u t show ?thesis by (intro disjI1 exI [of _ u]) simp
  next
    assume "\<exists>gs. length gs = length bs1 \<and> M (sum_list gs) s s1 \<and> (\<forall>t < length bs1. T t (bs1 ! t) (gs ! t))"
    then obtain gs where gs: "length gs = length bs1" "M (sum_list gs) s s1"
      "\<And>t. t < length bs1 \<Longrightarrow> T t (bs1 ! t) (gs ! t)" by blast
    have "T t (Access f) (gs ! t)" using gs(3) [OF t(1)] t(2) by simp
    from call [OF this I1 t(3)] show ?thesis
    proof (elim disjE exE conjE)
      fix d assume d: "M d s1 s'" "T t b (gs ! t + d)"
      let ?gs = "gs[t := gs ! t + d]"
      have "sum_list ?gs = sum_list gs + d" using t(1) gs(1) by (simp add: sum_list_credit)
      then have "M (sum_list ?gs) s s'" using Mt [OF gs(2) d(1)] by simp
      with d gs t show ?thesis
        by (intro disjI2 exI [of _ ?gs]) (auto simp: nth_list_update)
    next
      fix a assume "b = Return a" "\<not> S t a"
      with t show ?thesis by (intro disjI1 exI [of _ t]) simp
    qed
  qed
qed

lemma credits_call:
  "credits I M S D (Access f) g \<Longrightarrow> I s \<Longrightarrow> f s = (b, s') \<Longrightarrow>
     (\<exists>d. M d s s' \<and> credits I M S D b (g + d)) \<or> (\<exists>a. b = Return a \<and> \<not> S a)"
  unfolding credits_Access by blast

text \<open>A run has at most as many steps as its bodies have calls, and nothing blocks.\<close>

lemma free_steps_within:
  "(free_step ^^ n) (s, bs) (s', bs') \<Longrightarrow> length ks = length bs \<Longrightarrow>
     \<forall>t < length bs. body_within (ks ! t) (bs ! t) \<Longrightarrow> n \<le> sum_list ks"
proof (induction n arbitrary: s bs ks)
  case (Suc n)
  from Suc.prems(1) obtain c where c: "free_step (s, bs) c" "(free_step ^^ n) c (s', bs')"
    by (metis relpowp_Suc_D2)
  from c(1) obtain t f b s1 where t: "t < length bs" "bs ! t = Access f" "f s = (b, s1)" "c = (s1, bs[t := b])"
    by (auto elim: free_stepE)
  have "body_within (ks ! t) (Access f)" using Suc.prems(3) t(1,2) by metis
  then obtain m where m: "ks ! t = Suc m" "body_within m b" using body_within_Access [of _ f s b s1] t(3) by blast
  have t': "t < length ks" using t(1) Suc.prems(2) by simp
  have "sum_list (ks[t := m]) + Suc m = sum_list ks + m"
    using elem_le_sum_list [OF t'] t' m(1) by (simp add: sum_list_update)
  moreover have "n \<le> sum_list (ks[t := m])"
    using Suc.IH [OF c(2) [unfolded t(4)], of "ks[t := m]"] Suc.prems(2,3) t(1) m(2)
    by (simp add: nth_list_update)
  ultimately show ?case by linarith
qed simp

lemma free_stuck: "(\<nexists>c. free_step (s, bs) c) \<longleftrightarrow> (\<forall>t < length bs. \<exists>a. bs ! t = Return a)"
proof
  assume stuck: "\<nexists>c. free_step (s, bs) c"
  show "\<forall>t < length bs. \<exists>a. bs ! t = Return a"
  proof (intro allI impI)
    fix t assume "t < length bs"
    with stuck show "\<exists>a. bs ! t = Return a"
      by (cases "bs ! t") (metis free_step.intros surj_pair)+
  qed
qed (auto elim!: free_stepE)

subsection \<open>The methods, call by call\<close>

definition cached_GetByID_body ::
  "('s, 'r) cached \<Rightarrow> context_err \<Rightarrow> string \<Rightarrow> ('s \<times> 'r, response) body"
where
  "cached_GetByID_body c ctx i =
     Access (\<lambda>(s, r). (case GetProduct_cache (cd_cache c) ctx i r of
         (Err e, r) \<Rightarrow> (Return (One (Err e)), (s, r))
       | (Panic m, r) \<Rightarrow> (Return (One (Panic m)), (s, r))
       | (Ok (Some p), r) \<Rightarrow> (Return (One (Ok p)), (s, r))
       | (Ok None, r) \<Rightarrow>
           (Access (\<lambda>(s, r). (case repo_GetByID (cd_next c) ctx i s of
               (Err e, ms, s) \<Rightarrow> (Return (One (Err e)), (s, r))
             | (Panic m, ms, s) \<Rightarrow> (Return (One (Panic m)), (s, r))
             | (Ok p, ms, s) \<Rightarrow>
                 (Access (\<lambda>(s, r). (Return (One (Ok p)), (s, snd (SetProduct (cd_cache c) ctx p r)))),
                  (s, r)))), (s, r))))"

definition cached_List_body ::
  "('s, 'r) cached \<Rightarrow> context_err \<Rightarrow> int64 \<Rightarrow> int64 \<Rightarrow> ('s \<times> 'r, response) body"
where
  "cached_List_body c ctx limit offset =
     Access (\<lambda>(s, r). (case GetProductList (cd_cache c) ctx limit offset r of
         (Err e, r) \<Rightarrow> (Return (Page (Err e)), (s, r))
       | (Panic m, r) \<Rightarrow> (Return (Page (Panic m)), (s, r))
       | (Ok (Some ps), r) \<Rightarrow> (Return (Page (Ok ps)), (s, r))
       | (Ok None, r) \<Rightarrow>
           (Access (\<lambda>(s, r). (case repo_List (cd_next c) ctx limit offset s of
               (Err e, ms, s) \<Rightarrow> (Return (Page (Err e)), (s, r))
             | (Panic m, ms, s) \<Rightarrow> (Return (Page (Panic m)), (s, r))
             | (Ok ps, ms, s) \<Rightarrow>
                 (Access (\<lambda>(s, r). (Return (Page (Ok ps)),
                    (s, snd (SetProductList (cd_cache c) ctx limit offset ps r)))), (s, r)))), (s, r))))"

definition scan_body :: "('s, 'r) cached \<Rightarrow> context_err \<Rightarrow> product \<Rightarrow> ('s \<times> 'r, response) body" where
  "scan_body c ctx p =
     Access (\<lambda>(s, r). (case invalidateListCache c ctx r of
         (Some m, r) \<Rightarrow> (Return (One (Panic m)), (s, r))
       | (None, r) \<Rightarrow> (Return (One (Ok p)), (s, r))))"

definition invalidating ::
  "('s, 'r) cached \<Rightarrow> context_err \<Rightarrow> (product \<Rightarrow> string option) \<Rightarrow> ('s, product) act \<Rightarrow>
     ('s \<times> 'r, response) body"
where
  "invalidating c ctx key call =
     Access (\<lambda>(s, r). (case call s of
         (Err e, ms, s) \<Rightarrow> (Return (One (Err e)), (s, r))
       | (Panic m, ms, s) \<Rightarrow> (Return (One (Panic m)), (s, r))
       | (Ok p, ms, s) \<Rightarrow>
           (case key p of
              None \<Rightarrow> scan_body c ctx p
            | Some i \<Rightarrow> Access (\<lambda>(s, r).
                (scan_body c ctx p, (s, snd (DeleteProduct (cd_cache c) ctx i r)))), (s, r))))"

fun stack_code :: "('s, 'r) cached \<Rightarrow> repo_call \<Rightarrow> ('s \<times> 'r, response) body" where
  "stack_code c (CallList ctx l off) = cached_List_body c ctx l off"
| "stack_code c (CallGetByID ctx i) = cached_GetByID_body c ctx i"
| "stack_code c (CallCreate ctx cmd) =
     invalidating c ctx (\<lambda>p. None) (repo_Create (cd_next c) ctx cmd)"
| "stack_code c (CallUpdate ctx cmd) =
     invalidating c ctx (\<lambda>p. Some (ID p)) (repo_Update (cd_next c) ctx cmd)"
| "stack_code c (CallUpdateStock ctx i d) =
     invalidating c ctx (\<lambda>p. Some i) (repo_UpdateStock (cd_next c) ctx i d)"

text \<open>The code of a request to the service, its repository call read off the service as before.\<close>

definition stack_request :: "('s, 'r) cached \<Rightarrow> context_err \<times> request \<Rightarrow> ('s \<times> 'r, response) body" where
  "stack_request c q =
     (case svc_step (service_of recorder) q [] of
        (a, ms, []) \<Rightarrow> Return a
      | (a, ms, call # _) \<Rightarrow> stack_code c call)"

text \<open>Run alone, call by call, a method does what \<open>Cached\<close> says of it.\<close>

lemma cached_GetByID_body_run:
  "cached_GetByID c ctx i sr = (a, ms, sr') \<Longrightarrow> run_body (cached_GetByID_body c ctx i) sr = (One a, sr')"
  by (auto simp: cached_GetByID_def cached_GetByID_body_def get_or_fetch_def fill_def with_cache_duration_def
      run_body.simps split: prod.splits outcome.splits option.splits)

lemma cached_List_body_run:
  "cached_List c ctx l off sr = (a, ms, sr') \<Longrightarrow> run_body (cached_List_body c ctx l off) sr = (Page a, sr')"
  by (auto simp: cached_List_def cached_List_body_def with_cache_duration_def
      run_body.simps split: prod.splits outcome.splits option.splits)

lemma invalidating_run:
  "and_invalidate c ctx key (snd sr) (call (fst sr)) = (a, ms, sr') \<Longrightarrow>
     run_body (invalidating c ctx key call) sr = (One a, sr')"
  by (auto simp: and_invalidate_def invalidating_def scan_body_def Let_def
      run_body.simps split: prod.splits outcome.splits option.splits)

fun as_response :: "repo_call \<Rightarrow> 's product_repository \<Rightarrow> 's \<Rightarrow> response \<times> 's" where
  "as_response (CallList ctx l off) repo s = (case repo_List repo ctx l off s of (a, ms, s) \<Rightarrow> (Page a, s))"
| "as_response (CallGetByID ctx i) repo s = (case repo_GetByID repo ctx i s of (a, ms, s) \<Rightarrow> (One a, s))"
| "as_response (CallCreate ctx c) repo s = (case repo_Create repo ctx c s of (a, ms, s) \<Rightarrow> (One a, s))"
| "as_response (CallUpdate ctx u) repo s = (case repo_Update repo ctx u s of (a, ms, s) \<Rightarrow> (One a, s))"
| "as_response (CallUpdateStock ctx i d) repo s =
     (case repo_UpdateStock repo ctx i d s of (a, ms, s) \<Rightarrow> (One a, s))"

lemma stack_code_run: "run_body (stack_code c call) sr = as_response call (cached_repo c) sr"
proof (cases call)
  case (CallList ctx l off)
  then show ?thesis by (auto simp: cached_List_body_run split: prod.split)
next
  case (CallGetByID ctx i)
  then show ?thesis by (auto simp: cached_GetByID_body_run split: prod.split)
next
  case (CallCreate ctx cmd)
  then show ?thesis by (auto simp: cached_Create_def invalidating_run split: prod.split)
next
  case (CallUpdate ctx cmd)
  then show ?thesis by (auto simp: cached_Update_def invalidating_run split: prod.split)
next
  case (CallUpdateStock ctx i d)
  then show ?thesis by (auto simp: cached_UpdateStock_def invalidating_run split: prod.split)
qed

text \<open>The call recorded of a request is the one the service makes of any repository, and all it does.\<close>

lemma recorded_call:
  assumes "svc_step (service_of recorder) q [] = (a0, ms0, calls)"
    and "svc_step (service_of repo) q s = (a, ms, s')"
  shows "case calls of [] \<Rightarrow> a = a0 \<and> s' = s | call # _ \<Rightarrow> as_response call repo s = (a, s')"
proof -
  obtain ctx req where q: "q = (ctx, req)" by force
  show ?thesis
  proof (cases req)
    case (ReqList l off)
    with assms q show ?thesis
      by (auto simp: service_methods Let_def split: prod.splits outcome.splits if_splits)
  next
    case (ReqGet i)
    with assms q show ?thesis
      by (auto simp: service_methods Let_def split: prod.splits outcome.splits if_splits)
  next
    case (ReqCreate c)
    with assms q show ?thesis
      by (auto simp: service_methods split: prod.splits outcome.splits option.splits)
  next
    case (ReqUpdate u)
    with assms q show ?thesis
      by (auto simp: service_methods split: prod.splits outcome.splits option.splits)
  next
    case (ReqStock i d)
    with assms q show ?thesis
      by (auto simp: service_methods split: prod.splits outcome.splits if_splits)
  qed
qed

text \<open>The calls a request makes satisfy what the repositories ask of their arguments.\<close>

fun call_args_ok :: "repo_call \<Rightarrow> bool" where
  "call_args_ok (CallList ctx l off) \<longleftrightarrow> page_args l off \<and> l \<le>s 100"
| "call_args_ok (CallCreate ctx c) \<longleftrightarrow> create_validate c = None"
| "call_args_ok (CallUpdate ctx u) \<longleftrightarrow> update_validate u = None"
| "call_args_ok _ \<longleftrightarrow> True"

lemma recorded_args:
  assumes "svc_step (service_of recorder) q [] = (a, ms, call # calls)" and "offset_in_range (snd q)"
  shows "call_args_ok call"
proof -
  obtain ctx req where q: "q = (ctx, req)" by force
  show ?thesis
    using assms q effective_limit_bounds
    by (cases req) (auto simp: service_methods Let_def word_sless_alt word_sle_eq page_args_effective
        split: if_splits option.splits)
qed

lemma recorded_refusal:
  assumes "svc_step (service_of recorder) q [] = (a, ms, [])"
  shows "good_response a" "granted i (snd q, a) = 0"
proof -
  obtain ctx req where q: "q = (ctx, req)" by force
  show "good_response a" "granted i (snd q, a) = 0"
    using assms q by (cases req; auto simp: service_methods Let_def split: if_splits option.splits)+
qed

subsection \<open>Each method keeps the stack safe, whatever happens between its calls\<close>

lemma keepsI:
  "(\<And>s b s'. I s \<Longrightarrow> f s = (b, s') \<Longrightarrow> keeps I Q b \<and> I s') \<Longrightarrow> keeps I Q (Access f)"
  by (simp add: keeps_Access)

lemma good_page_max: "good_page l ps \<Longrightarrow> l \<le>s 100 \<Longrightarrow> good_page maxListLimit ps"
  by (simp add: good_page_def word_sle_eq)

context cached_stack
begin

lemma keeps_set:
  assumes "product_wf p"
  shows "keeps cinv good_response
    (Access (\<lambda>(s, r). (Return (One (Ok p)), (s, snd (SetProduct (cache_of ttl) ctx p r)))))"
proof (rule keepsI, clarsimp)
  fix s r assume inv: "cinv (s, r)"
  obtain e r' where e: "SetProduct (cache_of ttl) ctx p r = (e, r')" by force
  have good: "good_maps (maps r)" using inv by (simp add: cinv_def)
  have "good_maps (maps r')"
    using SetProduct_maps [OF e] good_maps_shrinks [OF good_maps_set_product [OF good assms]]
      good_maps_shrinks [OF good] by blast
  then show "product_wf p \<and> cinv (s, snd (SetProduct (cache_of ttl) ctx p r))"
    using inv e assms by (simp add: cinv_def)
qed

lemma keeps_set_page:
  assumes "good_page l ps" and "l \<le>s 100"
  shows "keeps cinv good_response
    (Access (\<lambda>(s, r). (Return (Page (Ok ps)), (s, snd (SetProductList (cache_of ttl) ctx l off ps r)))))"
proof (rule keepsI, clarsimp)
  fix s r assume inv: "cinv (s, r)"
  obtain e r' where e: "SetProductList (cache_of ttl) ctx l off ps r = (e, r')" by force
  have good: "good_maps (maps r)" using inv by (simp add: cinv_def)
  have "good_maps (maps r')"
    using SetProductList_maps [OF e] good_maps_shrinks [OF good_maps_set_page [OF good assms(1)]]
      good_maps_shrinks [OF good] by blast
  then show "good_page maxListLimit ps \<and> cinv (s, snd (SetProductList (cache_of ttl) ctx l off ps r))"
    using inv e assms good_page_max by (simp add: cinv_def)
qed

lemma keeps_scan: "product_wf p \<Longrightarrow> keeps cinv good_response (scan_body stack ctx p)"
  unfolding scan_body_def
proof (rule keepsI, clarsimp)
  fix s r and b :: "('s \<times> 'r, response) body" and s' r' assume wf: "product_wf p" and inv: "cinv (s, r)"
    and run: "(case invalidateListCache stack ctx r of
         (Some m, r) \<Rightarrow> (Return (One (Panic m)), (s, r))
       | (None, r) \<Rightarrow> (Return (One (Ok p)), (s, r))) = (b, s', r')"
  obtain r1 where "invalidateListCache stack ctx r = (None, r1)" "shrinks (maps r) (maps r1)"
    by (rule invalidateListCache_result)
  with run wf inv show "keeps cinv good_response b \<and> cinv (s', r')"
    by (auto simp: cinv_def intro: good_maps_shrinks)
qed

lemma keeps_delete:
  "product_wf p \<Longrightarrow> keeps cinv good_response
    (Access (\<lambda>(s, r). (scan_body stack ctx p, (s, snd (DeleteProduct (cache_of ttl) ctx i r)))))"
proof (rule keepsI, clarsimp)
  fix s r assume wf: "product_wf p" and inv: "cinv (s, r)"
  obtain e r' where "DeleteProduct (cache_of ttl) ctx i r = (e, r')" by force
  with DeleteProduct_maps(1) [OF this] keeps_scan [OF wf] inv
  show "keeps cinv good_response (scan_body stack ctx p) \<and> cinv (s, snd (DeleteProduct (cache_of ttl) ctx i r))"
    by (auto simp: cinv_def intro: good_maps_shrinks)
qed

lemma keeps_invalidating:
  assumes "runs_safe ninv cache_event product_wf call"
  shows "keeps cinv good_response (invalidating stack ctx key call)"
  unfolding invalidating_def
proof (rule keepsI)
  fix sr b sr' assume inv: "cinv sr"
    and run: "(case sr of (s, r) \<Rightarrow> (case call s of
         (Err e, ms, s) \<Rightarrow> (Return (One (Err e)), (s, r))
       | (Panic m, ms, s) \<Rightarrow> (Return (One (Panic m)), (s, r))
       | (Ok p, ms, s) \<Rightarrow>
           (case key p of
              None \<Rightarrow> scan_body stack ctx p
            | Some i \<Rightarrow> Access (\<lambda>(s, r).
                (scan_body stack ctx p, (s, snd (DeleteProduct (cd_cache stack) ctx i r)))), (s, r)))) = (b, sr')"
  obtain s r where sr: "sr = (s, r)" by force
  obtain a ms s1 where call: "call s = (a, ms, s1)" by (metis prod_cases3)
  have "ninv s1 \<and> ok_or_err product_wf a"
    using runs_safeD [OF assms _ call] inv sr by (simp add: cinv_def)
  then show "keeps cinv good_response b \<and> cinv sr'"
    using run sr call inv keeps_scan keeps_delete
    by (cases a) (auto simp: cinv_def split: option.splits)
qed

lemma keeps_fetch:
  "keeps cinv good_response
     (Access (\<lambda>(s, r). (case repo_GetByID nxt ctx i s of
         (Err e, ms, s) \<Rightarrow> (Return (One (Err e)), (s, r))
       | (Panic m, ms, s) \<Rightarrow> (Return (One (Panic m)), (s, r))
       | (Ok p, ms, s) \<Rightarrow>
           (Access (\<lambda>(s, r). (Return (One (Ok p)), (s, snd (SetProduct (cache_of ttl) ctx p r)))), (s, r)))))"
    (is "keeps _ _ (Access ?f)")
proof (rule keepsI)
  fix sr b sr' assume inv: "cinv sr" and run: "?f sr = (b, sr')"
  obtain s r where sr: "sr = (s, r)" by force
  obtain a ms s1 where call: "repo_GetByID nxt ctx i s = (a, ms, s1)" by (metis prod_cases3)
  have "ninv s1 \<and> ok_or_err product_wf a"
    using runs_safeD [OF nxt.GetByID_safe _ call] inv sr by (simp add: cinv_def)
  then show "keeps cinv good_response b \<and> cinv sr'"
    using run sr call inv keeps_set by (cases a) (auto simp: cinv_def)
qed

lemma keeps_GetByID: "keeps cinv good_response (cached_GetByID_body stack ctx i)"
  unfolding cached_GetByID_body_def cached.simps
proof (rule keepsI, goal_cases)
  case (1 sr b sr')
  obtain s r where sr: "sr = (s, r)" by force
  obtain g r1 where g: "GetProduct_cache (cache_of ttl) ctx i r = (g, r1)" by (metis surj_pair)
  note get = GetProduct_maps [OF g]
  have good: "good_maps (maps r1)" "ninv s"
    using 1(1) sr get(1) by (auto simp: cinv_def intro: good_maps_shrinks)
  have "product_wf p" if "g = Ok (Some p)" for p
    using get(3) [OF that] 1(1) sr by (auto simp: cinv_def good_maps_def)
  then show ?case
    using 1(2) sr g good get(2) keeps_fetch by (cases g) (auto simp: cinv_def split: option.splits)
qed

lemma keeps_fetch_page:
  assumes "page_args l off" and "l \<le>s 100"
  shows "keeps cinv good_response
     (Access (\<lambda>(s, r). (case repo_List nxt ctx l off s of
         (Err e, ms, s) \<Rightarrow> (Return (Page (Err e)), (s, r))
       | (Panic m, ms, s) \<Rightarrow> (Return (Page (Panic m)), (s, r))
       | (Ok ps, ms, s) \<Rightarrow>
           (Access (\<lambda>(s, r). (Return (Page (Ok ps)),
              (s, snd (SetProductList (cache_of ttl) ctx l off ps r)))), (s, r)))))"
    (is "keeps _ _ (Access ?f)")
proof (rule keepsI)
  fix sr b sr' assume inv: "cinv sr" and run: "?f sr = (b, sr')"
  obtain s r where sr: "sr = (s, r)" by force
  obtain a ms s1 where call: "repo_List nxt ctx l off s = (a, ms, s1)" by (metis prod_cases3)
  have "ninv s1 \<and> ok_or_err (good_page l) a"
    using runs_safeD [OF nxt.List_safe [OF assms(1)] _ call] inv sr by (simp add: cinv_def)
  then show "keeps cinv good_response b \<and> cinv sr'"
    using run sr call inv keeps_set_page [OF _ assms(2)] by (cases a) (auto simp: cinv_def)
qed

lemma keeps_List:
  assumes "page_args l off" and "l \<le>s 100"
  shows "keeps cinv good_response (cached_List_body stack ctx l off)"
  unfolding cached_List_body_def cached.simps
proof (rule keepsI, goal_cases)
  case (1 sr b sr')
  obtain s r where sr: "sr = (s, r)" by force
  obtain g r1 where g: "GetProductList (cache_of ttl) ctx l off r = (g, r1)" by (metis surj_pair)
  note get = GetProductList_maps [OF g]
  have good: "good_maps (maps r1)" "ninv s"
    using 1(1) sr get(1) by (auto simp: cinv_def intro: good_maps_shrinks)
  have "good_page maxListLimit ps" if "g = Ok (Some ps)" for ps
  proof (rule good_page_max [OF _ assms(2)])
    show "good_page l ps" using get(3) [OF that] 1(1) sr by (simp add: cinv_def good_maps_def)
  qed
  then show ?case
    using 1(2) sr g good get(2) keeps_fetch_page [OF assms]
    by (cases g) (auto simp: cinv_def split: option.splits)
qed

lemma keeps_request:
  assumes "offset_in_range (snd q)"
  shows "keeps cinv good_response (stack_request stack q)"
proof -
  obtain a ms calls where rec: "svc_step (service_of recorder) q [] = (a, ms, calls)" by (metis prod_cases3)
  show ?thesis
  proof (cases calls)
    case Nil
    with rec recorded_refusal(1) show ?thesis by (auto simp: stack_request_def)
  next
    case (Cons call cs)
    then have "call_args_ok call" using recorded_args rec assms by blast
    then have "keeps cinv good_response (stack_code stack call)"
      by (cases call) (auto intro!: keeps_List keeps_GetByID keeps_invalidating nxt.Create_safe
          nxt.Update_safe nxt.UpdateStock_safe)
    with rec Cons show ?thesis by (simp add: stack_request_def)
  qed
qed

end

subsection \<open>What each method moves\<close>

lemma creditsI:
  "(\<And>s b s'. I s \<Longrightarrow> f s = (b, s') \<Longrightarrow>
     (\<exists>d. M d s s' \<and> credits I M S D b (g + d)) \<or> (\<exists>a. b = Return a \<and> \<not> S a)) \<Longrightarrow>
   credits I M S D (Access f) g"
  by (simp add: credits_Access)

definition returned_grant :: "string \<Rightarrow> request \<Rightarrow> ('s, response) body \<Rightarrow> int" where
  "returned_grant i req b = (case b of Return a \<Rightarrow> granted i (req, a) | Access f \<Rightarrow> 0)"

context cached_catalogue
begin

abbreviation next_moves :: "string \<Rightarrow> int \<Rightarrow> 's \<times> 'r \<Rightarrow> 's \<times> 'r \<Rightarrow> bool" where
  "next_moves i g sr sr' \<equiv> nxt.moves i g (fst sr) (fst sr')"

abbreviation settles :: "request \<Rightarrow> response \<Rightarrow> bool" where
  "settles req a \<equiv> settled (req, a)"

abbreviation stands_for :: "string \<Rightarrow> request \<Rightarrow> response \<Rightarrow> int \<Rightarrow> bool" where
  "stands_for i req a g \<equiv> granted i (req, a) = g"

lemma moves_refl: "nxt.moves i 0 s s"
  by (rule nxt.moves_same) (rule refl)

lemma credits_scan:
  "granted i (req, One (Ok p)) = g \<Longrightarrow>
     credits cinv (next_moves i) (settles req) (stands_for i req) (scan_body stack ctx p) g"
  unfolding scan_body_def
proof (rule creditsI, goal_cases)
  case (1 sr b sr')
  obtain s r where sr: "sr = (s, r)" by force
  obtain r1 where "invalidateListCache stack ctx r = (None, r1)"
    by (rule invalidateListCache_result)
  with 1 sr show ?case by (intro disjI1 exI [of _ 0]) (auto simp: moves_refl)
qed

lemma credits_delete:
  "granted i (req, One (Ok p)) = g \<Longrightarrow>
     credits cinv (next_moves i) (settles req) (stands_for i req)
       (Access (\<lambda>(s, r). (scan_body stack ctx p, (s, snd (DeleteProduct (cache_of ttl) ctx j r))))) g"
  by (rule creditsI, rule disjI1, rule exI [of _ 0]) (auto simp: moves_refl intro: credits_scan)

lemma credits_invalidating:
  assumes moved: "\<And>s a ms s'. ninv s \<Longrightarrow> call s = (a, ms, s') \<Longrightarrow> settled (req, One a) \<Longrightarrow>
     nxt.moves i (granted i (req, One a)) s s'"
    and reply: "\<And>e. \<not> settled (req, One (Err e)) \<or> granted i (req, One (Err e)) = 0"
      "\<And>p. settled (req, One (Ok p))" "\<And>m. \<not> settled (req, One (Panic m))"
  shows "credits cinv (next_moves i) (settles req) (stands_for i req) (invalidating stack ctx key call) 0"
  unfolding invalidating_def cached.simps
proof (rule creditsI, goal_cases)
  case (1 sr b sr')
  obtain s r where sr: "sr = (s, r)" by force
  obtain a ms s1 where call: "call s = (a, ms, s1)" by (metis prod_cases3)
  have inv: "ninv s" using 1(1) sr by (simp add: cinv_def)
  show ?case
  proof (cases "settled (req, One a)")
    case True
    note m = moved [OF inv call True]
    show ?thesis
    proof (cases a)
      case (Ok p)
      with 1(2) sr call m show ?thesis
        by (intro disjI1 exI [of _ "granted i (req, One a)"])
           (auto intro: credits_scan credits_delete split: option.splits)
    next
      case (Err e)
      with 1(2) sr call m show ?thesis
        by (intro disjI1 exI [of _ "granted i (req, One a)"]) auto
    next
      case (Panic m)
      with True reply(3) show ?thesis by blast
    qed
  next
    case False
    with reply(2) obtain "\<And>p. a \<noteq> Ok p" by blast
    with False 1(2) sr call show ?thesis by (cases a) auto
  qed
qed

lemma credits_fetch:
  assumes "\<And>a. granted i (req, a) = 0"
  shows "credits cinv (next_moves i) (settles req) (stands_for i req)
     (Access (\<lambda>(s, r). (case repo_GetByID nxt ctx j s of
         (Err e, ms, s) \<Rightarrow> (Return (One (Err e)), (s, r))
       | (Panic m, ms, s) \<Rightarrow> (Return (One (Panic m)), (s, r))
       | (Ok p, ms, s) \<Rightarrow>
           (Access (\<lambda>(s, r). (Return (One (Ok p)), (s, snd (SetProduct (cache_of ttl) ctx p r)))), (s, r))))) 0"
proof (rule creditsI, goal_cases)
  case (1 sr b sr')
  obtain s r where sr: "sr = (s, r)" by force
  obtain a ms s1 where call: "repo_GetByID nxt ctx j s = (a, ms, s1)" by (metis prod_cases3)
  have "nxt.moves i 0 s s1"
    using nxt.read_frame(1) [OF _ call] 1(1) sr by (intro nxt.moves_same) (simp add: cinv_def)
  then show ?case
    using 1(2) sr call assms
    by (intro disjI1 exI [of _ 0], cases a) (auto intro!: creditsI exI [of _ 0] simp: moves_refl)
qed

lemma credits_GetByID:
  assumes "\<And>a. granted i (req, a) = 0"
  shows "credits cinv (next_moves i) (settles req) (stands_for i req) (cached_GetByID_body stack ctx j) 0"
  unfolding cached_GetByID_body_def cached.simps
proof (rule creditsI, goal_cases)
  case (1 sr b sr')
  obtain s r where sr: "sr = (s, r)" by force
  obtain g r1 where g: "GetProduct_cache (cache_of ttl) ctx j r = (g, r1)" by (metis surj_pair)
  show ?case
    using 1(2) sr g assms credits_fetch [OF assms]
    by (intro disjI1 exI [of _ 0], cases g) (auto simp: moves_refl split: option.splits)
qed

lemma credits_fetch_page:
  assumes "\<And>a. granted i (req, a) = 0"
  shows "credits cinv (next_moves i) (settles req) (stands_for i req)
     (Access (\<lambda>(s, r). (case repo_List nxt ctx l off s of
         (Err e, ms, s) \<Rightarrow> (Return (Page (Err e)), (s, r))
       | (Panic m, ms, s) \<Rightarrow> (Return (Page (Panic m)), (s, r))
       | (Ok ps, ms, s) \<Rightarrow>
           (Access (\<lambda>(s, r). (Return (Page (Ok ps)),
              (s, snd (SetProductList (cache_of ttl) ctx l off ps r)))), (s, r))))) 0"
proof (rule creditsI, goal_cases)
  case (1 sr b sr')
  obtain s r where sr: "sr = (s, r)" by force
  obtain a ms s1 where call: "repo_List nxt ctx l off s = (a, ms, s1)" by (metis prod_cases3)
  have "nxt.moves i 0 s s1"
    using nxt.read_frame(2) [OF _ call] 1(1) sr by (intro nxt.moves_same) (simp add: cinv_def)
  then show ?case
    using 1(2) sr call assms
    by (intro disjI1 exI [of _ 0], cases a) (auto intro!: creditsI exI [of _ 0] simp: moves_refl)
qed

lemma credits_List:
  assumes "\<And>a. granted i (req, a) = 0"
  shows "credits cinv (next_moves i) (settles req) (stands_for i req) (cached_List_body stack ctx l off) 0"
  unfolding cached_List_body_def cached.simps
proof (rule creditsI, goal_cases)
  case (1 sr b sr')
  obtain s r where sr: "sr = (s, r)" by force
  obtain g r1 where g: "GetProductList (cache_of ttl) ctx l off r = (g, r1)" by (metis surj_pair)
  show ?case
    using 1(2) sr g assms credits_fetch_page [OF assms]
    by (intro disjI1 exI [of _ 0], cases g) (auto simp: moves_refl split: option.splits)
qed

lemma recorded_moves:
  assumes "svc_step (service_of recorder) q [] = (a0, ms0, call # calls)" and "ninv s"
    and "as_response call nxt s = (a, s')" and "settled (snd q, a)"
  shows "nxt.moves i (granted i (snd q, a)) s s'"
proof -
  obtain a1 ms1 s1 where step: "svc_step (service_of nxt) q s = (a1, ms1, s1)" by (metis prod_cases3)
  have "a1 = a" "s1 = s'" using recorded_call [OF assms(1) step] assms(3) by simp_all
  with nxt.svc_step_moves [OF assms(2) step] assms(4) show ?thesis by simp
qed

lemma credits_request:
  "credits cinv (next_moves i) (settles (snd q)) (stands_for i (snd q)) (stack_request stack q) 0"
proof -
  obtain a ms calls where rec: "svc_step (service_of recorder) q [] = (a, ms, calls)" by (metis prod_cases3)
  obtain ctx req where q: "q = (ctx, req)" by force
  show ?thesis
  proof (cases calls)
    case Nil
    with rec recorded_refusal(2) show ?thesis by (auto simp: stack_request_def)
  next
    case (Cons call cs)
    note moves = recorded_moves [OF rec [unfolded Cons]]
    have "credits cinv (next_moves i) (settles req) (stands_for i req) (stack_code stack call) 0"
    proof (cases req)
      case (ReqList l off)
      with rec Cons q obtain l' where call: "call = CallList ctx l' off"
        by (auto simp: service_methods Let_def split: if_splits)
      have "granted i (req, b) = 0" for b using ReqList by (cases b) auto
      then show ?thesis unfolding call stack_code.simps by (rule credits_List)
    next
      case (ReqGet j)
      with rec Cons q have call: "call = CallGetByID ctx j"
        by (auto simp: service_methods split: if_splits)
      have "granted i (req, b) = 0" for b using ReqGet by (cases b) auto
      then show ?thesis unfolding call stack_code.simps by (rule credits_GetByID)
    next
      case (ReqCreate c)
      with rec Cons q have call: "call = CallCreate ctx c"
        by (auto simp: service_methods split: option.splits)
      show ?thesis
        unfolding call stack_code.simps cached.simps
        by (rule credits_invalidating) (use moves q ReqCreate call in \<open>auto\<close>)
    next
      case (ReqUpdate u)
      with rec Cons q have call: "call = CallUpdate ctx u"
        by (auto simp: service_methods split: option.splits)
      show ?thesis
        unfolding call stack_code.simps cached.simps
        by (rule credits_invalidating) (use moves q ReqUpdate call in \<open>auto\<close>)
    next
      case (ReqStock j d)
      with rec Cons q have call: "call = CallUpdateStock ctx j d"
        by (auto simp: service_methods split: if_splits)
      show ?thesis
        unfolding call stack_code.simps cached.simps
        by (rule credits_invalidating) (use moves q ReqStock call in \<open>auto\<close>)
    qed
    with rec Cons q show ?thesis by (simp add: stack_request_def)
  qed
qed

abbreviation stack_start :: "(context_err \<times> request) list \<Rightarrow> 's \<times> 'r \<Rightarrow> ('s \<times> 'r) \<times> ('s \<times> 'r, response) body list" where
  "stack_start qs sr \<equiv> (sr, map (stack_request stack) qs)"

lemma concurrent_safe:
  assumes "free_step\<^sup>*\<^sup>* (stack_start qs sr) (sr', bs)" and "cinv sr"
    and "list_all (\<lambda>q. offset_in_range (snd q)) qs"
  shows "cinv sr' \<and> length bs = length qs \<and> (\<forall>t < length qs. \<forall>a. bs ! t = Return a \<longrightarrow> good_response a)"
proof -
  have "list_all (keeps cinv good_response) (map (stack_request stack) qs)"
    using assms(3) keeps_request by (simp add: list_all_iff)
  from free_run_keeps [OF assms(1,2) this]
  have all: "cinv sr'" "list_all (keeps cinv good_response) bs" "length bs = length qs" by simp_all
  have "good_response a" if "t < length qs" "bs ! t = Return a" for t a
    using all(2,3) that by (metis keeps.simps(1) list_all_length)
  with all show ?thesis by blast
qed

lemma concurrent_moves:
  assumes run: "free_step\<^sup>*\<^sup>* (stack_start qs sr) (sr', bs)" and inv: "cinv sr"
    and range: "list_all (\<lambda>q. offset_in_range (snd q)) qs"
    and settled: "\<forall>t < length qs. \<exists>a. bs ! t = Return a \<and> settled (snd (qs ! t), a)"
  shows "nxt.moves i (\<Sum>t < length qs. returned_grant i (snd (qs ! t)) (bs ! t)) (fst sr) (fst sr')"
proof -
  have keep: "list_all (keeps cinv good_response) (map (stack_request stack) qs)"
    using range keeps_request by (simp add: list_all_iff)
  have len: "length bs = length qs" using concurrent_safe [OF run inv range] by blast
  have trans: "next_moves i g s1 s2 \<Longrightarrow> next_moves i h s2 s3 \<Longrightarrow> next_moves i (g + h) s1 s3" for g h s1 s2 s3
    by (rule nxt.moves_trans)
  have refl: "next_moves i 0 s1 s1" for s1 by (rule moves_refl)
  have none: "\<not> (\<exists>t < length bs. \<exists>a. bs ! t = Return a \<and> \<not> settles (snd (qs ! t)) a)"
  proof clarify
    fix t a assume "t < length bs" "bs ! t = Return a" "\<not> settles (snd (qs ! t)) a"
    then show False using settled len by (metis body.inject(1))
  qed
  have "(\<exists>t < length bs. \<exists>a. bs ! t = Return a \<and> \<not> settles (snd (qs ! t)) a) \<or>
    (\<exists>gs. length gs = length bs \<and> next_moves i (sum_list gs) sr sr' \<and>
      (\<forall>t < length bs. credits cinv (next_moves i) (settles (snd (qs ! t))) (stands_for i (snd (qs ! t))) (bs ! t) (gs ! t)))"
    by (rule free_run_moves [OF run conjunct1 [OF free_run_keeps [OF _ inv keep]]])
       (assumption, simp add: credits_request, erule (2) credits_call, rule refl, rule trans)
  with none have "\<exists>gs. length gs = length bs \<and> next_moves i (sum_list gs) sr sr' \<and>
      (\<forall>t < length bs. credits cinv (next_moves i) (settles (snd (qs ! t))) (stands_for i (snd (qs ! t))) (bs ! t) (gs ! t))"
    unfolding disj_imp by (rule rev_mp)
  then obtain gs where gs: "length gs = length qs" "next_moves i (sum_list gs) sr sr'"
    "\<forall>t < length qs. credits cinv (next_moves i) (settles (snd (qs ! t))) (stands_for i (snd (qs ! t))) (bs ! t) (gs ! t)"
    unfolding len by (elim exE conjE)
  have "gs ! t = returned_grant i (snd (qs ! t)) (bs ! t)" if t: "t < length qs" for t
  proof -
    obtain a where a: "bs ! t = Return a" "settled (snd (qs ! t), a)" using settled t by blast
    have "credits cinv (next_moves i) (settles (snd (qs ! t))) (stands_for i (snd (qs ! t))) (bs ! t) (gs ! t)"
      using gs(3) t by blast
    with a show ?thesis by (auto simp: returned_grant_def)
  qed
  then have "sum_list gs = (\<Sum>t < length qs. returned_grant i (snd (qs ! t)) (bs ! t))"
    using gs(1) by (simp add: sum_list_sum_nth atLeast0LessThan)
  with gs(2) show ?thesis by simp
qed

end

lemma stack_request_within: "body_within 3 (stack_request c q)"
proof -
  have scan: "body_within (Suc n) (scan_body c ctx p)" for n ctx p
    by (auto simp: scan_body_def split: option.splits prod.splits)
  have writes: "body_within (Suc (Suc (Suc 0))) (invalidating c ctx key call)" for ctx key call
    by (auto simp: invalidating_def numeral_eq_Suc scan split: option.splits prod.splits outcome.splits)
  have "body_within 3 (stack_code c call)" for call
    by (cases call) (auto simp: writes cached_List_body_def cached_GetByID_body_def numeral_eq_Suc
        split: option.splits prod.splits outcome.splits)
  then show ?thesis by (auto simp: stack_request_def split: prod.splits list.splits)
qed

subsection \<open>The deployed stack under concurrent requests\<close>

text \<open>
  The deployed stack under concurrent requests. Goroutines serve any requests over the cache
  over PostgreSQL, interleaved in any way between the calls to Redis and to the database, with
  failures of both at any moment. No answer is a panic, an invalid product or an over-long page;
  the catalogue keeps its invariant; a run of \<open>n\<close> requests has at most \<open>3 n\<close> calls, and one that
  can go no further has answered them all; and when the answers settle their requests, the stock
  of each row is the stock before plus exactly the deltas that were granted.
\<close>

theorem concurrent_stack_ledger:
  assumes "sql_engine db committed working by_id by_time jsonb" and "redis_store client store unseen left"
    and "catalogue_ok (tb_products (committed d))" and "store r = Map.empty"
    and range: "list_all (\<lambda>q. offset_in_range (snd q)) qs"
    and stack: "stack = \<lparr>cd_cache = \<lparr>cache_client = client, cache_ttl = ttl\<rparr>, cd_next = pg_repo db\<rparr>"
    and run: "(free_step ^^ n) ((d, r), map (stack_request stack) qs) ((d', r'), bs)"
  shows "n \<le> 3 * length qs \<and> catalogue_ok (tb_products (committed d')) \<and>
    ((\<nexists>c. free_step ((d', r'), bs) c) \<longrightarrow> (\<forall>t < length qs. \<exists>a. bs ! t = Return a)) \<and>
    (\<forall>t < length qs. \<forall>a. bs ! t = Return a \<longrightarrow> good_response a) \<and>
    ((\<forall>t < length qs. \<exists>a. bs ! t = Return a \<and> settled (snd (qs ! t), a)) \<longrightarrow>
       (\<forall>p \<in> set (tb_products (committed d)). \<exists>p' \<in> set (tb_products (committed d')). ID p' = ID p \<and>
          sint (Stock p') = sint (Stock p) + (\<Sum>t < length qs. returned_grant (ID p) (snd (qs ! t)) (bs ! t))))"
proof (intro conjI)
  let ?ninv = "\<lambda>d. catalogue_ok (tb_products (committed d))"
  let ?listing = "\<lambda>d. by_id (tb_products (committed d))"
  have spec: "spec_repository (pg_repo db) ?ninv ?listing"
    by (rule sql_engine.pg_contract [OF assms(1)])
  then have wr: "write_repository (pg_repo db) ?ninv ?listing" by (rule spec_repository.axioms(1))
  have cat: "cached_catalogue (pg_repo db) ?ninv client store unseen left ?listing"
    by (intro cached_catalogue.intro cached_stack.intro assms(2) wr write_repository.axioms(1) [OF wr])
  have rows: "set (by_id ps) = set ps" for ps
    using sql_engine.by_id_mset [OF assms(1)] by (metis set_mset_mset)
  have inv: "cached_stack.cinv ?ninv store (d, r)"
    by (rule cached_stack.cinv_start [OF cached_catalogue.axioms(1) [OF cat]]) (use assms(3,4) in simp_all)
  have steps: "free_step\<^sup>*\<^sup>* ((d, r), map (stack_request stack) qs) ((d', r'), bs)"
    using run by (rule relpowp_imp_rtranclp)
  note safe = cached_catalogue.concurrent_safe [OF cat steps [unfolded stack] inv range]
  show "n \<le> 3 * length qs"
    using free_steps_within [OF run, of "replicate (length qs) 3"] by (simp add: stack_request_within sum_list_replicate)
  show "?ninv d'" using cached_stack.cinv_next [OF cached_catalogue.axioms(1) [OF cat] conjunct1 [OF safe]] by simp
  show "(\<nexists>c. free_step ((d', r'), bs) c) \<longrightarrow> (\<forall>t < length qs. \<exists>a. bs ! t = Return a)"
    unfolding free_stuck using safe by metis
  show "\<forall>t < length qs. \<forall>a. bs ! t = Return a \<longrightarrow> good_response a" using safe by blast
  show "(\<forall>t < length qs. \<exists>a. bs ! t = Return a \<and> settled (snd (qs ! t), a)) \<longrightarrow>
       (\<forall>p \<in> set (tb_products (committed d)). \<exists>p' \<in> set (tb_products (committed d')). ID p' = ID p \<and>
          sint (Stock p') = sint (Stock p) + (\<Sum>t < length qs. returned_grant (ID p) (snd (qs ! t)) (bs ! t)))"
  proof (intro impI ballI)
    fix p assume settled: "\<forall>t < length qs. \<exists>a. bs ! t = Return a \<and> settled (snd (qs ! t), a)"
      and p: "p \<in> set (tb_products (committed d))"
    from cached_catalogue.concurrent_moves [OF cat steps [unfolded stack] inv range settled, of "ID p"] p
    show "\<exists>p' \<in> set (tb_products (committed d')). ID p' = ID p \<and>
        sint (Stock p') = sint (Stock p) + (\<Sum>t < length qs. returned_grant (ID p) (snd (qs ! t)) (bs ! t))"
      by (auto simp: write_repository.moves_def [OF wr] rows)
  qed
qed

text \<open>A run as far as it goes.\<close>

lemma free_finish:
  assumes "\<forall>t < length bs. body_within d (bs ! t)"
  obtains n c where "(free_step ^^ n) (s, bs) c" and "\<nexists>c'. free_step c c'"
proof (rule bounded_run_ends [of free_step "(s, bs)" "length bs * d"])
  fix n c assume "(free_step ^^ n) (s, bs) c"
  then show "n \<le> length bs * d"
    using free_steps_within [of n s bs _ _ "replicate (length bs) d"] assms by (cases c) (simp add: sum_list_replicate)
qed (rule that)

definition ref_stack :: "(ref_db, ref_redis) cached" where
  "ref_stack = \<lparr>cd_cache = ref_cache, cd_next = pg_repo ref_engine\<rparr>"

theorem concurrent_stack_ledger_witness:
  "\<exists>n d' r' bs. (free_step ^^ n) ((ref_default [NoFault, Fails], empty_redis [Works, Breaks]),
       map (stack_request ref_stack) three_requests) ((d', r'), bs) \<and>
     catalogue_ok (tb_products (rd_committed d')) \<and> (\<forall>t < 3. \<exists>a. bs ! t = Return a \<and> good_response a)"
proof -
  let ?start = "(ref_default [NoFault, Fails], empty_redis [Works, Breaks])"
  obtain n c where run: "(free_step ^^ n) (?start, map (stack_request ref_stack) three_requests) c"
    and stuck: "\<nexists>c'. free_step c c'"
    by (rule free_finish [of "map (stack_request ref_stack) three_requests" 3 ?start])
       (simp_all add: stack_request_within)
  obtain d' r' bs where c: "c = ((d', r'), bs)" by (metis surj_pair)
  have stack: "ref_stack = \<lparr>cd_cache = \<lparr>cache_client = ref_redis_client, cache_ttl = cache_ttl ref_cache\<rparr>,
      cd_next = pg_repo ref_engine\<rparr>"
    by (simp add: ref_stack_def)
  have ok: "catalogue_ok (tb_products (rd_committed (ref_default [NoFault, Fails])))"
    by (simp add: catalogue_ok_default)
  note ledger = concurrent_stack_ledger [OF ref.sql_engine_axioms rr.redis_store_axioms ok rr_store_empty
      three_requests_in_range stack run [unfolded c]]
  moreover have "length three_requests = 3" by (simp add: three_requests_def)
  ultimately have "catalogue_ok (tb_products (rd_committed d'))" "\<forall>t < 3. \<exists>a. bs ! t = Return a \<and> good_response a"
    using stuck c by metis+
  with run c show ?thesis by blast
qed

end
