(* ===== verification/Catalog_Client.thy ===== *)
theory Catalog_Client
  imports Grpc_Handler
begin

section \<open>The demonstration client\<close>

text \<open>
  \<open>cmd/catalog-client/main.go\<close>: it lists a page, reads one product, and streams the page, and logs
  what it receives. The generated stub and the connection under it are a parameter, a record of
  the four calls over the state of the world at the other end; a run is the lines that are
  logged (without their time stamps) and the exit code.
\<close>

datatype received = Eof | RecvError go_error | Received "proto_product option"

record 'w client_stub =
  cs_ListProducts :: "uint32 \<Rightarrow> uint32 \<Rightarrow> 'w \<Rightarrow> list_response result \<times> 'w"
  cs_GetProduct :: "string \<Rightarrow> 'w \<Rightarrow> proto_product option result \<times> 'w"
  cs_StreamProducts :: "uint32 \<Rightarrow> uint32 \<Rightarrow> 'w \<Rightarrow> unit result \<times> 'w"
  cs_Recv :: "'w \<Rightarrow> received \<times> 'w"

record client_flags =
  fl_addr :: string
  fl_id :: string
  fl_limit :: "64 word"
  fl_offset :: "64 word"

subsection \<open>Printing\<close>

text \<open>
  \<open>%.2f\<close> of a \<open>float64\<close>: the exact value is rounded to two decimals, a tie to the even digit.
\<close>

definition two_digits :: "int \<Rightarrow> string" where
  "two_digits n = (if n < 10 then ''0'' @ itoa n else itoa n)"

definition fmt_2f :: "rat \<Rightarrow> string" where
  "fmt_2f x =
     (let n = round_even (\<bar>x\<bar> * 100)
      in (if x < 0 then ''-'' else []) @ itoa (n div 100) @ ''.'' @ two_digits (n mod 100))"

text \<open>The getters of a product that may be nil.\<close>

definition GetPrice :: "proto_product option \<Rightarrow> rat" where
  "GetPrice p = (case p of None \<Rightarrow> 0 | Some p \<Rightarrow> ppPrice p)"

definition product_line :: "string \<Rightarrow> proto_product option \<Rightarrow> string" where
  "product_line pre p =
     pre @ '' id='' @ (case p of None \<Rightarrow> [] | Some p \<Rightarrow> ppId p) @
     '' name='' @ (case p of None \<Rightarrow> [] | Some p \<Rightarrow> ppName p) @ '' price='' @ fmt_2f (GetPrice p)"

subsection \<open>The program\<close>

text \<open>\<open>log.Fatalf\<close> logs its line and exits with code 1.\<close>

type_synonym client_run = "string list \<times> nat"

definition fatal :: "string list \<Rightarrow> string \<Rightarrow> go_error \<Rightarrow> client_run" where
  "fatal out pre e = (out @ [pre @ error_text e], 1)"

text \<open>The loop over the stream: nothing in the code bounds it. \<open>None\<close> is the loop that does not end.\<close>

partial_function (option) recv_loop :: "'w client_stub \<Rightarrow> string list \<Rightarrow> 'w \<Rightarrow> (client_run \<times> 'w) option" where
  "recv_loop cs out w =
     (case cs_Recv cs w of
        (Eof, w) \<Rightarrow> Some ((out @ [''StreamProducts completed''], 0), w)
      | (RecvError e, w) \<Rightarrow> Some (fatal out ''StreamProducts recv: '' e, w)
      | (Received p, w) \<Rightarrow>
          recv_loop cs
            (out @ [case p of None \<Rightarrow> ''StreamProducts item is empty''
                    | Some p \<Rightarrow> product_line ''StreamProducts item'' (Some p)]) w)"

text \<open>A panic of a call is no answer of these calls; it ends the program with the code 2.\<close>

definition client_main ::
  "(string \<Rightarrow> 'w client_stub result) \<Rightarrow> client_flags \<Rightarrow> 'w \<Rightarrow> (client_run \<times> 'w) option"
where
  "client_main dial fl w =
     (case dial (fl_addr fl) of
        Err e \<Rightarrow> Some (fatal [] ''dial: '' e, w)
      | Panic m \<Rightarrow> Some (([], 2), w)
      | Ok cs \<Rightarrow>
          (case cs_ListProducts cs (ucast (fl_limit fl)) (ucast (fl_offset fl)) w of
             (Err e, w) \<Rightarrow> Some (fatal [] ''ListProducts: '' e, w)
           | (Panic m, w) \<Rightarrow> Some (([], 2), w)
           | (Ok listResp, w) \<Rightarrow>
               (let out = [''ListProducts total='' @ itoa (uint (Total listResp)) @
                             '' items='' @ itoa (int (length (Items listResp)))] in
                case cs_GetProduct cs (fl_id fl) w of
                  (Err e, w) \<Rightarrow> Some (fatal out ''GetProduct: '' e, w)
                | (Panic m, w) \<Rightarrow> Some ((out, 2), w)
                | (Ok p, w) \<Rightarrow>
                    (let out = out @ [product_line ''GetProduct'' p] in
                     case cs_StreamProducts cs (ucast (fl_limit fl)) (ucast (fl_offset fl)) w of
                       (Err e, w) \<Rightarrow> Some (fatal out ''StreamProducts: '' e, w)
                     | (Panic m, w) \<Rightarrow> Some ((out, 2), w)
                     | (Ok _, w) \<Rightarrow> recv_loop cs (out @ [''StreamProducts started'']) w))))"

subsection \<open>The client at the server\<close>

text \<open>
  A connection that loses nothing, to the handlers of \<open>Grpc_Handler\<close>: the other end is the state
  of the service and what the open stream has still to deliver. A status reaches the client as
  an error with its code and text.
\<close>

definition status_error :: "grpc_status \<Rightarrow> go_error" where
  "status_error st =
     Plain (''rpc error: code = '' @ code_String (status_code st) @ '' desc = '' @ status_text st)"

fun from_status :: "(grpc_status, 'a) outcome \<Rightarrow> 'a result" where
  "from_status (Ok a) = Ok a"
| "from_status (Err st) = Err (status_error st)"
| "from_status (Panic m) = Err (status_error (Status Internal m))"

definition deliver :: "proto_product \<Rightarrow> proto_product list \<Rightarrow> go_error option \<times> proto_product list" where
  "deliver m k = (None, k @ [m])"

definition connection ::
  "'s catalog_service option \<Rightarrow> ('s \<times> received list) client_stub"
where
  "connection svc =
     \<lparr>cs_ListProducts = (\<lambda>l off (s, k).
        case grpc_ListProducts svc None (Some \<lparr>rLimit = l, rOffset = off\<rparr>) s of
          (r, ms, s) \<Rightarrow> (from_status r, (s, k))),
      cs_GetProduct = (\<lambda>i (s, k).
        case grpc_GetProduct svc None (Some i) s of
          (Ok p, ms, s) \<Rightarrow> (Ok (Some p), (s, k))
        | (Err st, ms, s) \<Rightarrow> (Err (status_error st), (s, k))
        | (Panic m, ms, s) \<Rightarrow> (Err (status_error (Status Internal m)), (s, k))),
      cs_StreamProducts = (\<lambda>l off (s, k).
        case grpc_StreamProducts svc deliver None (Some \<lparr>rLimit = l, rOffset = off\<rparr>) (s, []) of
          (r, ms, (s, items)) \<Rightarrow>
            (Ok (), (s, map (\<lambda>p. Received (Some p)) items @
               [case from_status r of Ok () \<Rightarrow> Eof | Err e \<Rightarrow> RecvError e | Panic m \<Rightarrow> Eof]))),
      cs_Recv = (\<lambda>(s, k). case k of [] \<Rightarrow> (Eof, (s, [])) | m # k \<Rightarrow> (m, (s, k)))\<rparr>"

lemma connection_sel [simp]:
  "cs_ListProducts (connection svc) l off (s, k) =
     (case grpc_ListProducts svc None (Some \<lparr>rLimit = l, rOffset = off\<rparr>) s of
        (r, ms, s) \<Rightarrow> (from_status r, (s, k)))"
  "cs_GetProduct (connection svc) i (s, k) =
     (case grpc_GetProduct svc None (Some i) s of
          (Ok p, ms, s) \<Rightarrow> (Ok (Some p), (s, k))
        | (Err st, ms, s) \<Rightarrow> (Err (status_error st), (s, k))
        | (Panic m, ms, s) \<Rightarrow> (Err (status_error (Status Internal m)), (s, k)))"
  "cs_StreamProducts (connection svc) l off (s, k) =
     (case grpc_StreamProducts svc deliver None (Some \<lparr>rLimit = l, rOffset = off\<rparr>) (s, []) of
          (r, ms, (s, items)) \<Rightarrow>
            (Ok (), (s, map (\<lambda>p. Received (Some p)) items @
               [case from_status r of Ok () \<Rightarrow> Eof | Err e \<Rightarrow> RecvError e | Panic m \<Rightarrow> Eof])))"
  "cs_Recv (connection svc) (s, []) = (Eof, (s, []))"
  "cs_Recv (connection svc) (s, m # k') = (m, (s, k'))"
  by (simp_all add: connection_def)

subsection \<open>The price is printed exactly\<close>

text \<open>The cents as a decimal, the way a price is written.\<close>

definition decimal_price :: "int \<Rightarrow> string" where
  "decimal_price cents = itoa (cents div 100) @ ''.'' @ two_digits (cents mod 100)"

lemma round_even_near:
  assumes "\<bar>x - of_int n\<bar> < 1 / 2"
  shows "round_even x = n"
proof -
  have "\<bar>(of_int (round_even x) :: rat) - of_int n\<bar> < 1"
    using round_even_error [of x] assms by linarith
  then have "\<bar>of_int (round_even x - n) :: rat\<bar> < of_int 1" by simp
  then show ?thesis by (simp flip: of_int_abs)
qed

lemma fmt_price:
  assumes "0 \<le> sint c" and "sint c < 2 ^ 52"
  shows "fmt_2f (price_of_cents c) = decimal_price (sint c)"
proof -
  note close = price_of_cents_error [OF assms]
  have "(of_int 0 :: rat) \<le> of_int (sint c)"
    using assms(1) by (simp only: of_int_le_iff)
  then have c: "(0 :: rat) \<le> of_int (sint c) / 100" by linarith
  define x y :: rat where "x = price_of_cents c" and "y = of_int (sint c) / 100"
  have xy: "\<bar>x - y\<bar> \<le> y / 2 ^ 53" "\<bar>x - y\<bar> < 1 / 200" and y: "0 \<le> y"
    using close c unfolding x_def y_def by blast+
  have "y / 2 ^ 53 \<le> y" using y by simp
  with xy(1) have pos: "0 \<le> x" by linarith
  have "\<bar>\<bar>x\<bar> * 100 - 100 * y\<bar> < 1 / 2" using xy(2) pos by linarith
  moreover have "100 * y = of_int (sint c)" by (simp add: y_def)
  ultimately have "round_even (\<bar>x\<bar> * 100) = sint c" by (intro round_even_near) simp
  with pos show ?thesis by (simp add: fmt_2f_def decimal_price_def Let_def x_def)
qed

subsection \<open>The calls over a repository\<close>

lemma send_all_deliver: "send_all deliver ps k = (None, k @ map toProtoProduct ps)"
  by (induction ps arbitrary: k) (simp_all add: deliver_def)

lemma stream_delivers:
  assumes "grpc_StreamProducts svc deliver None req (s, []) = (r, ms, (s', items))"
    and "grpc_ListProducts svc None req s = (r', ms', s'')"
  shows "s' = s'' \<and> (case r' of Ok resp \<Rightarrow> r = Ok () \<and> items = Items resp | Err st \<Rightarrow> r = Err st \<and> items = []
    | Panic m \<Rightarrow> r = Panic m \<and> items = [])"
  using assms
  by (auto simp: grpc_StreamProducts_def grpc_ListProducts_def with_grpc_duration_def send_all_deliver Let_def
      split: option.splits prod.splits outcome.splits)

abbreviation item_line :: "proto_product \<Rightarrow> string" where
  "item_line p \<equiv> product_line ''StreamProducts item'' (Some p)"

lemma recv_loop_connection:
  "recv_loop (connection svc) out (s, map (\<lambda>p. Received (Some p)) items @ [Eof]) =
     Some ((out @ map item_line items @ [''StreamProducts completed''], 0), (s, []))"
  "recv_loop (connection svc) out (s, map (\<lambda>p. Received (Some p)) items @ [RecvError e]) =
     Some (fatal (out @ map item_line items) ''StreamProducts recv: '' e, (s, []))"
proof (induction items arbitrary: out)
  case Nil
  {
    case 1
    show ?case by (subst recv_loop.simps) simp
  next
    case 2
    show ?case by (subst recv_loop.simps) simp
  }
next
  case (Cons p items)
  {
    case 1
    show ?case by (subst recv_loop.simps) (simp add: Cons.IH)
  next
    case 2
    show ?case by (subst recv_loop.simps) (simp add: Cons.IH)
  }
qed

lemma grpc_list_inv:
  assumes "safe_repository repo invar" and "invar s"
    and "grpc_ListProducts (service_of repo) None req s = (r, ms, s')"
  shows "invar s' \<and> (\<forall>m. r \<noteq> Panic m)"
proof (cases "validateListProductsRequest req")
  case None
  obtain q ms1 s1 where list: "ListProducts (service_of repo) None (ucast (GetLimit req)) (ucast (GetOffset req)) s = (q, ms1, s1)"
    by (metis prod_cases3)
  have "invar s1 \<and> ok_or_err (good_page maxListLimit) q"
    using runs_safeD [OF safe_repository.ListProducts_safe [OF assms(1)] assms(2) list]
      request_offset_range [of "GetOffset req"] by simp
  with None list assms(3) show ?thesis
    by (cases q) (auto simp: grpc_ListProducts_def with_grpc_duration_def Let_def)
qed (use assms in \<open>auto simp: grpc_ListProducts_def with_grpc_duration_def\<close>)

lemma grpc_get_product:
  assumes "spec_repository repo invar listing" and "invar s"
    and "grpc_GetProduct (service_of repo) None (Some i) s = (r, ms, s')"
  shows "case r of Ok pp \<Rightarrow> invar s' \<and> listing s' = listing s \<and>
      (\<exists>p \<in> set (listing s). ID p = i \<and> pp = toProtoProduct p) | _ \<Rightarrow> True"
proof (cases r)
  case (Ok pp)
  with assms(3) obtain p ms1 where get: "GetProduct (service_of repo) None i s = (Ok p, ms1, s')" and pp: "pp = toProtoProduct p"
    by (auto simp: grpc_GetProduct_def with_grpc_duration_def GetId_def Let_def
        split: option.splits prod.splits outcome.splits)
  have safe: "safe_repository repo invar"
    by (rule write_repository.axioms(1) [OF spec_repository.axioms(1) [OF assms(1)]])
  have "invar s'" using runs_safeD [OF safe_repository.GetProduct_safe [OF safe] assms(2) get] by blast
  moreover obtain ms2 where "repo_GetByID repo None i s = (Ok p, ms2, s')"
    using GetProduct_passes [OF get] by auto
  note spec_repository.GetByID_ok [OF assms(1,2) this]
  ultimately show ?thesis using Ok pp by auto
qed auto

text \<open>The line of a product, with its exact price.\<close>

definition catalogue_line :: "string \<Rightarrow> product \<Rightarrow> string" where
  "catalogue_line pre p =
     pre @ '' id='' @ ID p @ '' name='' @ Name p @ '' price='' @ decimal_price (sint (PriceCents p))"

lemma product_line_exact:
  assumes "product_wf p" and "sint (PriceCents p) < 2 ^ 52"
  shows "product_line pre (Some (toProtoProduct p)) = catalogue_line pre p"
  using assms fmt_price [of "PriceCents p"]
  by (simp add: product_line_def catalogue_line_def toProtoProduct_def GetPrice_def product_wf_iff)

text \<open>The page that a request of the two flags names.\<close>

abbreviation requested :: "uint32 \<Rightarrow> uint32 \<Rightarrow> product list \<Rightarrow> product list" where
  "requested l off ps \<equiv> page (if l = 0 then 20 else if uint l \<le> 100 then ucast l else 100) (ucast off) ps"

lemma client_receives:
  assumes spec: "spec_repository repo invar listing" and inv: "invar s"
    and stream: "grpc_StreamProducts (service_of repo) deliver None (Some \<lparr>rLimit = l, rOffset = off\<rparr>) (s, []) =
      (r, ms, (s', items))"
  shows "\<exists>more code w'.
    recv_loop (connection (service_of repo)) out (s', map (\<lambda>p. Received (Some p)) items @
        [case from_status r of Ok () \<Rightarrow> Eof | Err e \<Rightarrow> RecvError e | Panic m \<Rightarrow> Eof]) = Some ((out @ more, code), w') \<and>
    (code = 1 \<or> code = 0 \<and>
       more = map (\<lambda>p. item_line (toProtoProduct p)) (requested l off (listing s)) @ [''StreamProducts completed''])"
proof -
  obtain r' ms' s'' where list: "grpc_ListProducts (service_of repo) None (Some \<lparr>rLimit = l, rOffset = off\<rparr>) s = (r', ms', s'')"
    by (metis prod_cases3)
  note delivered = stream_delivers [OF stream list]
  show ?thesis
  proof (cases r')
    case (Ok resp)
    have "Items resp = map toProtoProduct (requested l off (listing s))"
      using grpc_list_page [OF spec inv list [unfolded Ok]] by simp
    with delivered Ok have r: "r = Ok ()" and items: "items = map toProtoProduct (requested l off (listing s))"
      by simp_all
    show ?thesis
      unfolding r from_status.simps outcome.case unit.case recv_loop_connection
      unfolding items map_map comp_def by blast
  next
    case (Err st)
    with delivered have r: "r = Err st" by simp
    show ?thesis
      unfolding r from_status.simps outcome.case recv_loop_connection fatal_def append_assoc by blast
  next
    case (Panic m)
    with delivered have r: "r = Panic m" by simp
    show ?thesis
      unfolding r from_status.simps outcome.case recv_loop_connection fatal_def append_assoc by blast
  qed
qed

lemma client_before_stream:
  assumes spec: "spec_repository repo invar listing" and inv: "invar s"
    and dial: "dial (fl_addr fl) = Ok (connection (service_of repo))"
    and limit: "l = (ucast (fl_limit fl) :: uint32)" and off: "off = (ucast (fl_offset fl) :: uint32)"
  obtains (failed) out w' where "client_main dial fl (s, k) = Some ((out, 1), w')"
  | (started) p r ms s2 s3 items where "uint l \<le> 1000" and "invar s2" and "listing s2 = listing s"
    and "p \<in> set (listing s)" and "ID p = fl_id fl"
    and "grpc_StreamProducts (service_of repo) deliver None (Some \<lparr>rLimit = l, rOffset = off\<rparr>) (s2, []) = (r, ms, (s3, items))"
    and "client_main dial fl (s, k) = recv_loop (connection (service_of repo))
        [''ListProducts total='' @ itoa (int (length (requested l off (listing s)))) @
           '' items='' @ itoa (int (length (requested l off (listing s)))),
         product_line ''GetProduct'' (Some (toProtoProduct p)), ''StreamProducts started'']
        (s3, map (\<lambda>p. Received (Some p)) items @
          [case from_status r of Ok () \<Rightarrow> Eof | Err e \<Rightarrow> RecvError e | Panic m \<Rightarrow> Eof])"
proof -
  let ?req = "Some \<lparr>rLimit = l, rOffset = off\<rparr>"
  have safe: "safe_repository repo invar"
    by (rule write_repository.axioms(1) [OF spec_repository.axioms(1) [OF spec]])
  obtain r1 ms1 s1 where list: "grpc_ListProducts (service_of repo) None ?req s = (r1, ms1, s1)"
    by (metis prod_cases3)
  obtain r2 ms2 s2 where get: "grpc_GetProduct (service_of repo) None (Some (fl_id fl)) s1 = (r2, ms2, s2)"
    by (metis prod_cases3)
  obtain r3 ms3 s3 items where stream:
    "grpc_StreamProducts (service_of repo) deliver None ?req (s2, []) = (r3, ms3, (s3, items))"
    by (metis prod_cases4)
  consider (no_list) "\<forall>resp. r1 \<noteq> Ok resp" | (no_get) resp where "r1 = Ok resp" "\<forall>pp. r2 \<noteq> Ok pp"
    | (both) resp pp where "r1 = Ok resp" "r2 = Ok pp" by blast
  then show thesis
  proof cases
    case no_list
    with dial list limit off show ?thesis
      by (cases r1) (auto simp: client_main_def fatal_def intro: failed)
  next
    case no_get
    with dial list get limit off show ?thesis
      by (cases r2) (auto simp: client_main_def fatal_def Let_def intro: failed)
  next
    case both
    note page = grpc_list_page [OF spec inv list [unfolded both(1)]]
    have listed: "listing s1 = listing s" "uint l \<le> 1000" "uint (Total resp) = int (length (Items resp))"
      "Items resp = map toProtoProduct (requested l off (listing s))" using page by simp_all
    from grpc_get_product [OF spec conjunct1 [OF grpc_list_inv [OF safe inv list]] get] both(2) listed(1)
    obtain p where p: "invar s2" "listing s2 = listing s" "p \<in> set (listing s)" "ID p = fl_id fl" "pp = toProtoProduct p"
      by auto
    have "client_main dial fl (s, k) = recv_loop (connection (service_of repo))
        [''ListProducts total='' @ itoa (int (length (requested l off (listing s)))) @
           '' items='' @ itoa (int (length (requested l off (listing s)))),
         product_line ''GetProduct'' (Some (toProtoProduct p)), ''StreamProducts started'']
        (s3, map (\<lambda>p. Received (Some p)) items @
          [case from_status r3 of Ok () \<Rightarrow> Eof | Err e \<Rightarrow> RecvError e | Panic m \<Rightarrow> Eof])"
      using dial both list get stream limit off listed(3,4) p(5) by (simp add: client_main_def Let_def)
    from started [OF listed(2) p(1-4) stream this] show ?thesis .
  qed
qed


text \<open>Two products of the default catalogue.\<close>

definition ref_flags :: client_flags where
  "ref_flags = \<lparr>fl_addr = ''127.0.0.1:9091'', fl_id = ''prod-001'', fl_limit = 2, fl_offset = 3\<rparr>"

lemma ref_client_run:
  "\<exists>out w'. client_main (\<lambda>addr. Ok (connection (service_of in_memory_repo))) ref_flags (im_default, []) =
     Some ((out, 0), w')"
proof -
  let ?req = "Some \<lparr>rLimit = 2, rOffset = 3\<rparr>"
  have "page_args 2 (3 :: int64)" by (simp add: page_args_def)
  then have page: "im_List None 2 3 im_default = (Ok (page 2 3 defaultProducts), [], im_default)"
    using im_List_page [of 2 3 im_default] by simp
  have valid: "validateListProductsRequest ?req = None" by (simp add: list_request_limit GetLimit_def)
  have eff: "effective_limit 2 = 2" by (simp add: effective_limit_cases)
  have "\<not> blank ''prod-001''" by code_simp
  then have get: "\<exists>pp ms. grpc_GetProduct (service_of in_memory_repo) None (Some ''prod-001'') im_default = (Ok pp, ms, im_default)"
    by (simp add: grpc_GetProduct_def with_grpc_duration_def validateGetProductRequest_def GetId_def
        GetProduct_def with_duration_def im_GetByID_def defaultProducts_def)
  have list: "\<exists>resp ms. grpc_ListProducts (service_of in_memory_repo) None ?req im_default = (Ok resp, ms, im_default)"
    using page valid eff
    by (simp add: grpc_ListProducts_def with_grpc_duration_def GetLimit_def GetOffset_def Let_def
        ListProducts_def with_duration_def word_sless_alt)
  have stream: "\<exists>ms items. grpc_StreamProducts (service_of in_memory_repo) deliver None ?req (im_default, []) =
      (Ok (), ms, (im_default, items))"
    using page valid eff
    by (simp add: grpc_StreamProducts_def with_grpc_duration_def GetLimit_def GetOffset_def Let_def
        ListProducts_def with_duration_def word_sless_alt send_all_deliver)
  obtain pp resp ms1 ms2 ms3 items where
    calls: "grpc_GetProduct (service_of in_memory_repo) None (Some ''prod-001'') im_default = (Ok pp, ms1, im_default)"
      "grpc_ListProducts (service_of in_memory_repo) None ?req im_default = (Ok resp, ms2, im_default)"
      "grpc_StreamProducts (service_of in_memory_repo) deliver None ?req (im_default, []) = (Ok (), ms3, (im_default, items))"
    using get list stream by (elim exE)
  have flags: "fl_addr ref_flags = ''127.0.0.1:9091''" "fl_id ref_flags = ''prod-001''"
    "(ucast (fl_limit ref_flags) :: uint32) = 2" "(ucast (fl_offset ref_flags) :: uint32) = 3"
    by (simp_all add: ref_flags_def)
  show ?thesis
    by (simp only: client_main_def flags Let_def outcome.case connection_sel calls prod.case from_status.simps
        unit.case recv_loop_connection option.inject prod.inject simp_thms ex_simps)
qed


end
