(* ===== verification/Net_Url.thy ===== *)
theory Net_Url
  imports Go_Strings "HOL-Library.List_Lexorder" "HOL-Library.Char_ord"
begin

section \<open>net/url as the program uses it\<close>

text \<open>
  \<open>url.Parse\<close>, \<open>URL.Query\<close>, \<open>Values.Set\<close>, \<open>Values.Encode\<close> and \<open>URL.String\<close> of the standard library
  (release 1.24, which \<open>go.mod\<close> names), on bytes. An error is \<open>None\<close>: its text is not modelled.
\<close>

subsection \<open>Escaping\<close>

datatype encoding = EncodePath | EncodeHost | EncodeZone | EncodeUserPassword | EncodeQueryComponent | EncodeFragment

abbreviation byte_of :: "char \<Rightarrow> nat" where
  "byte_of c \<equiv> of_char c"

definition is_digit :: "char \<Rightarrow> bool" where
  "is_digit c \<longleftrightarrow> 48 \<le> byte_of c \<and> byte_of c \<le> 57"

definition is_letter :: "char \<Rightarrow> bool" where
  "is_letter c \<longleftrightarrow> 97 \<le> byte_of c \<and> byte_of c \<le> 122 \<or> 65 \<le> byte_of c \<and> byte_of c \<le> 90"

definition shouldEscape :: "char \<Rightarrow> encoding \<Rightarrow> bool" where
  "shouldEscape c mode =
     (if is_letter c \<or> is_digit c then False
      else if mode \<in> {EncodeHost, EncodeZone} \<and>
        c \<in> set (''!$&'' @ [CHR 0x27] @ ''()*+,;=:[]<>'' @ [CHR 0x22]) then False
      else if c \<in> set ''-_.~'' then False
      else if c \<in> set ''$&+,/:;=?@'' \<and> mode = EncodePath then c = CHR ''?''
      else if c \<in> set ''$&+,/:;=?@'' \<and> mode = EncodeUserPassword then c \<in> set ''@/?:''
      else if c \<in> set ''$&+,/:;=?@'' \<and> mode = EncodeQueryComponent then True
      else if c \<in> set ''$&+,/:;=?@'' \<and> mode = EncodeFragment then False
      else if mode = EncodeFragment \<and> c \<in> set ''!()*'' then False
      else True)"

definition hex_digit :: "nat \<Rightarrow> char" where
  "hex_digit n = (if n < 10 then char_of (48 + n) else char_of (55 + n))"

definition unhex :: "char \<Rightarrow> nat option" where
  "unhex c =
     (let n = byte_of c in
      if 48 \<le> n \<and> n \<le> 57 then Some (n - 48)
      else if 97 \<le> n \<and> n \<le> 102 then Some (n - 87)
      else if 65 \<le> n \<and> n \<le> 70 then Some (n - 55)
      else None)"

definition escape_char :: "encoding \<Rightarrow> char \<Rightarrow> string" where
  "escape_char mode c =
     (if \<not> shouldEscape c mode then [c]
      else if c = CHR '' '' \<and> mode = EncodeQueryComponent then ''+''
      else [CHR ''%'', hex_digit (byte_of c div 16), hex_digit (byte_of c mod 16)])"

definition url_escape :: "encoding \<Rightarrow> string \<Rightarrow> string" where
  "url_escape mode s = concat (map (escape_char mode) s)"

text \<open>What an escape \<open>%ab\<close> may stand for in a host or a zone.\<close>

definition escape_allowed :: "encoding \<Rightarrow> nat \<Rightarrow> nat \<Rightarrow> bool" where
  "escape_allowed mode a b =
     (if mode = EncodeHost then \<not> (a < 8 \<and> \<not> (a = 2 \<and> b = 5))
      else if mode = EncodeZone then
        a = 2 \<and> b = 5 \<or> a = 2 \<and> b = 0 \<or> \<not> shouldEscape (char_of (16 * a + b)) EncodeHost
      else True)"

fun url_unescape :: "encoding \<Rightarrow> string \<Rightarrow> string option" where
  "url_unescape mode [] = Some []"
| "url_unescape mode (c # s) =
     (if c = CHR ''%'' then
        (case s of
           x # y # s' \<Rightarrow>
             (case (unhex x, unhex y) of
                (Some a, Some b) \<Rightarrow>
                  if escape_allowed mode a b
                  then map_option (Cons (char_of (16 * a + b))) (url_unescape mode s') else None
              | _ \<Rightarrow> None)
         | _ \<Rightarrow> None)
      else if c = CHR ''+'' \<and> mode = EncodeQueryComponent
        then map_option (Cons (CHR '' '')) (url_unescape mode s)
      else if mode \<in> {EncodeHost, EncodeZone} \<and> byte_of c < 128 \<and> shouldEscape c mode then None
      else map_option (Cons c) (url_unescape mode s))"

subsection \<open>Cutting\<close>

text \<open>\<open>strings.Cut\<close> at a byte; whether it was there; and \<open>strings.LastIndex\<close> as a split.\<close>

definition cut :: "char \<Rightarrow> string \<Rightarrow> string \<times> string" where
  "cut c s = (takeWhile (\<lambda>x. x \<noteq> c) s, drop 1 (dropWhile (\<lambda>x. x \<noteq> c) s))"

definition cut_last :: "char \<Rightarrow> string \<Rightarrow> (string \<times> string) option" where
  "cut_last c s =
     (if c \<notin> set s then None
      else let after = rev (takeWhile (\<lambda>x. x \<noteq> c) (rev s))
           in Some (take (length s - length after - 1) s, after))"

subsection \<open>Parsing\<close>

record url =
  u_Scheme :: string
  u_Opaque :: string
  u_User :: "(string \<times> string option) option"
  u_Host :: string
  u_Path :: string
  u_RawPath :: string
  u_OmitHost :: bool
  u_ForceQuery :: bool
  u_RawQuery :: string
  u_Fragment :: string
  u_RawFragment :: string

definition empty_url :: url where
  "empty_url =
     \<lparr>u_Scheme = [], u_Opaque = [], u_User = None, u_Host = [], u_Path = [], u_RawPath = [],
      u_OmitHost = False, u_ForceQuery = False, u_RawQuery = [], u_Fragment = [], u_RawFragment = []\<rparr>"

text \<open>The scheme and the rest; \<open>None\<close> is the missing scheme before a colon.\<close>

fun scheme_loop :: "string \<Rightarrow> string \<Rightarrow> string \<Rightarrow> (string \<times> string) option" where
  "scheme_loop raw acc [] = Some ([], raw)"
| "scheme_loop raw acc (c # s) =
     (if is_letter c then scheme_loop raw (acc @ [c]) s
      else if is_digit c \<or> c \<in> set ''+-.'' then
        (if acc = [] then Some ([], raw) else scheme_loop raw (acc @ [c]) s)
      else if c = CHR '':'' then (if acc = [] then None else Some (acc, s))
      else Some ([], raw))"

definition getScheme :: "string \<Rightarrow> (string \<times> string) option" where
  "getScheme raw = scheme_loop raw [] raw"

definition validOptionalPort :: "string \<Rightarrow> bool" where
  "validOptionalPort port =
     (case port of [] \<Rightarrow> True | c # ds \<Rightarrow> c = CHR '':'' \<and> list_all is_digit ds)"

text \<open>\<open>strings.Index(s, "%25")\<close> as a split before it.\<close>

fun before_zone :: "string \<Rightarrow> (string \<times> string) option" where
  "before_zone [] = None"
| "before_zone (c # s) =
     (if prefix ''%25'' (c # s) then Some ([], c # s)
      else map_option (\<lambda>(a, b). (c # a, b)) (before_zone s))"

definition parseHost :: "string \<Rightarrow> string option" where
  "parseHost host =
     (if prefix ''['' host then
        (case cut_last (CHR '']'') host of
           None \<Rightarrow> None
         | Some (before, colonPort) \<Rightarrow>
             if \<not> validOptionalPort colonPort then None
             else
               (case before_zone before of
                  Some (h, zone) \<Rightarrow>
                    Option.bind (url_unescape EncodeHost h) (\<lambda>h1.
                    Option.bind (url_unescape EncodeZone zone) (\<lambda>h2.
                    map_option (\<lambda>h3. h1 @ h2 @ h3) (url_unescape EncodeHost ('']'' @ colonPort))))
                | None \<Rightarrow> url_unescape EncodeHost host))
      else
        (case cut_last (CHR '':'') host of
           Some (_, port) \<Rightarrow>
             if validOptionalPort (CHR '':'' # port) then url_unescape EncodeHost host else None
         | None \<Rightarrow> url_unescape EncodeHost host))"

definition validUserinfo :: "string \<Rightarrow> bool" where
  "validUserinfo s = list_all (\<lambda>c. is_letter c \<or> is_digit c \<or>
     c \<in> set (''-._:~!$&'' @ [CHR 0x27] @ ''()*+,;=%@'')) s"

definition parseAuthority :: "string \<Rightarrow> ((string \<times> string option) option \<times> string) option" where
  "parseAuthority authority =
     (case cut_last (CHR ''@'') authority of
        None \<Rightarrow> map_option (\<lambda>h. (None, h)) (parseHost authority)
      | Some (userinfo, host) \<Rightarrow>
          (case parseHost host of
             None \<Rightarrow> None
           | Some h \<Rightarrow>
               if \<not> validUserinfo userinfo then None
               else if CHR '':'' \<notin> set userinfo then
                 map_option (\<lambda>u. (Some (u, None), h)) (url_unescape EncodeUserPassword userinfo)
               else
                 (case cut (CHR '':'') userinfo of
                    (username, password) \<Rightarrow>
                      Option.bind (url_unescape EncodeUserPassword username) (\<lambda>u.
                      map_option (\<lambda>p. (Some (u, Some p), h)) (url_unescape EncodeUserPassword password)))))"

definition setPath :: "url \<Rightarrow> string \<Rightarrow> url option" where
  "setPath u p =
     map_option (\<lambda>path. u\<lparr>u_Path := path, u_RawPath := (if p = url_escape EncodePath path then [] else p)\<rparr>)
       (url_unescape EncodePath p)"

definition setFragment :: "url \<Rightarrow> string \<Rightarrow> url option" where
  "setFragment u f =
     map_option (\<lambda>frag. u\<lparr>u_Fragment := frag, u_RawFragment := (if f = url_escape EncodeFragment frag then [] else f)\<rparr>)
       (url_unescape EncodeFragment f)"

text \<open>The part after the query has been split off, with the scheme known.\<close>

definition parse_rest :: "url \<Rightarrow> string \<Rightarrow> url option" where
  "parse_rest u rest =
     (if \<not> prefix ''/'' rest \<and> u_Scheme u \<noteq> [] then Some (u\<lparr>u_Opaque := rest\<rparr>)
      else if \<not> prefix ''/'' rest \<and> CHR '':'' \<in> set (fst (cut (CHR ''/'') rest)) then None
      else if (u_Scheme u \<noteq> [] \<or> \<not> prefix ''///'' rest) \<and> prefix ''//'' rest then
        (let authority = takeWhile (\<lambda>c. c \<noteq> CHR ''/'') (drop 2 rest);
             path = dropWhile (\<lambda>c. c \<noteq> CHR ''/'') (drop 2 rest)
         in Option.bind (parseAuthority authority) (\<lambda>(user, host).
              setPath (u\<lparr>u_User := user, u_Host := host\<rparr>) path))
      else setPath (u\<lparr>u_OmitHost := (u_Scheme u \<noteq> [] \<and> prefix ''/'' rest)\<rparr>) rest)"

definition parse_url :: "string \<Rightarrow> url option" where
  "parse_url raw =
     (if list_ex (\<lambda>c. byte_of c < 32 \<or> byte_of c = 127) raw then None
      else if raw = ''*'' then Some (empty_url\<lparr>u_Path := ''*''\<rparr>)
      else
        (case getScheme raw of
           None \<Rightarrow> None
         | Some (scheme, rest) \<Rightarrow>
             (let u = empty_url\<lparr>u_Scheme := map lower_char scheme\<rparr>
              in if rest \<noteq> [] \<and> last rest = CHR ''?'' \<and> count_list rest (CHR ''?'') = 1
                 then parse_rest (u\<lparr>u_ForceQuery := True\<rparr>) (butlast rest)
                 else (case cut (CHR ''?'') rest of
                         (rest, q) \<Rightarrow> parse_rest (u\<lparr>u_RawQuery := q\<rparr>) rest))))"

definition url_Parse :: "string \<Rightarrow> url option" where
  "url_Parse raw =
     (case cut (CHR ''#'') raw of
        (u, frag) \<Rightarrow>
          (case parse_url u of
             None \<Rightarrow> None
           | Some url \<Rightarrow> if frag = [] then Some url else setFragment url frag))"

subsection \<open>Printing\<close>

definition validEncoded :: "string \<Rightarrow> encoding \<Rightarrow> bool" where
  "validEncoded s mode = list_all (\<lambda>c. c \<in> set (''!$&'' @ [CHR 0x27] @ ''()*+,;=:@[]%'') \<or> \<not> shouldEscape c mode) s"

definition EscapedPath :: "url \<Rightarrow> string" where
  "EscapedPath u =
     (if u_RawPath u \<noteq> [] \<and> validEncoded (u_RawPath u) EncodePath \<and>
         url_unescape EncodePath (u_RawPath u) = Some (u_Path u) then u_RawPath u
      else if u_Path u = ''*'' then ''*''
      else url_escape EncodePath (u_Path u))"

definition EscapedFragment :: "url \<Rightarrow> string" where
  "EscapedFragment u =
     (if u_RawFragment u \<noteq> [] \<and> validEncoded (u_RawFragment u) EncodeFragment \<and>
         url_unescape EncodeFragment (u_RawFragment u) = Some (u_Fragment u) then u_RawFragment u
      else url_escape EncodeFragment (u_Fragment u))"

definition user_String :: "string \<times> string option \<Rightarrow> string" where
  "user_String u =
     url_escape EncodeUserPassword (fst u) @
     (case snd u of None \<Rightarrow> [] | Some p \<Rightarrow> '':'' @ url_escape EncodeUserPassword p)"

definition url_String :: "url \<Rightarrow> string" where
  "url_String u =
     (let scheme = (if u_Scheme u = [] then [] else u_Scheme u @ '':'');
          body =
            (if u_Opaque u \<noteq> [] then u_Opaque u
             else
               (let auth =
                      (if u_Scheme u = [] \<and> u_Host u = [] \<and> u_User u = None then []
                       else if u_OmitHost u \<and> u_Host u = [] \<and> u_User u = None then []
                       else (if u_Host u \<noteq> [] \<or> u_Path u \<noteq> [] \<or> u_User u \<noteq> None then ''//'' else []) @
                            (case u_User u of None \<Rightarrow> [] | Some ui \<Rightarrow> user_String ui @ ''@'') @
                            url_escape EncodeHost (u_Host u));
                    path = EscapedPath u
                in auth @ (if path \<noteq> [] \<and> hd path \<noteq> CHR ''/'' \<and> u_Host u \<noteq> [] then ''/'' else []) @
                   (if scheme @ auth = [] \<and> \<not> (path \<noteq> [] \<and> hd path \<noteq> CHR ''/'' \<and> u_Host u \<noteq> []) \<and>
                       CHR '':'' \<in> set (fst (cut (CHR ''/'') path)) then ''./'' else []) @ path))
      in scheme @ body @
         (if u_ForceQuery u \<or> u_RawQuery u \<noteq> [] then ''?'' @ u_RawQuery u else []) @
         (if u_Fragment u \<noteq> [] then ''#'' @ EscapedFragment u else []))"

subsection \<open>The query\<close>

text \<open>\<open>url.Values\<close>: the keys with their values, in any order of the keys; each key once.\<close>

type_synonym url_values = "(string \<times> string list) list"

fun values_add :: "string \<Rightarrow> string \<Rightarrow> url_values \<Rightarrow> url_values" where
  "values_add k v [] = [(k, [v])]"
| "values_add k v ((k', vs) # m) = (if k' = k then (k', vs @ [v]) # m else (k', vs) # values_add k v m)"

fun values_Set :: "string \<Rightarrow> string \<Rightarrow> url_values \<Rightarrow> url_values" where
  "values_Set k v [] = [(k, [v])]"
| "values_Set k v ((k', vs) # m) = (if k' = k then (k', [v]) # m else (k', vs) # values_Set k v m)"

definition parse_pair :: "string \<Rightarrow> url_values \<Rightarrow> url_values" where
  "parse_pair key m =
     (if CHR '';'' \<in> set key \<or> key = [] then m
      else (case cut (CHR ''='') key of
              (k, v) \<Rightarrow>
                (case (url_unescape EncodeQueryComponent k, url_unescape EncodeQueryComponent v) of
                   (Some k, Some v) \<Rightarrow> values_add k v m
                 | _ \<Rightarrow> m)))"

definition ParseQuery :: "string \<Rightarrow> url_values" where
  "ParseQuery query = fold parse_pair (split_on (CHR ''&'') query) []"

definition encode_pairs :: "string \<times> string list \<Rightarrow> string list" where
  "encode_pairs kv =
     map (\<lambda>v. url_escape EncodeQueryComponent (fst kv) @ ''='' @ url_escape EncodeQueryComponent v) (snd kv)"

definition values_Encode :: "url_values \<Rightarrow> string" where
  "values_Encode m = join_with ''&'' (concat (map encode_pairs (sort_key fst m)))"

subsection \<open>Escaping and its inverse\<close>

definition unreserved :: "char \<Rightarrow> bool" where
  "unreserved c \<longleftrightarrow> is_letter c \<or> is_digit c \<or> c \<in> set ''-_.~''"

definition plain :: "string \<Rightarrow> bool" where
  "plain s = list_all unreserved s"

lemma plain_simps [simp]:
  "plain []" "plain (c # s) \<longleftrightarrow> unreserved c \<and> plain s" "plain (s @ t) \<longleftrightarrow> plain s \<and> plain t"
  by (simp_all add: plain_def)

lemma plainD: "plain s \<Longrightarrow> c \<in> set s \<Longrightarrow> unreserved c"
  by (simp add: plain_def list_all_iff)

lemma unreserved_code: "unreserved c \<Longrightarrow>
    byte_of c \<in> {45, 46, 95, 126} \<union> {48..57} \<union> {65..90} \<union> {97..122}"
  by (auto simp: unreserved_def is_letter_def is_digit_def)

lemma unreserved_neq:
  assumes "byte_of d \<notin> {45, 46, 95, 126} \<union> {48..57} \<union> {65..90} \<union> {97..122}" and "unreserved c"
  shows "c \<noteq> d"
  using assms unreserved_code by blast

lemma not_in_plain:
  "byte_of d \<notin> {45, 46, 95, 126} \<union> {48..57} \<union> {65..90} \<union> {97..122} \<Longrightarrow> plain s \<Longrightarrow> d \<notin> set s"
  using plainD unreserved_neq by blast

lemma unreserved_kept:
  assumes "unreserved c"
  shows "\<not> shouldEscape c mode"
proof -
  from assms consider "is_letter c \<or> is_digit c" | "c \<in> set ''-_.~''"
    by (auto simp only: unreserved_def)
  then show ?thesis
    by cases (simp_all only: shouldEscape_def if_True if_cancel simp_thms)
qed

lemma escape_kept: "(\<And>c. c \<in> set s \<Longrightarrow> \<not> shouldEscape c mode) \<Longrightarrow> url_escape mode s = s"
  by (induction s) (auto simp: url_escape_def escape_char_def)

lemma unescape_kept:
  "(\<And>c. c \<in> set s \<Longrightarrow> c \<noteq> CHR ''%'' \<and> c \<noteq> CHR ''+'' \<and> \<not> shouldEscape c mode) \<Longrightarrow> url_unescape mode s = Some s"
  by (induction s) auto

lemma plain_kept [simp]:
  assumes "plain s"
  shows "url_escape mode s = s" "url_unescape mode s = Some s"
  using unreserved_kept [OF plainD [OF assms]] not_in_plain [OF _ assms, of "CHR ''%''"]
    not_in_plain [OF _ assms, of "CHR ''+''"]
  by (auto intro!: escape_kept unescape_kept)

lemma byte_lt: "byte_of c < 256"
  using mod_less_divisor [of 256 "byte_of c"] by (simp del: mod_less_divisor)

lemma nibbles: "byte_of c div 16 < 16" "byte_of c mod 16 < 16"
  using byte_lt [of c] by (simp_all add: less_mult_imp_div_less)

lemma unhex_hex_digit: "n < 16 \<Longrightarrow> unhex (hex_digit n) = Some n"
  by (auto simp: hex_digit_def unhex_def Let_def)

lemma unreserved_hex_digit: "n < 16 \<Longrightarrow> unreserved (hex_digit n)"
  by (auto simp: hex_digit_def unreserved_def is_letter_def is_digit_def)

lemma special_bytes_escaped:
  "shouldEscape (CHR ''%'') EncodeQueryComponent" "shouldEscape (CHR ''+'') EncodeQueryComponent"
  by (simp_all add: shouldEscape_def is_letter_def is_digit_def)

text \<open>Unescaping a query component undoes escaping it, for every byte string.\<close>

lemma unescape_escape_Cons:
  "url_unescape EncodeQueryComponent (escape_char EncodeQueryComponent c @ s) =
     map_option (Cons c) (url_unescape EncodeQueryComponent s)"
proof (cases "shouldEscape c EncodeQueryComponent")
  case True
  have hex: "unhex (hex_digit (byte_of c div 16)) = Some (byte_of c div 16)"
    "unhex (hex_digit (byte_of c mod 16)) = Some (byte_of c mod 16)"
    by (simp_all add: unhex_hex_digit nibbles)
  show ?thesis
    by (cases "c = CHR '' ''") (simp_all add: escape_char_def True hex escape_allowed_def)
next
  case False
  then have "c \<noteq> CHR ''%''" "c \<noteq> CHR ''+''"
    using special_bytes_escaped by auto
  with False show ?thesis by (simp add: escape_char_def)
qed

lemma unescape_escape [simp]:
  "url_unescape EncodeQueryComponent (url_escape EncodeQueryComponent s) = Some s"
  by (induction s) (simp_all add: url_escape_def unescape_escape_Cons)

text \<open>The bytes of an escaped query component.\<close>

definition query_byte :: "char \<Rightarrow> bool" where
  "query_byte c \<longleftrightarrow> unreserved c \<or> c = CHR ''+'' \<or> c = CHR ''%''"

lemma query_component_kept: "\<not> shouldEscape c EncodeQueryComponent \<Longrightarrow> unreserved c"
  by (auto simp only: shouldEscape_def unreserved_def encoding.distinct insert_iff empty_iff simp_thms if_False
      split: if_splits)

lemma query_byte_escape: "c \<in> set (url_escape EncodeQueryComponent s) \<Longrightarrow> query_byte c"
proof (induction s)
  case (Cons x s)
  have "query_byte c" if "c \<in> set (escape_char EncodeQueryComponent x)"
    using that query_component_kept [of x] unreserved_hex_digit [OF nibbles(1), of x]
      unreserved_hex_digit [OF nibbles(2), of x]
    by (auto simp: escape_char_def query_byte_def split: if_splits)
  with Cons show ?case by (auto simp: url_escape_def)
qed (simp add: url_escape_def)

lemma not_in_query:
  assumes "byte_of d \<notin> {37, 43, 45, 46, 95, 126} \<union> {48..57} \<union> {65..90} \<union> {97..122}"
  shows "d \<notin> set (url_escape EncodeQueryComponent s)"
proof
  assume "d \<in> set (url_escape EncodeQueryComponent s)"
  then have "query_byte d" by (rule query_byte_escape)
  with assms unreserved_code [of d] show False by (auto simp: query_byte_def)
qed

end
