(* ===== verification/Migrator.thy ===== *)
theory Migrator
  imports Net_Url Config
begin

section \<open>The migration program\<close>

text \<open>
  \<open>cmd/migrator/main.go\<close>: it adds the name of the migrations table to the query of the database
  URL, opens the migrations, and applies the command. The flags come parsed; the library
  \<open>golang-migrate\<close> is a parameter, a record of the calls over the state of the world, with its two
  sentinels; so is the text of an error of \<open>url.Parse\<close>. A run is the lines of the standard
  output, the lines that are logged (without their time stamps), and the exit code.
\<close>

subsection \<open>The URL\<close>

definition withMigrationsTable :: "(string \<Rightarrow> go_error) \<Rightarrow> string \<Rightarrow> string \<Rightarrow> string result" where
  "withMigrationsTable parse_error dsn table =
     (case url_Parse dsn of
        None \<Rightarrow> Err (parse_error dsn)
      | Some u \<Rightarrow>
          (let q = values_Set ''x-migrations-table'' table (ParseQuery (u_RawQuery u))
           in Ok (url_String (u\<lparr>u_RawQuery := values_Encode q\<rparr>))))"

subsection \<open>The program\<close>

record ('m, 'w) migrate_lib =
  mg_New :: "string \<Rightarrow> string \<Rightarrow> 'w \<Rightarrow> 'm result \<times> 'w"
  mg_Up :: "'m \<Rightarrow> 'w \<Rightarrow> go_error option \<times> 'w"
  mg_Down :: "'m \<Rightarrow> 'w \<Rightarrow> go_error option \<times> 'w"
  mg_Version :: "'m \<Rightarrow> 'w \<Rightarrow> (nat \<times> bool) result \<times> 'w"
  mg_ErrNoChange :: go_error
  mg_ErrNilVersion :: go_error
  mg_parse_error :: "string \<Rightarrow> go_error"

record migrator_flags =
  mf_dsn :: string
  mf_path :: string
  mf_table :: string
  mf_command :: string

record program_run =
  run_stdout :: "string list"
  run_log :: "string list"
  run_exit :: nat

definition printed :: "string \<Rightarrow> program_run" where
  "printed s = \<lparr>run_stdout = [s], run_log = [], run_exit = 0\<rparr>"

definition failed_run :: "string \<Rightarrow> program_run" where
  "failed_run s = \<lparr>run_stdout = [], run_log = [s], run_exit = 1\<rparr>"

definition crashed_run :: "program_run" where
  "crashed_run = \<lparr>run_stdout = [], run_log = [], run_exit = 2\<rparr>"

text \<open>The verb \<open>%v\<close> of a Boolean.\<close>

definition fmt_bool :: "bool \<Rightarrow> string" where
  "fmt_bool b = (if b then ''true'' else ''false'')"

text \<open>The two commands that change the schema print and fail the same way with their own words.\<close>

definition migrate_step ::
  "go_error \<Rightarrow> string \<Rightarrow> string \<Rightarrow> string \<Rightarrow> go_error option \<times> 'w \<Rightarrow> program_run \<times> 'w"
where
  "migrate_step no_change failure nothing success rw =
     (case rw of
        (None, w) \<Rightarrow> (printed success, w)
      | (Some e, w) \<Rightarrow>
          if \<not> errors_is e no_change then (failed_run (failure @ error_text e), w)
          else (printed nothing, w))"

definition migrator_main ::
  "('m, 'w) migrate_lib \<Rightarrow> migrator_flags \<Rightarrow> 'w \<Rightarrow> program_run \<times> 'w"
where
  "migrator_main lib fl w =
     (if mf_dsn fl = [] then (failed_run ''dsn is required'', w)
      else
        (case withMigrationsTable (mg_parse_error lib) (mf_dsn fl) (mf_table fl) of
           Err e \<Rightarrow> (failed_run (''build database url: '' @ error_text e), w)
         | Panic m \<Rightarrow> (crashed_run, w)
         | Ok databaseURL \<Rightarrow>
             (case mg_New lib (''file://'' @ mf_path fl) databaseURL w of
                (Err e, w) \<Rightarrow> (failed_run (''create migrator: '' @ error_text e), w)
              | (Panic m, w) \<Rightarrow> (crashed_run, w)
              | (Ok m, w) \<Rightarrow>
                  if mf_command fl = ''up'' then
                    migrate_step (mg_ErrNoChange lib) ''apply up migrations: '' ''no migrations to apply''
                      ''migrations applied successfully'' (mg_Up lib m w)
                  else if mf_command fl = ''down'' then
                    migrate_step (mg_ErrNoChange lib) ''apply down migrations: '' ''no migrations to rollback''
                      ''migrations rolled back successfully'' (mg_Down lib m w)
                  else if mf_command fl = ''version'' then
                    (case mg_Version lib m w of
                       (Err e, w) \<Rightarrow>
                         if errors_is e (mg_ErrNilVersion lib) then (printed ''no migrations applied yet'', w)
                         else (failed_run (''get version: '' @ error_text e), w)
                     | (Panic s, w) \<Rightarrow> (crashed_run, w)
                     | (Ok (version, dirty), w) \<Rightarrow>
                         (printed (''version='' @ itoa (int version) @ '' dirty='' @ fmt_bool dirty), w))
                  else (failed_run (''unknown command: '' @ mf_command fl), w))))"

subsection \<open>A URL of plain parts\<close>

lemma cut_at [simp]:
  "c \<notin> set a \<Longrightarrow> cut c (a @ c # b) = (a, b)"
  "c \<notin> set a \<Longrightarrow> cut c a = (a, [])"
proof -
  assume a: "c \<notin> set a"
  then have all: "\<forall>x \<in> set a. x \<noteq> c" by blast
  note kept = takeWhile_eq_all_conv [THEN iffD2, OF all] dropWhile_eq_Nil_conv [THEN iffD2, OF all]
  show "cut c (a @ c # b) = (a, b)"
    using all by (simp add: cut_def takeWhile_append2 dropWhile_append2)
  show "cut c a = (a, [])" by (simp only: cut_def kept drop_Nil)
qed

lemma cut_last_at [simp]:
  assumes "c \<notin> set b"
  shows "cut_last c (a @ c # b) = Some (a, b)"
proof -
  have "takeWhile (\<lambda>x. x \<noteq> c) (rev b @ c # rev a) = rev b"
    using assms by (subst takeWhile_append2) auto
  then show ?thesis by (simp add: cut_last_def Let_def)
qed

definition dsn_url :: "string \<Rightarrow> string \<Rightarrow> string \<Rightarrow> string \<Rightarrow> string \<Rightarrow> url" where
  "dsn_url user password host path q =
     empty_url\<lparr>u_Scheme := ''postgres'', u_User := Some (user, Some password), u_Host := host,
       u_Path := path, u_RawQuery := q\<rparr>"

definition dsn_query :: "string \<Rightarrow> bool" where
  "dsn_query q \<longleftrightarrow> q \<noteq> [] \<and> list_all (\<lambda>c. query_byte c \<or> c = CHR ''='' \<or> c = CHR ''&'') q"

lemma dsn_query_not_in:
  assumes "dsn_query q" and "byte_of d \<notin> {37, 38, 43, 45, 46, 61, 95, 126} \<union> {48..57} \<union> {65..90} \<union> {97..122}"
  shows "d \<notin> set q"
proof
  assume "d \<in> set q"
  then have "query_byte d \<or> d = CHR ''='' \<or> d = CHR ''&''"
    using assms(1) by (auto simp: dsn_query_def list_all_iff)
  with assms(2) unreserved_code [of d] show False by (auto simp: query_byte_def)
qed

lemma getScheme_postgres: "getScheme (''postgres://'' @ s) = Some (''postgres'', ''//'' @ s)"
  by (simp add: getScheme_def is_letter_def is_digit_def)

lemma digits_unreserved: "list_all is_digit ds \<Longrightarrow> plain ds"
  by (auto simp: plain_def list_all_iff unreserved_def)

lemma host_kept:
  assumes "plain h" and "plain ds"
  shows "url_escape EncodeHost (h @ '':'' @ ds) = h @ '':'' @ ds"
    and "url_unescape EncodeHost (h @ '':'' @ ds) = Some (h @ '':'' @ ds)"
proof -
  have kept: "c \<noteq> CHR ''%'' \<and> c \<noteq> CHR ''+'' \<and> \<not> shouldEscape c EncodeHost" if "c \<in> set (h @ '':'' @ ds)" for c
  proof (cases "c = CHR '':''")
    case True
    then show ?thesis by (simp add: shouldEscape_def)
  next
    case False
    with that assms have "unreserved c" by (auto dest: plainD)
    then show ?thesis using unreserved_kept unreserved_neq by auto
  qed
  show "url_escape EncodeHost (h @ '':'' @ ds) = h @ '':'' @ ds" by (rule escape_kept) (use kept in blast)
  show "url_unescape EncodeHost (h @ '':'' @ ds) = Some (h @ '':'' @ ds)" by (rule unescape_kept) (use kept in blast)
qed

lemma path_kept:
  assumes "plain db"
  shows "url_escape EncodePath (''/'' @ db) = ''/'' @ db"
    and "url_unescape EncodePath (''/'' @ db) = Some (''/'' @ db)"
  using plain_kept [OF assms]
  by (simp_all add: url_escape_def escape_char_def shouldEscape_def is_letter_def is_digit_def)

lemma parseAuthority_dsn:
  assumes "plain u" and "plain p" and "plain h" and "list_all is_digit ds"
  shows "parseAuthority (u @ '':'' @ p @ ''@'' @ h @ '':'' @ ds) = Some (Some (u, Some p), h @ '':'' @ ds)"
proof -
  note ds = digits_unreserved [OF assms(4)]
  note notin = not_in_plain [OF _ assms(1)] not_in_plain [OF _ assms(2)] not_in_plain [OF _ assms(3)]
    not_in_plain [OF _ ds]
  have at: "cut_last (CHR ''@'') ((u @ '':'' @ p) @ CHR ''@'' # (h @ '':'' @ ds)) = Some (u @ '':'' @ p, h @ '':'' @ ds)"
    by (rule cut_last_at) (simp add: notin)
  have colon: "cut_last (CHR '':'') (h @ CHR '':'' # ds) = Some (h, ds)"
    by (rule cut_last_at) (simp add: notin)
  have user: "cut (CHR '':'') (u @ CHR '':'' # p) = (u, p)"
    by (rule cut_at) (simp add: notin)
  have bracket: "\<not> prefix ''['' (h @ '':'' @ ds)"
    using notin(3) [of "CHR ''[''"] by (cases h) simp_all
  have host: "parseHost (h @ '':'' @ ds) = Some (h @ '':'' @ ds)"
    using bracket colon assms(4) host_kept(2) [OF assms(3) ds]
    by (simp add: parseHost_def validOptionalPort_def)
  have valid: "validUserinfo (u @ '':'' @ p)"
    using plainD [OF assms(1)] plainD [OF assms(2)]
    by (auto simp: validUserinfo_def list_all_iff unreserved_def)
  show ?thesis
    using at user host valid plain_kept [OF assms(1)] plain_kept [OF assms(2)]
    by (simp add: parseAuthority_def)
qed

definition dsn_of :: "string \<Rightarrow> string \<Rightarrow> string \<Rightarrow> string \<Rightarrow> string \<Rightarrow> string \<Rightarrow> string" where
  "dsn_of u p h ds db q =
     ''postgres://'' @ u @ '':'' @ p @ ''@'' @ h @ '':'' @ ds @ ''/'' @ db @ ''?'' @ q"

lemma parse_rest_dsn:
  assumes "plain u" and "plain p" and "plain h" and "list_all is_digit ds" and "plain db"
  shows "parse_rest (empty_url\<lparr>u_Scheme := ''postgres'', u_RawQuery := q\<rparr>)
      (''//'' @ u @ '':'' @ p @ ''@'' @ h @ '':'' @ ds @ ''/'' @ db) =
    Some (dsn_url u p (h @ '':'' @ ds) (''/'' @ db) q)"
proof -
  let ?a = "u @ '':'' @ p @ ''@'' @ h @ '':'' @ ds"
  note ds = digits_unreserved [OF assms(4)]
  note notin = not_in_plain [OF _ assms(1)] not_in_plain [OF _ assms(2)] not_in_plain [OF _ assms(3)]
    not_in_plain [OF _ ds]
  have all: "\<forall>x \<in> set ?a. x \<noteq> CHR ''/''"
    using notin [of "CHR ''/''"] by auto
  have parts: "takeWhile (\<lambda>c. c \<noteq> CHR ''/'') (?a @ CHR ''/'' # db) = ?a"
    "dropWhile (\<lambda>c. c \<noteq> CHR ''/'') (?a @ CHR ''/'' # db) = CHR ''/'' # db"
    using all by (simp_all only: takeWhile_append2 dropWhile_append2 takeWhile.simps dropWhile.simps simp_thms
        if_False append_Nil2)
  have path: "url_escape EncodePath (''/'' @ db) = ''/'' @ db" "url_unescape EncodePath (''/'' @ db) = Some (''/'' @ db)"
    by (rule path_kept [OF assms(5)])+
  have "parse_rest (empty_url\<lparr>u_Scheme := ''postgres'', u_RawQuery := q\<rparr>) (''//'' @ ?a @ CHR ''/'' # db) =
    setPath (empty_url\<lparr>u_Scheme := ''postgres'', u_RawQuery := q, u_User := Some (u, Some p), u_Host := h @ '':'' @ ds\<rparr>)
      (''/'' @ db)"
    using parts parseAuthority_dsn [OF assms(1-4)]
    by (simp add: parse_rest_def Let_def)
  also have "\<dots> = Some (dsn_url u p (h @ '':'' @ ds) (''/'' @ db) q)"
    by (simp only: setPath_def path option.map dsn_url_def if_True) (simp add: empty_url_def)
  finally show ?thesis by simp
qed

lemma parse_dsn:
  assumes "plain u" and "plain p" and "plain h" and "list_all is_digit ds" and "plain db" and "dsn_query q"
  shows "url_Parse (dsn_of u p h ds db q) = Some (dsn_url u p (h @ '':'' @ ds) (''/'' @ db) q)"
proof -
  let ?r = "''//'' @ u @ '':'' @ p @ ''@'' @ h @ '':'' @ ds @ ''/'' @ db"
  note ds = digits_unreserved [OF assms(4)]
  note notin = not_in_plain [OF _ assms(1)] not_in_plain [OF _ assms(2)] not_in_plain [OF _ assms(3)]
    not_in_plain [OF _ ds] not_in_plain [OF _ assms(5)] dsn_query_not_in [OF assms(6)]
  have dsn: "dsn_of u p h ds db q = ''postgres://'' @ u @ '':'' @ p @ ''@'' @ h @ '':'' @ ds @ ''/'' @ db @ ''?'' @ q"
    by (simp add: dsn_of_def)
  have hash: "cut (CHR ''#'') (dsn_of u p h ds db q) = (dsn_of u p h ds db q, [])"
    by (rule cut_at) (simp add: dsn notin)
  have ctl: "\<not> list_ex (\<lambda>c. byte_of c < 32 \<or> byte_of c = 127) (dsn_of u p h ds db q)"
  proof
    assume "list_ex (\<lambda>c. byte_of c < 32 \<or> byte_of c = 127) (dsn_of u p h ds db q)"
    then obtain c where c: "c \<in> set (dsn_of u p h ds db q)" "byte_of c < 32 \<or> byte_of c = 127"
      by (auto simp: list_ex_iff)
    then have "byte_of c \<notin> {45, 46, 95, 126} \<union> {48..57} \<union> {65..90} \<union> {97..122}"
      "byte_of c \<notin> {37, 38, 43, 45, 46, 61, 95, 126} \<union> {48..57} \<union> {65..90} \<union> {97..122}"
      by auto
    from notin(1-5) [OF this(1)] notin(6) [OF this(2)]
    have "c \<in> set ''postgres:///:@?''" using c(1) by (auto simp: dsn)
    with c(2) show False by auto
  qed
  have quest: "CHR ''?'' \<notin> set ?r" using notin [of "CHR ''?''"] by simp
  have "q \<noteq> []" using assms(6) by (simp add: dsn_query_def)
  then have "last q \<in> set q" by (rule last_in_set)
  moreover have "CHR ''?'' \<notin> set q" by (rule notin(6)) simp
  ultimately have "last q \<noteq> CHR ''?''" by metis
  with \<open>q \<noteq> []\<close> have no_force: "\<not> (last (?r @ CHR ''?'' # q) = CHR ''?'')" by simp
  have split: "cut (CHR ''?'') (?r @ CHR ''?'' # q) = (?r, q)"
    by (rule cut_at) (rule quest)
  have scheme: "getScheme (dsn_of u p h ds db q) = Some (''postgres'', ?r @ CHR ''?'' # q)"
    using getScheme_postgres [of "u @ '':'' @ p @ ''@'' @ h @ '':'' @ ds @ ''/'' @ db @ ''?'' @ q"]
    by (simp add: dsn)
  have lower: "map lower_char ''postgres'' = ''postgres''" by (simp add: lower_char_def)
  have star: "dsn_of u p h ds db q \<noteq> ''*''" by (simp add: dsn)
  have "parse_url (dsn_of u p h ds db q) =
      parse_rest (empty_url\<lparr>u_Scheme := ''postgres'', u_RawQuery := q\<rparr>) ?r"
    unfolding parse_url_def scheme option.case prod.case lower Let_def split
    using ctl star no_force by (simp only: if_False simp_thms)
  also have "\<dots> = Some (dsn_url u p (h @ '':'' @ ds) (''/'' @ db) q)"
    by (rule parse_rest_dsn [OF assms(1-5)])
  finally show ?thesis by (simp add: url_Parse_def hash)
qed

lemma print_dsn:
  assumes "plain u" and "plain p" and "plain h" and "list_all is_digit ds" and "plain db" and "q \<noteq> []"
  shows "url_String (dsn_url u p (h @ '':'' @ ds) (''/'' @ db) q) = dsn_of u p h ds db q"
  using assms host_kept(1) [OF assms(3) digits_unreserved [OF assms(4)]] path_kept(1) [OF assms(5)]
  by (simp add: url_String_def dsn_url_def empty_url_def dsn_of_def EscapedPath_def user_String_def)

subsection \<open>Its query\<close>

lemma parse_pair_escaped:
  "k \<noteq> [] \<Longrightarrow> parse_pair (url_escape EncodeQueryComponent k @ ''='' @ url_escape EncodeQueryComponent v) m = values_add k v m"
proof -
  have semi: "CHR '';'' \<notin> set (url_escape EncodeQueryComponent k @ ''='' @ url_escape EncodeQueryComponent v)"
    using not_in_query [of "CHR '';''"] by simp
  have eq: "cut (CHR ''='') (url_escape EncodeQueryComponent k @ CHR ''='' # url_escape EncodeQueryComponent v) =
      (url_escape EncodeQueryComponent k, url_escape EncodeQueryComponent v)"
    by (rule cut_at) (simp add: not_in_query)
  show ?thesis using semi eq by (simp add: parse_pair_def)
qed

abbreviation migrations_key :: string where
  "migrations_key \<equiv> ''x-migrations-table''"

abbreviation migrations_query :: "string \<Rightarrow> string \<Rightarrow> string" where
  "migrations_query mode table \<equiv>
     ''sslmode='' @ mode @ ''&'' @ migrations_key @ ''='' @ url_escape EncodeQueryComponent table"

lemma plain_keys: "plain ''sslmode''" "plain migrations_key"
  by (simp_all add: unreserved_def is_letter_def is_digit_def)

lemma parse_pair_sslmode: "plain mode \<Longrightarrow> parse_pair (''sslmode='' @ mode) m = values_add ''sslmode'' mode m"
  using parse_pair_escaped [of "''sslmode''" mode m] plain_kept(1) [OF plain_keys(1)] by simp

lemma ParseQuery_sslmode: "plain mode \<Longrightarrow> ParseQuery (''sslmode='' @ mode) = [(''sslmode'', [mode])]"
  using not_in_plain [of "CHR ''&''" mode] parse_pair_sslmode [of mode "[]"]
    split_on_none [of "CHR ''&''" "''sslmode='' @ mode"]
  by (simp add: ParseQuery_def)

lemma ParseQuery_migrations:
  assumes "plain mode"
  shows "ParseQuery (migrations_query mode table) = [(''sslmode'', [mode]), (migrations_key, [table])]"
proof -
  let ?b = "migrations_key @ ''='' @ url_escape EncodeQueryComponent table"
  have "split_on (CHR ''&'') ((''sslmode='' @ mode) @ CHR ''&'' # ?b) = [''sslmode='' @ mode, ?b]"
    using not_in_plain [of "CHR ''&''", OF _ assms] not_in_query [of "CHR ''&''" table]
    by (subst split_on_append, simp, subst split_on_none) simp_all
  then show ?thesis
    using parse_pair_sslmode [OF assms, of "[]"] parse_pair_escaped [of migrations_key table]
      plain_kept(1) [OF plain_keys(2)]
    by (simp add: ParseQuery_def)
qed

lemma Encode_migrations:
  assumes "plain mode"
  shows "values_Encode [(''sslmode'', [mode]), (migrations_key, [table])] = migrations_query mode table"
  using plain_kept(1) [OF assms] plain_kept(1) [OF plain_keys(1)] plain_kept(1) [OF plain_keys(2)]
  by (simp add: values_Encode_def encode_pairs_def less_char_def)

lemma dsn_query_sslmode: "plain mode \<Longrightarrow> dsn_query (''sslmode='' @ mode)"
  using plain_keys(1) plainD [of mode] by (auto simp: dsn_query_def list_all_iff query_byte_def)

lemma dsn_query_migrations: "plain mode \<Longrightarrow> dsn_query (migrations_query mode table)"
  using plain_keys plainD [of mode] query_byte_escape [of _ table]
  by (auto simp: dsn_query_def list_all_iff query_byte_def)

subsection \<open>The URL of a configuration\<close>

definition plain_config :: "config \<Rightarrow> bool" where
  "plain_config c =
     (let pg = cfg_Postgres c
      in plain (pc_User pg) \<and> plain (pc_Password pg) \<and> plain (pc_Host pg) \<and> plain (pc_DBName pg) \<and>
         plain (pc_SSLMode pg) \<and> 0 \<le> sint (pc_Port pg))"

lemma itoa_digits: "0 \<le> i \<Longrightarrow> list_all is_digit (itoa i)"
  by (auto simp: itoa_def list_all_iff is_digit_def of_digit_char dest!: nat_digits_set)

definition config_url :: "config \<Rightarrow> string \<Rightarrow> url" where
  "config_url c q =
     (let pg = cfg_Postgres c
      in dsn_url (pc_User pg) (pc_Password pg) (pc_Host pg @ '':'' @ itoa (sint (pc_Port pg))) (''/'' @ pc_DBName pg) q)"

definition config_dsn :: "config \<Rightarrow> string \<Rightarrow> string" where
  "config_dsn c q =
     (let pg = cfg_Postgres c
      in dsn_of (pc_User pg) (pc_Password pg) (pc_Host pg) (itoa (sint (pc_Port pg))) (pc_DBName pg) q)"

lemma PostgresDSN_query: "PostgresDSN c = config_dsn c (''sslmode='' @ pc_SSLMode (cfg_Postgres c))"
  by (simp add: PostgresDSN_def config_dsn_def dsn_of_def Let_def)

lemma config_dsn_append: "config_dsn c (q @ r) = config_dsn c q @ r"
  by (simp add: config_dsn_def dsn_of_def Let_def)

lemma config_url_sel [simp]:
  "u_RawQuery (config_url c q) = q" "(config_url c q)\<lparr>u_RawQuery := q'\<rparr> = config_url c q'"
  "u_User (config_url c q) = Some (pc_User (cfg_Postgres c), Some (pc_Password (cfg_Postgres c)))"
  "u_Host (config_url c q) = pc_Host (cfg_Postgres c) @ '':'' @ itoa (sint (pc_Port (cfg_Postgres c)))"
  "u_Path (config_url c q) = ''/'' @ pc_DBName (cfg_Postgres c)"
  by (simp_all add: config_url_def dsn_url_def empty_url_def Let_def)

lemma config_dsn_parsed:
  assumes "plain_config c" and "dsn_query q"
  shows "url_Parse (config_dsn c q) = Some (config_url c q)" "url_String (config_url c q) = config_dsn c q"
proof -
  have "q \<noteq> []" using assms(2) by (simp add: dsn_query_def)
  with assms show "url_Parse (config_dsn c q) = Some (config_url c q)" "url_String (config_url c q) = config_dsn c q"
    unfolding config_dsn_def config_url_def plain_config_def Let_def
    by (auto intro!: parse_dsn print_dsn itoa_digits simp del: append.simps)
qed

lemma migrations_dsn:
  assumes "plain_config c"
  shows "withMigrationsTable parse_error (PostgresDSN c) table =
    Ok (config_dsn c (migrations_query (pc_SSLMode (cfg_Postgres c)) table))"
proof -
  let ?m = "pc_SSLMode (cfg_Postgres c)"
  have mode: "plain ?m" using assms by (simp add: plain_config_def Let_def)
  have "values_Encode (values_Set migrations_key table (ParseQuery (''sslmode='' @ ?m))) = migrations_query ?m table"
    unfolding ParseQuery_sslmode [OF mode] using Encode_migrations [OF mode, of table] by simp
  then show ?thesis
    using config_dsn_parsed(1) [OF assms dsn_query_sslmode [OF mode]]
      config_dsn_parsed(2) [OF assms dsn_query_migrations [OF mode]]
    by (simp add: withMigrationsTable_def PostgresDSN_query Let_def)
qed


lemma plain_default: "plain_config default_config"
  by (simp add: plain_config_def default_config_def Let_def unreserved_def is_letter_def is_digit_def)


subsection \<open>A run of the migrations\<close>

text \<open>
  What is relied on of the library: the schema that the database at a URL is at, a version with a
  mark of a migration that was cut short, is changed by no call but the two that migrate; \<open>Up\<close>
  that returns no error has brought it to the newest version of the source, \<open>Down\<close> below the
  first one; \<open>ErrNoChange\<close> says that it was there already, \<open>ErrNilVersion\<close> that it is at no version.
\<close>

type_synonym schema_version = "(nat \<times> bool) option"

definition opens_lawfully ::
  "('m, 'w) migrate_lib \<Rightarrow> ('m \<Rightarrow> string \<times> string) \<Rightarrow> (string \<Rightarrow> 'w \<Rightarrow> schema_version) \<Rightarrow> bool"
where
  "opens_lawfully lib urls schema \<longleftrightarrow>
     (\<forall>src d w r w'. mg_New lib src d w = (r, w') \<longrightarrow>
        schema d w' = schema d w \<and> (\<forall>m. r = Ok m \<longrightarrow> urls m = (src, d)))"

definition migrates_lawfully ::
  "go_error \<Rightarrow> ('m \<Rightarrow> string \<times> string) \<Rightarrow> (string \<Rightarrow> 'w \<Rightarrow> schema_version) \<Rightarrow> (string \<Rightarrow> schema_version) \<Rightarrow>
   ('m \<Rightarrow> 'w \<Rightarrow> go_error option \<times> 'w) \<Rightarrow> bool"
where
  "migrates_lawfully no_change urls schema target call \<longleftrightarrow>
     (\<forall>m w e w'. call m w = (e, w') \<longrightarrow>
        (case e of None \<Rightarrow> True | Some e \<Rightarrow> errors_is e no_change) \<longrightarrow>
        schema (snd (urls m)) w' = target (fst (urls m)))"

definition answers_lawfully ::
  "('m, 'w) migrate_lib \<Rightarrow> ('m \<Rightarrow> string \<times> string) \<Rightarrow> (string \<Rightarrow> 'w \<Rightarrow> schema_version) \<Rightarrow> bool"
where
  "answers_lawfully lib urls schema \<longleftrightarrow>
     (\<forall>m w r w'. mg_Version lib m w = (r, w') \<longrightarrow>
        schema (snd (urls m)) w' = schema (snd (urls m)) w \<and>
        (case r of Ok v \<Rightarrow> schema (snd (urls m)) w = Some v
         | Err e \<Rightarrow> errors_is e (mg_ErrNilVersion lib) \<longrightarrow> schema (snd (urls m)) w = None
         | Panic s \<Rightarrow> True))"

definition migrate_laws ::
  "('m, 'w) migrate_lib \<Rightarrow> ('m \<Rightarrow> string \<times> string) \<Rightarrow> (string \<Rightarrow> 'w \<Rightarrow> schema_version) \<Rightarrow> (string \<Rightarrow> nat) \<Rightarrow> bool"
where
  "migrate_laws lib urls schema newest \<longleftrightarrow>
     opens_lawfully lib urls schema \<and> answers_lawfully lib urls schema \<and>
     migrates_lawfully (mg_ErrNoChange lib) urls schema (\<lambda>src. Some (newest src, False)) (mg_Up lib) \<and>
     migrates_lawfully (mg_ErrNoChange lib) urls schema (\<lambda>src. None) (mg_Down lib)"

lemma run_sel [simp]:
  "run_exit (printed s) = 0" "run_stdout (printed s) = [s]" "run_exit (failed_run s) = 1" "run_exit crashed_run = 2"
  by (simp_all add: printed_def failed_run_def crashed_run_def)

definition settled_call :: "go_error \<Rightarrow> go_error option \<Rightarrow> bool" where
  "settled_call no_change e = (case e of None \<Rightarrow> True | Some e \<Rightarrow> errors_is e no_change)"

lemma migrate_step_ok:
  "migrate_step no_change f n s rw = (r, w') \<Longrightarrow> run_exit r = 0 \<Longrightarrow>
     \<exists>e. rw = (e, w') \<and> settled_call no_change e"
  by (auto simp: migrate_step_def settled_call_def split: prod.splits option.splits if_splits)

text \<open>What a run that exits with 0 has done.\<close>

lemma migrator_opened:
  assumes "migrator_main lib fl w = (r, w')" and "run_exit r = 0"
  obtains d m w1 where "withMigrationsTable (mg_parse_error lib) (mf_dsn fl) (mf_table fl) = Ok d"
    and "mg_New lib (''file://'' @ mf_path fl) d w = (Ok m, w1)"
    and "mf_dsn fl \<noteq> []"
  using assms by (auto simp: migrator_main_def split: if_splits outcome.splits prod.splits)

definition goal_of :: "string \<Rightarrow> nat \<Rightarrow> schema_version" where
  "goal_of cmd n = (if cmd = ''up'' then Some (n, False) else None)"

lemma migrate_run:
  assumes "migrate_laws lib urls schema newest" and "mf_command fl \<in> {''up'', ''down''}"
    and "migrator_main lib fl w = (r, w')" and "run_exit r = 0"
  shows "\<exists>d. withMigrationsTable (mg_parse_error lib) (mf_dsn fl) (mf_table fl) = Ok d \<and>
    schema d w' = goal_of (mf_command fl) (newest (''file://'' @ mf_path fl))"
proof -
  obtain d m w1 where new: "withMigrationsTable (mg_parse_error lib) (mf_dsn fl) (mf_table fl) = Ok d"
    "mg_New lib (''file://'' @ mf_path fl) d w = (Ok m, w1)" "mf_dsn fl \<noteq> []"
    using assms(3,4) by (rule migrator_opened)
  have m: "urls m = (''file://'' @ mf_path fl, d)"
    using assms(1) new(2) by (auto simp: migrate_laws_def opens_lawfully_def)
  define call where "call = (if mf_command fl = ''up'' then mg_Up lib else mg_Down lib)"
  have "migrates_lawfully (mg_ErrNoChange lib) urls schema (\<lambda>src. goal_of (mf_command fl) (newest src)) call"
    using assms(1) by (simp add: migrate_laws_def call_def goal_of_def)
  moreover have
    "migrate_step (mg_ErrNoChange lib) ''apply up migrations: '' ''no migrations to apply''
       ''migrations applied successfully'' (call m w1) = (r, w') \<or>
     migrate_step (mg_ErrNoChange lib) ''apply down migrations: '' ''no migrations to rollback''
       ''migrations rolled back successfully'' (call m w1) = (r, w')"
    using assms(2,3) new by (auto simp: migrator_main_def call_def)
  then obtain e where "call m w1 = (e, w')" "settled_call (mg_ErrNoChange lib) e"
    using migrate_step_ok [OF _ assms(4)] by metis
  ultimately have "schema d w' = goal_of (mf_command fl) (newest (''file://'' @ mf_path fl))"
    unfolding migrates_lawfully_def settled_call_def using m by fastforce
  with new(1) show ?thesis by blast
qed

definition version_text :: "schema_version \<Rightarrow> string" where
  "version_text s =
     (case s of None \<Rightarrow> ''no migrations applied yet''
      | Some (v, dirty) \<Rightarrow> ''version='' @ itoa (int v) @ '' dirty='' @ fmt_bool dirty)"

lemma version_run:
  assumes "migrate_laws lib urls schema newest" and "mf_command fl = ''version''"
    and "migrator_main lib fl w = (r, w')" and "run_exit r = 0"
    and "withMigrationsTable (mg_parse_error lib) (mf_dsn fl) (mf_table fl) = Ok d"
  shows "run_stdout r = [version_text (schema d w)]"
proof -
  obtain d' m w1 where new: "withMigrationsTable (mg_parse_error lib) (mf_dsn fl) (mf_table fl) = Ok d'"
    "mg_New lib (''file://'' @ mf_path fl) d' w = (Ok m, w1)" "mf_dsn fl \<noteq> []"
    using assms(3,4) by (rule migrator_opened)
  have m: "urls m = (''file://'' @ mf_path fl, d)" "schema d w1 = schema d w"
    using assms(1) new(1,2) assms(5) by (auto simp: migrate_laws_def opens_lawfully_def)
  obtain q w2 where q: "mg_Version lib m w1 = (q, w2)" by (cases "mg_Version lib m w1")
  have law: "case q of Ok v \<Rightarrow> schema d w1 = Some v
     | Err e \<Rightarrow> errors_is e (mg_ErrNilVersion lib) \<longrightarrow> schema d w1 = None | Panic s \<Rightarrow> True"
    using assms(1) m(1) q unfolding migrate_laws_def answers_lawfully_def by (metis snd_conv)
  show ?thesis
    using assms(2-5) new q law m(2)
    by (auto simp: migrator_main_def version_text_def split: outcome.splits if_splits)
qed

text \<open>An unknown command opens the migrations and fails; the schema stays.\<close>

lemma unknown_command:
  assumes "migrate_laws lib urls schema newest" and "mf_command fl \<notin> {''up'', ''down'', ''version''}"
    and "migrator_main lib fl w = (r, w')"
  shows "run_exit r \<noteq> 0 \<and>
    (\<forall>d. withMigrationsTable (mg_parse_error lib) (mf_dsn fl) (mf_table fl) = Ok d \<longrightarrow> schema d w' = schema d w)"
  using assms
  by (auto simp: migrator_main_def migrate_laws_def opens_lawfully_def split: if_splits outcome.splits prod.splits)

text \<open>
  C23: the exit codes of the migration program can be relied on. Over a library that keeps its
  laws, when a run of \<open>up\<close> has exited with 0 (also when it printed that there was nothing to do)
  the database is at the newest version of the source and clean, and a run of \<open>version\<close> with the
  same flags that exits with 0 prints exactly that; after \<open>down\<close> it is at no version, and
  \<open>version\<close> says so; and any other command than the three exits with an error and leaves the
  schema alone.
\<close>

theorem migrator_commands:
  assumes "migrate_laws lib urls schema newest"
    and "migrator_main lib (fl\<lparr>mf_command := cmd\<rparr>) w = (r1, w1)"
  shows "(cmd \<in> {''up'', ''down''} \<longrightarrow> run_exit r1 = 0 \<longrightarrow>
      (\<exists>d. withMigrationsTable (mg_parse_error lib) (mf_dsn fl) (mf_table fl) = Ok d \<and>
        schema d w1 = (if cmd = ''up'' then Some (newest (''file://'' @ mf_path fl), False) else None)) \<and>
      (\<forall>r2 w2. migrator_main lib (fl\<lparr>mf_command := ''version''\<rparr>) w1 = (r2, w2) \<longrightarrow> run_exit r2 = 0 \<longrightarrow>
        run_stdout r2 =
          [if cmd = ''up'' then ''version='' @ itoa (int (newest (''file://'' @ mf_path fl))) @ '' dirty=false''
           else ''no migrations applied yet''])) \<and>
    (cmd \<notin> {''up'', ''down'', ''version''} \<longrightarrow> run_exit r1 \<noteq> 0 \<and>
      (\<forall>d. withMigrationsTable (mg_parse_error lib) (mf_dsn fl) (mf_table fl) = Ok d \<longrightarrow> schema d w1 = schema d w))"
    (is "(?c \<longrightarrow> ?e \<longrightarrow> ?done \<and> ?says) \<and> (?u \<longrightarrow> ?error)")
proof (intro conjI [of "?c \<longrightarrow> _"] impI)
  assume ?c ?e
  then obtain d where d: "withMigrationsTable (mg_parse_error lib) (mf_dsn fl) (mf_table fl) = Ok d"
    "schema d w1 = goal_of cmd (newest (''file://'' @ mf_path fl))"
    using migrate_run [OF assms(1) _ assms(2)] by auto
  have "run_stdout r2 = [version_text (goal_of cmd (newest (''file://'' @ mf_path fl)))]"
    if "migrator_main lib (fl\<lparr>mf_command := ''version''\<rparr>) w1 = (r2, w2)" "run_exit r2 = 0" for r2 w2
    using version_run [OF assms(1) _ that, of d] d by simp
  then show "?done \<and> ?says"
    using d by (auto simp: goal_of_def version_text_def fmt_bool_def)
next
  assume ?u
  then show ?error
    using unknown_command [OF assms(1) _ assms(2)] by simp
qed

subsection \<open>A library with the laws\<close>

definition ref_migrate :: "(string \<times> string, schema_version) migrate_lib" where
  "ref_migrate =
     \<lparr>mg_New = (\<lambda>src d w. (Ok (src, d), w)),
      mg_Up = (\<lambda>m w. if w = Some (3, False) then (Some (Plain ''no change''), w) else (None, Some (3, False))),
      mg_Down = (\<lambda>m w. if w = None then (Some (Plain ''no change''), w) else (None, None)),
      mg_Version = (\<lambda>m w. case w of None \<Rightarrow> (Err (Plain ''no migration''), w) | Some v \<Rightarrow> (Ok v, w)),
      mg_ErrNoChange = Plain ''no change'', mg_ErrNilVersion = Plain ''no migration'',
      mg_parse_error = Plain\<rparr>"

lemma ref_migrate_laws: "migrate_laws ref_migrate id (\<lambda>d w. w) (\<lambda>src. 3)"
  by (auto simp: migrate_laws_def opens_lawfully_def migrates_lawfully_def answers_lawfully_def ref_migrate_def
      split: if_splits option.splits)

definition default_flags :: migrator_flags where
  "default_flags = \<lparr>mf_dsn = PostgresDSN default_config, mf_path = ''./migrations'',
     mf_table = ''schema_migrations'', mf_command = ''up''\<rparr>"

lemma ref_runs:
  "migrator_main ref_migrate (default_flags\<lparr>mf_command := ''up''\<rparr>) None =
     (printed ''migrations applied successfully'', Some (3, False))"
  "\<exists>r. migrator_main ref_migrate (default_flags\<lparr>mf_command := ''version''\<rparr>) (Some (3, False)) = (r, Some (3, False)) \<and>
     run_exit r = 0"
proof -
  obtain d where d: "withMigrationsTable Plain (PostgresDSN default_config) ''schema_migrations'' = Ok d"
    using migrations_dsn [OF plain_default] by blast
  have "PostgresDSN default_config \<noteq> []" by (simp add: PostgresDSN_def Let_def)
  with d show "migrator_main ref_migrate (default_flags\<lparr>mf_command := ''up''\<rparr>) None =
     (printed ''migrations applied successfully'', Some (3, False))"
    and "\<exists>r. migrator_main ref_migrate (default_flags\<lparr>mf_command := ''version''\<rparr>) (Some (3, False)) = (r, Some (3, False)) \<and>
     run_exit r = 0"
    by (simp_all add: migrator_main_def migrate_step_def ref_migrate_def default_flags_def)
qed

theorem migrator_commands_witness:
  "\<exists>r w. migrator_main ref_migrate (default_flags\<lparr>mf_command := ''version''\<rparr>) (Some (3, False)) = (r, w) \<and>
     run_exit r = 0 \<and> run_stdout r = [''version='' @ itoa 3 @ '' dirty=false'']"
  using migrator_commands [OF ref_migrate_laws ref_runs(1)] ref_runs(2) by auto

end
