(* ===== verification/Backends.thy ===== *)
theory Backends
  imports Pg_Outbox
begin

section \<open>The two repositories compared\<close>

text \<open>
  The PostgreSQL repository is the one that is deployed, the in-memory repository a second
  implementation of the same interface. Over a database in which nothing fails, from the same
  products, they give the same answers and count the same metrics, and hold the same products
  after every request; a creation is answered alike but for the id, which each makes in its own way.
\<close>

subsection \<open>The reference engine without faults\<close>

definition calm_db :: "ref_db \<Rightarrow> bool" where
  "calm_db d \<longleftrightarrow> rd_script d = [] \<and>
     (\<forall>x \<in> set (tb_outbox (rd_committed d)). \<exists>n < rd_uuid d. oID x = ''uuid-'' @ itoa (int n))"

lemma calm_calls:
  assumes "rd_script d = []"
  shows "db_BeginTx ref_engine ctx d = (None, d\<lparr>rd_working := rd_committed d\<rparr>)"
    and "db_Query ref_engine ctx st args d =
      (case ref_run st args (rd_committed d) of
         SqlError m \<Rightarrow> (Err (server_error m), d)
       | SqlRows rows t \<Rightarrow> if t = rd_committed d then (Ok (rows, None), d) else (Err conn_lost, d))"
    and "db_QueryRow ref_engine ctx st args d = ref_row (ref_run st args (rd_committed d)) (\<lambda>t. d) d"
    and "tx_QueryRow ref_engine ctx st args d =
      ref_row (ref_run st args (rd_working d)) (\<lambda>t. d\<lparr>rd_working := t\<rparr>) d"
    and "tx_Exec ref_engine ctx st args d =
      ref_exec (ref_run st args (rd_working d)) (\<lambda>t. d\<lparr>rd_working := t\<rparr>) d"
    and "tx_Commit ref_engine d = (None, d\<lparr>rd_committed := rd_working d\<rparr>)"
  using assms by (simp_all add: ref_engine_def next_fault_def)

lemma ref_sources:
  "tx_Rollback ref_engine d = d\<lparr>rd_working := rd_committed d\<rparr>"
  "uuid_New ref_engine d = (''uuid-'' @ itoa (int (rd_uuid d)), d\<lparr>rd_uuid := rd_uuid d + 1\<rparr>)"
  "time_Now ref_engine d = (\<lparr>year = 2026, rfc3339 = ''2026-01-01T00:00:00Z''\<rparr>, d)"
  by (simp_all add: ref_engine_def)

text \<open>A write whose statement has returned a row ends with it, and its products are committed.\<close>

lemma calm_finish:
  assumes "calm_db d" and "d1 = d\<lparr>rd_working := (rd_committed d)\<lparr>tb_products := ps\<rparr>\<rparr>"
  shows "\<exists>d'. pg_finish ref_engine ctx classify ty what (Ok (product_row p), d1) = (Ok p, [], d') \<and>
    calm_db d' \<and> tb_products (rd_committed d') = ps"
proof -
  let ?i = "''uuid-'' @ itoa (int (rd_uuid d))"
  have script: "rd_script d = []" and fresh: "?i \<notin> oID ` set (tb_outbox (rd_committed d))"
    using assms(1) by (auto simp: calm_db_def)
  obtain payload where payload: "marshal_event (event_of ty p ?i \<lparr>year = 2026, rfc3339 = ''2026-01-01T00:00:00Z''\<rparr>) = Ok payload"
    by (simp add: marshal_event_def event_of_def)
  define x where "x = \<lparr>oID = ?i, oTopic = ''catalog.products.v1'', oKey = ID p, oType = ty,
    oPayload = payload, oStatus = ''pending'', oAttempts = 0, oLastError = None\<rparr>"
  define t where "t = \<lparr>tb_products = ps, tb_outbox = tb_outbox (rd_committed d) @ [x]\<rparr>"
  have ins: "insertOutboxEvent ref_engine ctx ty p d1 =
      (None, d\<lparr>rd_working := t, rd_uuid := rd_uuid d + 1\<rparr>)"
    using assms(2) script fresh payload
    by (simp add: insertOutboxEvent_def ref_sources calm_calls outbox_exec ref_exec_def t_def x_def)
  have "pg_finish ref_engine ctx classify ty what (Ok (product_row p), d1) =
      (Ok p, [], d\<lparr>rd_committed := t, rd_working := t, rd_uuid := rd_uuid d + 1\<rparr>)"
    using script by (simp add: pg_finish_def ins calm_calls ref_sources)
  moreover have "calm_db (d\<lparr>rd_committed := t, rd_working := t, rd_uuid := rd_uuid d + 1\<rparr>)"
    using assms(1) by (auto simp: calm_db_def t_def x_def intro: less_SucI)
  ultimately show ?thesis by (auto simp: t_def)
qed

lemma calm_finish_err:
  "calm_db d \<Longrightarrow> \<exists>d'. pg_finish ref_engine ctx classify ty what (Err e, d\<lparr>rd_working := t\<rparr>) = (Err (classify e), [], d') \<and>
     calm_db d' \<and> rd_committed d' = rd_committed d"
  by (simp add: pg_finish_def ref_sources calm_db_def)

subsection \<open>The operations\<close>

definition agree :: "in_memory \<Rightarrow> ref_db \<Rightarrow> bool" where
  "agree r d \<longleftrightarrow> im_inv r \<and> calm_db d \<and> products r = tb_products (rd_committed d) \<and>
     sorted (map (\<lambda>p. map byte (ID p)) (products r)) \<and>
     (\<forall>i \<in> set (map ID (products r)). take 5 i \<noteq> ''uuid-'')"

lemma agreeD:
  assumes "agree r d"
  shows "im_inv r" and "calm_db d" and "rd_script d = []" and "tb_products (rd_committed d) = products r"
    and "ref_by_id (products r) = products r" and "byID r = index_by_id (products r)"
    and "distinct (map ID (products r))"
proof -
  show inv: "im_inv r" and "calm_db d" and "tb_products (rd_committed d) = products r"
    using assms by (simp_all add: agree_def)
  have "sorted (map (\<lambda>p. map byte (ID p)) (products r))" using assms unfolding agree_def by blast
  then show "ref_by_id (products r) = products r"
    unfolding ref_by_id_def by (rule sort_key_id_if_sorted)
  show "rd_script d = []" using assms by (simp add: agree_def calm_db_def)
  show "byID r = index_by_id (products r)" "distinct (map ID (products r))"
    by (rule im_invD [OF inv])+
qed

lemma agree_store:
  assumes "agree r d" and "calm_db d'" and "tb_products (rd_committed d') = products (im_store p r)"
    and "im_inv (im_store p r)"
  shows "agree (im_store p r) d'"
proof -
  have ids: "map (\<lambda>p. map byte (ID p)) ps = map (map byte) (map ID ps)" for ps
    by simp
  have stored: "map ID (products (im_store p r)) = map ID (products r)"
    by (simp add: im_store_def)
  show ?thesis
    using assms(1) assms(2-4) unfolding agree_def ids by (elim conjE) (simp only: stored simp_thms)
qed

lemma List_agrees:
  assumes "agree r d" and "page_args l off"
  shows "pg_List ref_engine ctx l off d = (Ok (page l off (products r)), [], d)"
proof -
  have "make_ok l" "0 \<le> sint l" "0 \<le> sint off"
    using assms(2) by (auto simp: make_ok_def page_args_def)
  then show ?thesis
    by (simp add: pg_List_def calm_calls agreeD [OF assms(1)] page_exec)
qed

lemma GetByID_agrees:
  assumes "agree r d"
  shows "pg_GetByID ref_engine ctx i d =
    (case byID r i of None \<Rightarrow> Err ErrProductNotFound | Some p \<Rightarrow> Ok p, [], d)"
  by (simp add: pg_GetByID_def calm_calls agreeD [OF assms] by_id_exec filter_id_unique ref_row_def
      del: index_by_id_None split: option.split)

lemma Update_agrees:
  assumes "agree r d" and "update_validate u = None"
  shows "\<exists>a r' d'. im_Update None u r = (a, [], r') \<and> pg_Update ref_engine None u d = (a, [], d') \<and> agree r' d'"
proof -
  note facts = agreeD [OF assms(1)]
  obtain st args where q: "update_query u = (st, args)" by force
  have beg: "pg_Update ref_engine None u d = pg_finish ref_engine None update_error EventProductUpdated ''update product''
      (ref_row (ref_run st args (rd_committed d)) (\<lambda>t. d\<lparr>rd_working := t\<rparr>) (d\<lparr>rd_working := rd_committed d\<rparr>))"
    using facts(3) by (simp add: pg_Update_def q calm_calls)
  show ?thesis
  proof (cases "byID r (uID u)")
    case None
    then have "ref_run st args (rd_committed d) = SqlRows [] (rd_committed d)"
      using facts by (simp add: update_exec [OF q] del: index_by_id_None)
    then obtain d' where "pg_Update ref_engine None u d = (Err (update_error SqlErrNoRows), [], d')"
      "calm_db d'" "rd_committed d' = rd_committed d"
      using calm_finish_err [OF facts(2)] unfolding beg by (simp add: ref_row_def) metis
    with None assms(1) show ?thesis
      by (auto simp: im_Update_def update_error_def agree_def)
  next
    case (Some p)
    let ?p = "apply_update u p"
    have p: "p \<in> set (products r)" "ID p = uID u" "product_wf p" using im_lookup [OF facts(1) Some] by auto
    then have wf: "product_wf ?p" using assms(2) by (simp add: apply_update_wf)
    then have "check_constraints ?p = None" by (auto simp: check_constraints_None product_wf_iff)
    then have "ref_run st args (rd_committed d) =
        SqlRows [product_row ?p] ((rd_committed d)\<lparr>tb_products := replace_first ?p (products r)\<rparr>)"
      using facts Some by (simp add: update_exec [OF q] del: index_by_id_None)
    then obtain d' where "pg_Update ref_engine None u d = (Ok ?p, [], d')" "calm_db d'"
      "tb_products (rd_committed d') = replace_first ?p (products r)"
      using calm_finish [OF facts(2) refl] unfolding beg by (simp add: ref_row_def) metis
    moreover have "im_inv (im_store ?p r)" by (rule im_inv_store [OF facts(1) p(1) _ _ wf]) simp_all
    moreover have "im_Update None u r = (Ok ?p, [], im_store ?p r)"
      by (simp add: im_Update_def Some Let_def)
    moreover have "products (im_store ?p r) = replace_first ?p (products r)" by (simp add: im_store_def)
    ultimately show ?thesis
      using agree_store [OF assms(1)] by metis
  qed
qed

abbreviation stock_overflow :: go_error where
  "stock_overflow \<equiv> server_error ''integer out of range''"

lemma stock_error_texts:
  "stock_error (server_error ''integer out of range'') = server_error ''integer out of range''"
  "stock_error (server_error ''new row for relation products violates check constraint products_stock_check'') =
     ErrInsufficientStock"
  "stock_error SqlErrNoRows = ErrProductNotFound"
proof -
  have "\<not> contains ''ERROR: integer out of range'' ''check''" "\<not> contains ''ERROR: integer out of range'' ''stock''"
    "contains ''ERROR: new row for relation products violates check constraint products_stock_check'' ''stock''"
    by code_simp+
  then show "stock_error (server_error ''integer out of range'') = server_error ''integer out of range''"
    "stock_error (server_error ''new row for relation products violates check constraint products_stock_check'') =
     ErrInsufficientStock" "stock_error SqlErrNoRows = ErrProductNotFound"
    by (simp_all add: stock_error_def server_error_def)
qed

lemma UpdateStock_agrees:
  assumes "agree r d"
  shows "\<exists>a r' a' d'. im_UpdateStock None i dl r = (a, [], r') \<and>
    pg_UpdateStock ref_engine None i dl d = (a', [], d') \<and> (a' = a \<and> agree r' d' \<or> a' = Err stock_overflow \<and> 0 < sint dl)"
proof -
  note facts = agreeD [OF assms]
  let ?args = "[SInt (sint dl), SText i]"
  have beg: "pg_UpdateStock ref_engine None i dl d = pg_finish ref_engine None stock_error EventStockChanged ''update stock''
      (ref_row (ref_run stock_query ?args (rd_committed d)) (\<lambda>t. d\<lparr>rd_working := t\<rparr>) (d\<lparr>rd_working := rd_committed d\<rparr>))"
    using facts(3) by (simp add: pg_UpdateStock_def calm_calls)
  have fails: "\<exists>d'. pg_UpdateStock ref_engine None i dl d = (Err (stock_error e), [], d') \<and> agree r d'"
    if "ref_row (ref_run stock_query ?args (rd_committed d)) (\<lambda>t. d\<lparr>rd_working := t\<rparr>) (d\<lparr>rd_working := rd_committed d\<rparr>) =
      (Err e, d\<lparr>rd_working := rd_committed d\<rparr>)" for e
    using calm_finish_err [OF facts(2)] assms unfolding beg that agree_def by metis
  obtain a ms r' where im: "im_UpdateStock None i dl r = (a, ms, r')" by (metis prod_cases3)
  note run = stock_exec [of ref_by_id "\<lambda>rs. rs" dl i "rd_committed d", unfolded facts(4)]
  have ms: "ms = []" using im_UpdateStock_result [OF im] by (rule conjunct1)
  from conjunct2 [OF im_UpdateStock_result [OF im]] show ?thesis
  proof (elim disjE exE conjE)
    assume none: "a = Err ErrProductNotFound" "r' = r" "byID r i = None"
    then have "index_by_id (products r) i = None" using facts(6) by simp
    with fails [of SqlErrNoRows] im none ms show ?thesis
      by (auto simp: run ref_row_def stock_error_texts simp del: index_by_id_None)
  next
    fix q :: product
    assume less: "byID r i = Some q" "Stock q + dl <s 0" "a = Err ErrInsufficientStock" "r' = r"
    have q: "index_by_id (products r) i = Some q" "product_wf q"
      using im_lookup [OF facts(1) less(1)] facts(6) less(1) by auto
    show ?thesis
    proof (cases "sint (Stock q) + sint dl < 2 ^ 31")
      case True
      have "check_constraints (q\<lparr>Stock := Stock q + dl\<rparr>) =
          Some ''new row for relation products violates check constraint products_stock_check''"
        using q(2) less(2) by (simp add: check_constraints_def product_wf_iff word_sless_alt)
      then have "ref_run stock_query ?args (rd_committed d) =
          SqlError ''new row for relation products violates check constraint products_stock_check''"
        using q True int32_range [of dl] by (simp add: run Let_def sint_sum_word product_wf_iff)
      from fails [of "server_error ''new row for relation products violates check constraint products_stock_check''"]
        this im less ms show ?thesis by (auto simp: ref_row_def stock_error_texts)
    next
      case False
      then have "ref_run stock_query ?args (rd_committed d) = SqlError ''integer out of range''"
        using q by (simp add: run Let_def)
      moreover have "0 < sint dl" using False int32_range [of "Stock q"] by linarith
      ultimately show ?thesis
        using fails [of stock_overflow] im ms by (auto simp: ref_row_def stock_error_texts)
    qed
  next
    fix q p :: product
    let ?p = "q\<lparr>Stock := Stock q + dl\<rparr>"
    assume moved: "byID r i = Some q" "\<not> Stock q + dl <s 0" and p: "p = ?p" and res: "a = Ok p" "r' = im_store p r"
    have q: "index_by_id (products r) i = Some q" "product_wf q"
      using im_lookup [OF facts(1) moved(1)] facts(6) moved(1) by auto
    have range: "0 \<le> sint (Stock q) + sint dl" "sint (Stock q) + sint dl < 2 ^ 31"
      using moved(2) add_int32_nonneg_iff [of "Stock q" dl] q(2) by (auto simp: product_wf_iff)
    have "check_constraints ?p = None"
      using q(2) moved(2) by (simp add: check_constraints_None product_wf_iff word_sless_alt)
    then have "ref_run stock_query ?args (rd_committed d) =
        SqlRows [product_row ?p] ((rd_committed d)\<lparr>tb_products := replace_first ?p (products r)\<rparr>)"
      using q range by (simp add: run Let_def sint_sum_word)
    then obtain d' where "pg_UpdateStock ref_engine None i dl d = (Ok ?p, [], d')" "calm_db d'"
      "tb_products (rd_committed d') = replace_first ?p (products r)"
      using calm_finish [OF facts(2) refl] unfolding beg by (simp add: ref_row_def) metis
    moreover have "im_inv r'" by (rule im_inv_UpdateStock [OF facts(1) im])
    moreover have "products (im_store ?p r) = replace_first ?p (products r)" by (simp add: im_store_def)
    ultimately show ?thesis
      using agree_store [OF assms] im p res ms by metis
  qed
qed

lemma create_error_texts:
  "create_error (server_error ''duplicate key value violates unique constraint products_sku_key'') = ErrProductAlreadyExists"
proof -
  have "contains ''ERROR: duplicate key value violates unique constraint products_sku_key'' ''unique''" by code_simp
  then show ?thesis by (simp add: create_error_def server_error_def)
qed

lemma Create_run:
  fixes r d c
  defines "p \<equiv> product_of_create (''uuid-'' @ itoa (int (rd_uuid d))) c"
  assumes "agree r d" and valid: "create_validate c = None"
  shows "pg_Create ref_engine None c d =
    pg_finish ref_engine None create_error EventProductCreated ''create product''
      (if cSKU c \<in> SKU ` set (products r)
       then (Err (server_error ''duplicate key value violates unique constraint products_sku_key''),
             d\<lparr>rd_uuid := rd_uuid d + 1, rd_working := rd_committed d\<rparr>)
       else (Ok (product_row p), d\<lparr>rd_uuid := rd_uuid d + 1,
               rd_working := (rd_committed d)\<lparr>tb_products := products r @ [p]\<rparr>\<rparr>))"
proof -
  note facts = agreeD [OF assms(2)]
  have "product_wf p" unfolding p_def by (rule product_of_create_wf [OF valid]) simp
  then have check: "check_constraints p = None" by (simp add: check_constraints_None product_wf_iff)
  have fresh: "ID p \<notin> ID ` set (products r)"
  proof
    assume "ID p \<in> ID ` set (products r)"
    moreover have "\<forall>i \<in> ID ` set (products r). take 5 i \<noteq> ''uuid-''" using assms(2) by (simp add: agree_def)
    ultimately have "take 5 (ID p) \<noteq> ''uuid-''" by blast
    then show False by (simp add: p_def product_of_create_def)
  qed
  let ?args = "[SText (ID p), SText (cSKU c), SText (cName c), SText (cDescription c),
      SInt (sint (cPriceCents c)), SText (cCurrency c), SInt (sint (cStock c))]"
  let ?d = "d\<lparr>rd_uuid := rd_uuid d + 1, rd_working := rd_committed d\<rparr>"
  have "ref_run InsertProduct ?args (rd_committed d) =
      (if cSKU c \<in> SKU ` set (products r)
       then SqlError ''duplicate key value violates unique constraint products_sku_key''
       else SqlRows [product_row p] ((rd_committed d)\<lparr>tb_products := products r @ [p]\<rparr>))"
    using check fresh facts(4)
    by (simp add: insert_exec Let_def unique_constraints_def p_def product_of_create_def)
  then have row: "tx_QueryRow ref_engine None InsertProduct ?args ?d =
      (if cSKU c \<in> SKU ` set (products r)
       then (Err (server_error ''duplicate key value violates unique constraint products_sku_key''), ?d)
       else (Ok (product_row p), ?d\<lparr>rd_working := (rd_committed d)\<lparr>tb_products := products r @ [p]\<rparr>\<rparr>))"
    using facts(3) by (simp add: calm_calls ref_row_def)
  have "uuid_New ref_engine (d\<lparr>rd_working := rd_committed d\<rparr>) = (ID p, ?d)"
    by (simp add: ref_sources p_def product_of_create_def)
  then show ?thesis
    using row by (simp add: pg_Create_def calm_calls facts(3))
qed

lemma Create_agrees:
  assumes "agree r d" and valid: "create_validate c = None"
  shows "\<exists>a r' a' d'. im_Create None c r = (a, [], r') \<and> pg_Create ref_engine None c d = (a', [], d') \<and>
    (a = Err ErrProductAlreadyExists \<and> a' = a \<or> (\<exists>p i. a = Ok p \<and> a' = Ok (p\<lparr>ID := i\<rparr>)))"
proof -
  let ?i = "''uuid-'' @ itoa (int (rd_uuid d))"
  let ?d = "d\<lparr>rd_uuid := rd_uuid d + 1\<rparr>"
  note run = Create_run [OF assms]
  have calm: "calm_db ?d" using agreeD(2) [OF assms(1)] by (auto simp: calm_db_def intro: less_SucI)
  show ?thesis
  proof (cases "cSKU c \<in> SKU ` set (products r)")
    case True
    then have "im_Create None c r = (Err ErrProductAlreadyExists, [], r)" by (simp add: im_Create_def)
    moreover obtain d' where "pg_Create ref_engine None c d = (Err ErrProductAlreadyExists, [], d')"
      using calm_finish_err [OF calm, of None create_error EventProductCreated "''create product''"
          "server_error ''duplicate key value violates unique constraint products_sku_key''" "rd_committed d"] True
      unfolding run by (auto simp: create_error_texts)
    ultimately show ?thesis by blast
  next
    case False
    let ?p = "product_of_create ?i c" and ?q = "product_of_create (prod_id (length (products r) + 1)) c"
    have "im_Create None c r = (Ok ?q, [], im_append ?q r)"
      using False by (simp add: im_Create_def Let_def product_of_create_def)
    moreover obtain d' where "pg_Create ref_engine None c d = (Ok ?p, [], d')"
      using calm_finish [OF calm refl, of None create_error EventProductCreated "''create product''" ?p "products r @ [?p]"]
        False unfolding run by auto
    moreover have "?p = ?q\<lparr>ID := ?i\<rparr>" by (simp add: product_of_create_def)
    ultimately show ?thesis by blast
  qed
qed

subsection \<open>Requests and histories\<close>

fun is_creation :: "request \<Rightarrow> bool" where
  "is_creation (ReqCreate c) = True"
| "is_creation _ = False"

text \<open>Two answers that differ in the id of a product only.\<close>

definition same_but_id :: "response \<Rightarrow> response \<Rightarrow> bool" where
  "same_but_id a a' \<longleftrightarrow> a' = a \<or> (\<exists>p i. a = One (Ok p) \<and> a' = One (Ok (p\<lparr>ID := i\<rparr>)))"

text \<open>A request that is not canceled and creates nothing.\<close>

definition comparable :: "context_err \<times> request \<Rightarrow> bool" where
  "comparable q \<longleftrightarrow> fst q = None \<and> offset_in_range (snd q) \<and> \<not> is_creation (snd q)"

lemma step_agrees:
  assumes "agree r d" and "comparable q"
    and im: "svc_step (service_of in_memory_repo) q r = (a, ms, r')"
    and pg: "svc_step (service_of (pg_repo ref_engine)) q d = (a', ms', d')"
  shows "a' = a \<and> ms' = ms \<and> agree r' d' \<or> a' = One (Err stock_overflow)"
proof (cases q)
  case (Pair ctx req)
  with assms(2) have q: "q = (None, req)" by (simp add: comparable_def)
  show ?thesis
  proof (cases req)
    case (ReqList l off)
    show ?thesis
    proof (cases "off <s 0")
      case False
      then have "page_args (effective_limit l) off"
        using assms(2) q ReqList by (intro page_args_effective) (auto simp: comparable_def word_sless_alt)
      with im pg q ReqList False assms(1) show ?thesis
        by (auto simp: ListProducts_def with_duration_def Let_def im_List_page List_agrees)
    qed (use im pg q ReqList assms(1) in \<open>auto simp: ListProducts_def with_duration_def\<close>)
  next
    case (ReqGet i)
    with im pg q assms(1) show ?thesis
      by (auto simp: GetProduct_def with_duration_def im_GetByID_def GetByID_agrees split: option.splits if_splits)
  next
    case (ReqCreate c)
    with q assms(2) show ?thesis by (simp add: comparable_def)
  next
    case (ReqUpdate u)
    show ?thesis
    proof (cases "update_validate u")
      case None
      from Update_agrees [OF assms(1) None] im pg q ReqUpdate None show ?thesis
        by (auto simp: UpdateProduct_def with_duration_def with_repository_service_of split: outcome.splits)
    qed (use im pg q ReqUpdate assms(1) in \<open>auto simp: UpdateProduct_def with_duration_def\<close>)
  next
    case (ReqStock i dl)
    show ?thesis
    proof (cases "blank i \<or> dl = 0")
      case False
      from UpdateStock_agrees [OF assms(1), of i dl] im pg q ReqStock False show ?thesis
        by (auto simp: UpdateStock_def with_duration_def with_repository_service_of split: outcome.splits)
    qed (use im pg q ReqStock assms(1) in \<open>auto simp: UpdateStock_def with_duration_def split: if_splits\<close>)
  qed
qed

lemma create_step_agrees:
  assumes "agree r d"
    and im: "svc_step (service_of in_memory_repo) (None, ReqCreate c) r = (a, ms, r')"
    and pg: "svc_step (service_of (pg_repo ref_engine)) (None, ReqCreate c) d = (a', ms', d')"
  shows "same_but_id a a' \<and> ms' = ms"
proof (cases "create_validate c")
  case None
  from Create_agrees [OF assms(1) None] obtain x r1 x' d1 where
    *: "im_Create None c r = (x, [], r1)" "pg_Create ref_engine None c d = (x', [], d1)"
      "x = Err ErrProductAlreadyExists \<and> x' = x \<or> (\<exists>p i. x = Ok p \<and> x' = Ok (p\<lparr>ID := i\<rparr>))" by blast
  then have "a = One x" "a' = One x'" "ms' = ms"
    using im pg None by (auto simp: CreateProduct_def with_duration_def with_repository_service_of split: outcome.splits)
  with *(3) show ?thesis by (auto simp: same_but_id_def)
qed (use im pg in \<open>auto simp: CreateProduct_def with_duration_def same_but_id_def\<close>)


text \<open>
  The rows that the migration inserts are the default products of the in-memory repository, in the
  order of their ids, so a freshly migrated database and a fresh in-memory repository agree.
\<close>

lemma agree_default: "agree im_default (ref_default [])"
  using im_inv_default by (simp add: agree_def calm_db_def ref_default_def defaultProducts_def byte_def)

text \<open>Only an addition to the stock overflows.\<close>

lemma overflow_step:
  assumes "agree r d" and "comparable q"
    and pg: "svc_step (service_of (pg_repo ref_engine)) q d = (One (Err stock_overflow), ms', d')"
  shows "\<exists>i dl. snd q = ReqStock i dl \<and> 0 < sint dl"
proof (cases q)
  case (Pair ctx req)
  with assms(2) have q: "q = (None, req)" by (simp add: comparable_def)
  show ?thesis
  proof (cases req)
    case (ReqGet i)
    with pg q assms(1) show ?thesis
      by (auto simp: GetProduct_def with_duration_def GetByID_agrees server_error_def split: option.splits if_splits)
  next
    case (ReqUpdate u)
    show ?thesis
    proof (cases "update_validate u")
      case None
      from Update_agrees [OF assms(1) None] obtain a r' d1 where
        *: "im_Update None u r = (a, [], r')" "pg_Update ref_engine None u d = (a, [], d1)" by blast
      from im_Update_result [OF *(1)] *(2) pg q ReqUpdate None show ?thesis
        by (auto simp: UpdateProduct_def with_duration_def with_repository_service_of server_error_def)
    next
      case (Some e)
      then have "e \<noteq> stock_overflow"
        by (auto simp: update_validate_def server_error_def split: if_splits option.splits)
      with Some pg q ReqUpdate show ?thesis by (auto simp: UpdateProduct_def with_duration_def)
    qed
  next
    case (ReqStock i dl)
    show ?thesis
    proof (cases "blank i \<or> dl = 0")
      case False
      from UpdateStock_agrees [OF assms(1), of i dl] obtain a r' a' d1 where
        *: "im_UpdateStock None i dl r = (a, [], r')" "pg_UpdateStock ref_engine None i dl d = (a', [], d1)"
          "a' = a \<or> 0 < sint dl" by blast
      from im_UpdateStock_result [OF *(1)] *(2,3) pg q ReqStock False show ?thesis
        by (auto simp: UpdateStock_def with_duration_def with_repository_service_of server_error_def)
    qed (use pg q ReqStock in \<open>auto simp: UpdateStock_def with_duration_def server_error_def split: if_splits\<close>)
  qed (use pg q assms(2) in \<open>auto simp: comparable_def split: prod.splits\<close>)
qed

lemma no_overflow:
  assumes "agree r d" and "list_all comparable qs"
    and "list_all (\<lambda>q. \<forall>i dl. snd q = ReqStock i dl \<longrightarrow> \<not> 0 < sint dl) qs"
    and "svc_run (service_of (pg_repo ref_engine)) qs d = (h', ms', d')"
  shows "One (Err stock_overflow) \<notin> snd ` set h'"
  using assms
proof (induction qs arbitrary: r d h' ms')
  case (Cons q qs)
  obtain a m1 r1 where im: "svc_step (service_of in_memory_repo) q r = (a, m1, r1)" by (metis prod_cases3)
  obtain a' m1' d1 where pg: "svc_step (service_of (pg_repo ref_engine)) q d = (a', m1', d1)" by (metis prod_cases3)
  obtain h2 m2 where pg2: "svc_run (service_of (pg_repo ref_engine)) qs d1 = (h2, m2, d')" "h' = (snd q, a') # h2"
    using Cons.prems(4) pg by (auto split: prod.splits)
  have q: "comparable q" and a': "a' \<noteq> One (Err stock_overflow)"
    using overflow_step [OF Cons.prems(1), of q m1' d1] Cons.prems(2,3) pg by auto
  then have "agree r1 d1" using step_agrees [OF Cons.prems(1) q im pg] by blast
  with Cons.IH [OF this _ _ pg2(1)] Cons.prems(2,3) a' pg2(2) show ?case by auto
qed simp

text \<open>A sale, a sale that is too large, and reads.\<close>

definition some_requests :: "(context_err \<times> request) list" where
  "some_requests = [(None, ReqStock ''prod-001'' (- 2)), (None, ReqStock ''prod-004'' (- 13)),
     (None, ReqGet ''prod-001''), (None, ReqList 2 1), (None, ReqGet ''prod-009'')]"

definition new_scarf :: create_cmd where
  "new_scarf = \<lparr>cSKU = ''SKU-SCARF-001'', cName = ''Scarf'', cDescription = [], cPriceCents = 900,
     cCurrency = ''EUR'', cStock = 3\<rparr>"


end
