(* ===== verification/Migrations.thy ===== *)
theory Migrations
  imports Backends
begin

section \<open>The migrations\<close>

text \<open>
  The six files of \<open>migrations/\<close>, statement by statement, and what they do to a database of which
  only the two tables and the index of the program are of interest. A file is sent to the server
  as one command, so it is applied as a whole or not at all.
\<close>

subsection \<open>A database and its definition statements\<close>

record database =
  db_products :: "product list option"
  db_outbox :: "outbox_row list option"
  db_pending_index :: bool

datatype ddl_stmt =
    CreateProducts
  | DropProducts
  | SeedProducts "product list"
  | DeleteProducts "string list"
  | CreateOutbox
  | CreatePendingIndex
  | DropPendingIndex
  | DropOutbox

text \<open>An \<open>INSERT\<close> of several rows: each row is checked against those before it.\<close>

fun insert_rows :: "product list \<Rightarrow> product list \<Rightarrow> (string, product list) outcome" where
  "insert_rows [] ps = Ok ps"
| "insert_rows (p # rows) ps =
     (case check_constraints p of
        Some m \<Rightarrow> Err m
      | None \<Rightarrow>
          (case unique_constraints p ps of
             Some m \<Rightarrow> Err m
           | None \<Rightarrow> insert_rows rows (ps @ [p])))"

fun exec_ddl :: "ddl_stmt \<Rightarrow> database \<Rightarrow> (string, database) outcome" where
  "exec_ddl CreateProducts d =
     (case db_products d of
        Some ps \<Rightarrow> Err ''relation products already exists''
      | None \<Rightarrow> Ok (d\<lparr>db_products := Some []\<rparr>))"
| "exec_ddl DropProducts d = Ok (d\<lparr>db_products := None\<rparr>)"
| "exec_ddl (SeedProducts rows) d =
     (case db_products d of
        None \<Rightarrow> Err ''relation products does not exist''
      | Some ps \<Rightarrow>
          (case insert_rows rows ps of
             Ok ps' \<Rightarrow> Ok (d\<lparr>db_products := Some ps'\<rparr>)
           | Err m \<Rightarrow> Err m
           | Panic m \<Rightarrow> Panic m))"
| "exec_ddl (DeleteProducts ids) d =
     (case db_products d of
        None \<Rightarrow> Err ''relation products does not exist''
      | Some ps \<Rightarrow> Ok (d\<lparr>db_products := Some (filter (\<lambda>p. ID p \<notin> set ids) ps)\<rparr>))"
| "exec_ddl CreateOutbox d =
     (case db_outbox d of
        Some rs \<Rightarrow> Err ''relation outbox_events already exists''
      | None \<Rightarrow> Ok (d\<lparr>db_outbox := Some []\<rparr>))"
| "exec_ddl CreatePendingIndex d =
     (case db_outbox d of
        None \<Rightarrow> Err ''relation outbox_events does not exist''
      | Some rs \<Rightarrow>
          if db_pending_index d then Err ''relation idx_outbox_events_pending already exists''
          else Ok (d\<lparr>db_pending_index := True\<rparr>))"
| "exec_ddl DropPendingIndex d = Ok (d\<lparr>db_pending_index := False\<rparr>)"
| "exec_ddl DropOutbox d =
     (case db_outbox d of
        None \<Rightarrow> Ok d
      | Some rs \<Rightarrow> Ok (d\<lparr>db_outbox := None, db_pending_index := False\<rparr>))"

fun run_file :: "ddl_stmt list \<Rightarrow> database \<Rightarrow> (string, database) outcome" where
  "run_file [] d = Ok d"
| "run_file (s # ss) d = (case exec_ddl s d of Ok d' \<Rightarrow> run_file ss d' | r \<Rightarrow> r)"

fun run_files :: "ddl_stmt list list \<Rightarrow> database \<Rightarrow> (string, database) outcome" where
  "run_files [] d = Ok d"
| "run_files (f # fs) d = (case run_file f d of Ok d' \<Rightarrow> run_files fs d' | r \<Rightarrow> r)"

subsection \<open>The files\<close>

definition seed_products :: "product list" where
  "seed_products =
    [\<lparr>ID = ''prod-001'', SKU = ''SKU-TSHIRT-001'', Name = ''Go T-Shirt'',
      Description = ''Soft cotton t-shirt with Go gopher print'',
      PriceCents = 2499, Currency = ''USD'', Stock = 42, Active = True\<rparr>,
     \<lparr>ID = ''prod-002'', SKU = ''SKU-MUG-001'', Name = ''Observability Mug'',
      Description = ''Ceramic mug for logs, metrics and traces discussions'',
      PriceCents = 1599, Currency = ''USD'', Stock = 30, Active = True\<rparr>,
     \<lparr>ID = ''prod-003'', SKU = ''SKU-STICKER-001'', Name = ''Telemetry Stickers Pack'',
      Description = ''Stickers pack with Kafka, Prometheus and Jaeger themes'',
      PriceCents = 799, Currency = ''USD'', Stock = 120, Active = True\<rparr>,
     \<lparr>ID = ''prod-004'', SKU = ''SKU-HOODIE-001'', Name = ''SRE Hoodie'',
      Description = ''Warm hoodie for incident response nights'',
      PriceCents = 5999, Currency = ''USD'', Stock = 12, Active = True\<rparr>,
     \<lparr>ID = ''prod-005'', SKU = ''SKU-NOTEBOOK-001'', Name = ''Runbook Notebook'',
      Description = ''Notebook for runbooks, postmortems and debug notes'',
      PriceCents = 1299, Currency = ''USD'', Stock = 55, Active = True\<rparr>]"

definition products_up :: "ddl_stmt list" where
  "products_up = [CreateProducts]"

definition products_down :: "ddl_stmt list" where
  "products_down = [DropProducts]"

definition seed_up :: "ddl_stmt list" where
  "seed_up = [SeedProducts seed_products]"

definition seed_down :: "ddl_stmt list" where
  "seed_down = [DeleteProducts [''prod-001'', ''prod-002'', ''prod-003'', ''prod-004'', ''prod-005'']]"

definition outbox_up :: "ddl_stmt list" where
  "outbox_up = [CreateOutbox, CreatePendingIndex]"

definition outbox_down :: "ddl_stmt list" where
  "outbox_down = [DropPendingIndex, DropOutbox]"

text \<open>The versions in order, each with its two files.\<close>

definition migrations :: "(ddl_stmt list \<times> ddl_stmt list) list" where
  "migrations = [(products_up, products_down), (seed_up, seed_down), (outbox_up, outbox_down)]"

definition no_tables :: database where
  "no_tables = \<lparr>db_products = None, db_outbox = None, db_pending_index = False\<rparr>"

text \<open>A database at the newest version, with these rows.\<close>

definition migrated :: "tables \<Rightarrow> database" where
  "migrated t = \<lparr>db_products = Some (tb_products t), db_outbox = Some (tb_outbox t), db_pending_index = True\<rparr>"

subsection \<open>What the files do\<close>

lemma insert_rows_Ok:
  "insert_rows rows ps = Ok ps' \<Longrightarrow> ps' = ps @ rows \<and> (\<forall>p \<in> set rows. ID p \<notin> ID ` set ps)"
proof (induction rows ps rule: insert_rows.induct)
  case (2 p rows ps)
  then have u: "unique_constraints p ps = None" and "insert_rows rows (ps @ [p]) = Ok ps'"
    and c: "check_constraints p = None" by (simp_all split: option.splits)
  with 2(1) [OF c u] have rest: "ps' = (ps @ [p]) @ rows" "\<forall>q \<in> set rows. ID q \<notin> ID ` set (ps @ [p])" by blast+
  from u have "ID p \<notin> ID ` set ps" by (simp add: unique_constraints_def split: if_splits)
  with rest show ?case by simp
qed simp

lemma seed_is_default: "seed_products = defaultProducts"
  by (simp add: seed_products_def defaultProducts_def)

lemma seed_undone:
  assumes "run_file seed_up d = Ok d'"
  shows "run_file seed_down d' = Ok d"
proof -
  let ?ids = "[''prod-001'', ''prod-002'', ''prod-003'', ''prod-004'', ''prod-005'']"
  obtain ps ps' where ps: "db_products d = Some ps" "insert_rows seed_products ps = Ok ps'"
    "d' = d\<lparr>db_products := Some ps'\<rparr>"
    using assms by (auto simp: seed_up_def split: option.splits outcome.splits)
  have ids: "set ?ids = ID ` set seed_products" by (simp add: seed_products_def)
  note rows = insert_rows_Ok [OF ps(2)]
  have "filter (\<lambda>p. ID p \<notin> ID ` set seed_products) ps = ps"
    using rows by (intro filter_True) (metis imageE image_eqI)
  moreover have "filter (\<lambda>p. ID p \<notin> ID ` set seed_products) seed_products = []"
    by (intro filter_False) simp
  ultimately have "filter (\<lambda>p. ID p \<notin> set ?ids) ps' = ps"
    using rows by (simp only: ids filter_append append_Nil2)
  then have "exec_ddl (DeleteProducts ?ids) d' = Ok (d'\<lparr>db_products := Some ps\<rparr>)"
    by (simp only: exec_ddl.simps) (simp add: ps(3))
  moreover have "d'\<lparr>db_products := Some ps\<rparr> = d" using ps(1,3) by simp
  ultimately show ?thesis by (simp add: seed_down_def)
qed

lemma products_undone: "run_file products_up d = Ok d' \<Longrightarrow> run_file products_down d' = Ok d"
  by (auto simp: products_up_def products_down_def split: option.splits)

lemma outbox_undone: "run_file outbox_up d = Ok d' \<Longrightarrow> run_file outbox_down d' = Ok d"
  by (auto simp: outbox_up_def outbox_down_def split: option.splits if_splits)

lemma seed_inserted: "insert_rows seed_products [] = Ok seed_products"
  by (simp add: seed_products_def check_constraints_def unique_constraints_def word_sless_alt)

text \<open>
  C24: the migrations fit the program and each other. Applied in order to a database without the
  tables, the up files succeed and leave the tables the program works on, with exactly the products
  that the in-memory repository starts with, a catalogue in order, and an empty outbox: what the
  theorems on the deployed program start from. Whatever the program has stored since, the down
  files, last version first, succeed and leave no table. And each down file undoes its up file on
  any database on which that succeeds, whatever else is in it.
\<close>

theorem migrations_fit:
  "run_files (map fst migrations) no_tables = Ok (migrated \<lparr>tb_products = products im_default, tb_outbox = []\<rparr>) \<and>
   catalogue_ok (products im_default) \<and>
   (\<forall>t. run_files (map snd (rev migrations)) (migrated t) = Ok no_tables) \<and>
   (\<forall>up down d d'. (up, down) \<in> set migrations \<longrightarrow> run_file up d = Ok d' \<longrightarrow> run_file down d' = Ok d)"
proof (intro conjI)
  have start: "products im_default = seed_products" by (simp add: seed_is_default)
  show "run_files (map fst migrations) no_tables =
      Ok (migrated \<lparr>tb_products = products im_default, tb_outbox = []\<rparr>)"
    unfolding start
    by (simp add: migrations_def no_tables_def migrated_def products_up_def seed_up_def outbox_up_def seed_inserted)
  show "catalogue_ok (products im_default)" using im_inv_default by (simp add: im_inv_def)
  show "\<forall>t. run_files (map snd (rev migrations)) (migrated t) = Ok no_tables"
    by (simp add: migrations_def no_tables_def migrated_def products_down_def seed_down_def outbox_down_def)
  show "\<forall>up down d d'. (up, down) \<in> set migrations \<longrightarrow> run_file up d = Ok d' \<longrightarrow> run_file down d' = Ok d"
    using products_undone seed_undone outbox_undone by (auto simp: migrations_def)
qed

theorem migrations_fit_witness:
  "\<exists>d. run_file seed_up \<lparr>db_products = Some [], db_outbox = None, db_pending_index = False\<rparr> = Ok d \<and>
     run_file seed_down d = Ok \<lparr>db_products = Some [], db_outbox = None, db_pending_index = False\<rparr>"
proof -
  let ?d = "\<lparr>db_products = Some [], db_outbox = None, db_pending_index = False\<rparr>"
  have up: "run_file seed_up ?d = Ok (?d\<lparr>db_products := Some seed_products\<rparr>)"
    by (simp add: seed_up_def seed_inserted)
  have "(seed_up, seed_down) \<in> set migrations" by (simp add: migrations_def)
  with migrations_fit up have "run_file seed_down (?d\<lparr>db_products := Some seed_products\<rparr>) = Ok ?d" by blast
  with up show ?thesis by blast
qed

end
