(* ===== verification/Concurrent_System.thy ===== *)
theory Concurrent_System
  imports Concurrent_Stack Outbox
begin

section \<open>Requests and publishers at the same time\<close>

text \<open>
  The whole program as it is deployed: goroutines that serve requests over the cache over
  PostgreSQL and, beside them, publishers of the outbox, interleaved in any way between any two
  calls to Redis, to the database and to Kafka. There is one publisher in a process and one
  process per replica, so there may be several; nothing keeps them from the same rows.
\<close>

subsection \<open>A body that sees a part of the state\<close>

primrec on_part :: "('t \<Rightarrow> 's) \<Rightarrow> ('s \<Rightarrow> 't \<Rightarrow> 't) \<Rightarrow> ('a \<Rightarrow> 'b) \<Rightarrow> ('s, 'a) body \<Rightarrow> ('t, 'b) body" where
  "on_part view upd ans (Return a) = Return (ans a)"
| "on_part view upd ans (Access f) =
     Access (\<lambda>t. case map_prod (on_part view upd ans) id (f (view t)) of (b, s) \<Rightarrow> (b, upd s t))"

subsection \<open>What a goroutine relies on of the others\<close>

text \<open>Each call of the body moves the state by \<open>G\<close>, from whatever state it starts.\<close>

primrec guarantees :: "('s \<Rightarrow> 's \<Rightarrow> bool) \<Rightarrow> ('s, 'a) body \<Rightarrow> bool" where
  "guarantees G (Return a) = True"
| "guarantees G (Access f) = (\<forall>s. case map_prod (guarantees G) id (f s) of (k, s') \<Rightarrow> k \<and> G s s')"

text \<open>
  A body that keeps \<open>I\<close> and moves the state by \<open>R\<close> at each call, and returns a \<open>Q\<close>, as long as the
  others keep \<open>I\<close> and move the state by \<open>R\<close> only; \<open>s\<close> is a state it has seen.
\<close>

primrec secures :: "('s \<Rightarrow> 's \<Rightarrow> bool) \<Rightarrow> ('s \<Rightarrow> bool) \<Rightarrow> ('a \<Rightarrow> bool) \<Rightarrow> ('s, 'a) body \<Rightarrow> 's \<Rightarrow> bool" where
  "secures R I Q (Return a) = (\<lambda>s. Q a)"
| "secures R I Q (Access f) = (\<lambda>s. \<forall>s1. R s s1 \<longrightarrow> I s1 \<longrightarrow>
     (case map_prod (secures R I Q) id (f s1) of (k, s') \<Rightarrow> k s' \<and> R s1 s' \<and> I s'))"

lemma guarantees_Access:
  "guarantees G (Access f) \<longleftrightarrow> (\<forall>s b s'. f s = (b, s') \<longrightarrow> guarantees G b \<and> G s s')"
proof -
  have "(case map_prod (guarantees G) id (f s) of (k, s') \<Rightarrow> k \<and> G s s') =
      (guarantees G (fst (f s)) \<and> G s (snd (f s)))" for s
    by (cases "f s") simp
  then show ?thesis by (simp add: prod_eq_iff)
qed

lemma secures_Access:
  "secures R I Q (Access f) s \<longleftrightarrow> (\<forall>s1 b s'. R s s1 \<longrightarrow> I s1 \<longrightarrow> f s1 = (b, s') \<longrightarrow>
     secures R I Q b s' \<and> R s1 s' \<and> I s')"
proof -
  have "(case map_prod (secures R I Q) id (f s1) of (k, s') \<Rightarrow> k s' \<and> R s1 s' \<and> I s') =
      (secures R I Q (fst (f s1)) (snd (f s1)) \<and> R s1 (snd (f s1)) \<and> I (snd (f s1)))" for s1
    by (cases "f s1") simp
  then show ?thesis by (simp add: prod_eq_iff)
qed

declare guarantees.simps(2) [simp del] secures.simps(2) [simp del] on_part.simps(2) [simp del]

lemma guaranteesI:
  "(\<And>s b s'. f s = (b, s') \<Longrightarrow> guarantees G b \<and> G s s') \<Longrightarrow> guarantees G (Access f)"
  by (simp add: guarantees_Access)

lemma securesI:
  "(\<And>s1 b s'. R s s1 \<Longrightarrow> I s1 \<Longrightarrow> f s1 = (b, s') \<Longrightarrow> secures R I Q b s' \<and> R s1 s' \<and> I s') \<Longrightarrow>
     secures R I Q (Access f) s"
  by (simp add: secures_Access)

lemma secures_later:
  assumes "transp R" and "secures R I Q b s" and "R s s'"
  shows "secures R I Q b s'"
proof (cases b)
  case (Access f)
  with assms transpD [OF assms(1)] show ?thesis unfolding Access secures_Access by blast
qed (use assms in simp)

text \<open>Goroutines that secure \<open>I\<close> each, with respect to the same \<open>R\<close>, secure it together.\<close>

lemma free_run_secures:
  assumes R: "reflp R" "transp R"
    and "free_step\<^sup>*\<^sup>* (s, bs) (s', bs')" and "I s" and "list_all2 (\<lambda>Q b. secures R I Q b s) Qs bs"
  shows "I s' \<and> R s s' \<and> list_all2 (\<lambda>Q b. secures R I Q b s') Qs bs'"
  using assms(3-)
proof (induction "(s', bs')" arbitrary: s' bs' rule: rtranclp_induct)
  case base
  then show ?case using reflpD [OF R(1)] by blast
next
  case (step y)
  obtain s1 bs1 where y: "y = (s1, bs1)" by force
  with step have I1: "I s1" and R1: "R s s1" and sec: "list_all2 (\<lambda>Q b. secures R I Q b s1) Qs bs1" by auto
  from step.hyps(2) y obtain t f b where t: "t < length bs1" "bs1 ! t = Access f" "f s1 = (b, s')" "bs' = bs1[t := b]"
    by (auto elim: free_stepE)
  have len: "length Qs = length bs1" by (rule list_all2_lengthD [OF sec])
  have "secures R I (Qs ! t) (Access f) s1" using list_all2_nthD2 [OF sec t(1)] t(2) by simp
  then have here: "secures R I (Qs ! t) b s'" "R s1 s'" "I s'"
    using t(3) I1 reflpD [OF R(1)] unfolding secures_Access by blast+
  have "secures R I (Qs ! u) (bs' ! u) s'" if u: "u < length bs1" for u
  proof (cases "u = t")
    case True
    with here t show ?thesis by simp
  next
    case False
    with secures_later [OF R(2) list_all2_nthD2 [OF sec u] here(2)] t(4) show ?thesis by simp
  qed
  then have "list_all2 (\<lambda>Q b. secures R I Q b s') Qs bs'"
    using len t(4) by (simp add: list_all2_conv_all_nth)
  with here transpD [OF R(2) R1] show ?case by blast
qed

text \<open>A body over a part of the state secures the whole, from what it does to the part.\<close>

lemma on_part_secures:
  assumes view: "\<And>s t. view (upd s t) = s"
    and I: "\<And>t. I t \<Longrightarrow> I0 (view t)"
    and I': "\<And>s t. I t \<Longrightarrow> R0 (view t) s \<Longrightarrow> I0 s \<Longrightarrow> I (upd s t)"
  shows "secures R0 I0 Q0 b (view t) \<Longrightarrow> (\<And>a. Q0 a \<Longrightarrow> Q (ans a)) \<Longrightarrow>
    secures (\<lambda>t t'. R0 (view t) (view t')) I Q (on_part view upd ans b) t"
proof (induction b arbitrary: t)
  case (Access f)
  show ?case
    unfolding on_part.simps
  proof (rule securesI, goal_cases)
    case (1 t1 b' t')
    obtain b s where f: "f (view t1) = (b, s)" by force
    with 1(3) have eq: "b' = on_part view upd ans b" "t' = upd s t1" by simp_all
    have sec: "secures R0 I0 Q0 b s" "R0 (view t1) s" "I0 s"
      using Access.prems(1) 1(1) I [OF 1(2)] f unfolding secures_Access by blast+
    have "b \<in> Basic_BNFs.fsts (f (view t1))" using f by (simp add: fsts.intros)
    with Access.IH [of "f (view t1)" b t'] sec view Access.prems(2) eq I' [OF 1(2)] show ?case by simp
  qed
qed simp

text \<open>The same for a body that keeps an invariant of its part and whose calls are known.\<close>

lemma on_part_keeps:
  assumes I: "\<And>t. I t \<Longrightarrow> I0 (view t)"
    and step: "\<And>s t. I t \<Longrightarrow> G (view t) s \<Longrightarrow> I0 s \<Longrightarrow> R t (upd s t) \<and> I (upd s t)"
  shows "keeps I0 Q0 b \<Longrightarrow> guarantees G b \<Longrightarrow> (\<And>a. Q0 a \<Longrightarrow> Q (ans a)) \<Longrightarrow>
    secures R I Q (on_part view upd ans b) t"
proof (induction b arbitrary: t)
  case (Access f)
  show ?case
    unfolding on_part.simps
  proof (rule securesI, goal_cases)
    case (1 t1 b' t')
    obtain b s where f: "f (view t1) = (b, s)" by force
    with 1(3) have eq: "b' = on_part view upd ans b" "t' = upd s t1" by simp_all
    have "keeps I0 Q0 b" "I0 s" "guarantees G b" "G (view t1) s"
      using Access.prems(1,2) I [OF 1(2)] f unfolding keeps_Access guarantees_Access by blast+
    moreover have "b \<in> Basic_BNFs.fsts (f (view t1))" using f by (simp add: fsts.intros)
    ultimately show ?case
      using Access.IH [of "f (view t1)" b t'] Access.prems(3) eq step [OF 1(2)] by simp
  qed
qed simp

lemma on_part_guarantees:
  assumes "\<And>s t. view (upd s t) = s"
  shows "guarantees G b \<Longrightarrow> guarantees (\<lambda>t t'. G (view t) (view t')) (on_part view upd ans b)"
proof (induction b)
  case (Access f)
  show ?case
    unfolding on_part.simps
  proof (rule guaranteesI, goal_cases)
    case (1 t b' t')
    obtain b s where f: "f (view t) = (b, s)" by force
    with 1 have eq: "b' = on_part view upd ans b" "t' = upd s t" by simp_all
    have "guarantees G b" "G (view t) s" using Access.prems f unfolding guarantees_Access by blast+
    moreover have "b \<in> Basic_BNFs.fsts (f (view t))" using f by (simp add: fsts.intros)
    ultimately show ?case using Access.IH [of "f (view t)" b] eq assms by simp
  qed
qed simp

lemma on_part_credits:
  assumes view: "\<And>s t. view (upd s t) = s" and I: "\<And>t. I t \<Longrightarrow> I0 (view t)"
    and S: "\<And>a. S (ans a) \<Longrightarrow> S0 a" and D: "\<And>a g. D0 a g \<Longrightarrow> D (ans a) g"
  shows "credits I0 M S0 D0 b g \<Longrightarrow>
    credits I (\<lambda>d t t'. M d (view t) (view t')) S D (on_part view upd ans b) g"
proof (induction b arbitrary: g)
  case (Return a)
  then show ?case using S D by auto
next
  case (Access f)
  show ?case
    unfolding on_part.simps
  proof (rule creditsI, goal_cases)
    case (1 t b' t')
    obtain b s where f: "f (view t) = (b, s)" by force
    with 1(2) have eq: "b' = on_part view upd ans b" "t' = upd s t" by simp_all
    have fs: "b \<in> Basic_BNFs.fsts (f (view t))" using f by (simp add: fsts.intros)
    from Access.prems I [OF 1(1)] f consider d where "M d (view t) s" "credits I0 M S0 D0 b (g + d)"
      | a where "b = Return a" "\<not> S0 a" unfolding credits_Access by blast
    then show ?case
    proof cases
      case (1 d)
      with Access.IH [of "f (view t)" b "g + d"] fs eq view show ?thesis by (intro disjI1 exI [of _ d]) simp
    next
      case (2 a)
      with eq S show ?thesis by (intro disjI2 exI [of _ "ans a"]) auto
    qed
  qed
qed

lemma on_part_within: "body_within n b \<Longrightarrow> body_within n (on_part view upd ans b)"
proof (induction b arbitrary: n)
  case (Access f)
  obtain m where n: "n = Suc m" using Access.prems by (cases n) simp_all
  have "body_within m (on_part view upd ans (fst (f s)))" for s
    using Access.IH [of "f s" "fst (f s)" m] Access.prems n by (simp add: fsts.intros)
  moreover have "fst (case map_prod (on_part view upd ans) id (f (view t)) of (b, s) \<Rightarrow> (b, upd s t)) =
      on_part view upd ans (fst (f (view t)))" for t
    by (cases "f (view t)") simp
  ultimately show ?case by (simp add: n on_part.simps)
qed simp

subsection \<open>The publisher, call by call\<close>

text \<open>The loop of \<open>publishBatch\<close> over the fetched events; \<open>next\<close> is what the publisher does after it.\<close>

primrec publish_body ::
  "('d, 'k) publisher \<Rightarrow> 'k kafka_writer \<Rightarrow> context_err \<Rightarrow> outbox_event list \<Rightarrow> ('d \<times> 'k, 'a) body \<Rightarrow>
     ('d \<times> 'k, 'a) body"
where
  "publish_body p w ctx [] next = next"
| "publish_body p w ctx (ev # evs) next =
     Access (\<lambda>(d, k).
       (case producer_PublishRaw w ctx (pe_Topic ev) (pe_MessageKey ev) (pe_EventType ev) (pe_ID ev)
               (pe_Payload ev) k of
          (Some e, k) \<Rightarrow>
            (Access (\<lambda>(d, k). (publish_body p w ctx evs next, (markFailed p ctx (pe_ID ev) e d, k))), (d, k))
        | (None, k) \<Rightarrow>
            (Access (\<lambda>(d, k). (publish_body p w ctx evs next, (markSent p ctx (pe_ID ev) d, k))), (d, k))))"

definition batch_body ::
  "('d, 'k) publisher \<Rightarrow> context_err \<Rightarrow> ('d \<times> 'k, unit result option) body \<Rightarrow> ('d \<times> 'k, unit result option) body"
where
  "batch_body p ctx next =
     Access (\<lambda>(d, k).
       (case fetchPending p ctx d of
          (Err e, d) \<Rightarrow> (next, (d, k))
        | (Panic m, d) \<Rightarrow> (Return (Some (Panic m)), (d, k))
        | (Ok evs, d) \<Rightarrow>
            (case pub_producer p of
               None \<Rightarrow>
                 if evs = [] then (next, (d, k))
                 else (Return (Some (Panic ''invalid memory address or nil pointer dereference'')), (d, k))
             | Some w \<Rightarrow> (publish_body p w ctx evs next, (d, k)))))"

text \<open>\<open>Run\<close>: an error of a batch is logged and the loop goes on.\<close>

primrec publisher_body ::
  "('d, 'k) publisher \<Rightarrow> context_err \<Rightarrow> branch list \<Rightarrow> ('d \<times> 'k, unit result option) body"
where
  "publisher_body p ctx [] = Return None"
| "publisher_body p ctx (b # bs) =
     (case b of
        Done \<Rightarrow> Return (Some (Ok ()))
      | Tick \<Rightarrow> batch_body p ctx (publisher_body p ctx bs))"

text \<open>Alone, a publisher does what \<open>publisher_Run\<close> says.\<close>

lemma publish_body_run:
  "run_body (publish_body p w ctx evs next) dk = run_body next (publish_all p w ctx evs dk)"
  by (induction p w ctx evs dk rule: publish_all.induct)
     (auto simp: run_body_Access split: prod.split option.split)

lemma publisher_body_run: "run_body (publisher_body p ctx bs) dk = publisher_Run p ctx bs dk"
proof (induction p ctx bs dk rule: publisher_Run.induct)
  case (3 p ctx bs dk)
  obtain d k where dk: "dk = (d, k)" by force
  show ?case
  proof (cases "publishBatch p ctx dk")
    case (fields a d' k')
    then show ?thesis using 3 dk
      by (cases a) (auto simp: publishBatch_def batch_body_def publish_body_run run_body.simps split: prod.splits outcome.splits option.splits if_splits)
  qed
qed simp_all

lemma body_within_mono: "body_within m b \<Longrightarrow> m \<le> n \<Longrightarrow> body_within n b"
proof (induction m b arbitrary: n rule: body_within.induct)
  case (3 m f)
  then show ?case by (cases n) auto
qed simp_all

subsection \<open>What the requests do to the tables\<close>

lemma stack_code_guarantees:
  assumes refl: "\<And>s. G s s" and call: "\<And>s a s'. as_response call (cd_next c) s = (a, s') \<Longrightarrow> G s s'"
  shows "guarantees (\<lambda>x y. G (fst x) (fst y)) (stack_code c call)"
proof -
  let ?G = "\<lambda>x y :: _ \<times> 'b. G (fst x) (fst y)"
  have scan: "guarantees ?G (scan_body c ctx p)" for ctx p
    by (auto simp: scan_body_def guarantees_Access refl split: prod.splits option.splits)
  have writes: "guarantees ?G (invalidating c ctx key act)"
    if "\<And>s a ms s'. act s = (a, ms, s') \<Longrightarrow> G s s'" for ctx key act
    unfolding invalidating_def
  proof (rule guaranteesI, goal_cases)
    case (1 sr b sr')
    obtain s r where sr: "sr = (s, r)" by force
    obtain a ms s1 where act: "act s = (a, ms, s1)" by (metis prod_cases3)
    with 1 sr that [OF act] show ?case
      by (cases a) (auto simp: guarantees_Access scan refl split: option.splits)
  qed
  show ?thesis
  proof (cases call)
    case (CallList ctx l off)
    then show ?thesis using call refl
      by (fastforce simp: cached_List_body_def guarantees_Access split: prod.splits outcome.splits option.splits)
  next
    case (CallGetByID ctx i)
    then show ?thesis using call refl
      by (fastforce simp: cached_GetByID_body_def guarantees_Access split: prod.splits outcome.splits option.splits)
  qed (use call in \<open>auto intro!: writes split: prod.splits\<close>)
qed

text \<open>From one table state to another by announced changes of products, or not at all.\<close>

definition by_changes :: "tables \<Rightarrow> tables \<Rightarrow> bool" where
  "by_changes t t' \<longleftrightarrow>
     (\<forall>P. kept_by_changes P \<longrightarrow> catalogue_ok (tb_products t) \<and> P t \<longrightarrow> catalogue_ok (tb_products t') \<and> P t')"

lemma by_changes_refl [simp]: "by_changes t t"
  by (simp add: by_changes_def)

lemma by_changesD:
  "by_changes t t' \<Longrightarrow> kept_by_changes P \<Longrightarrow> catalogue_ok (tb_products t) \<Longrightarrow> P t \<Longrightarrow> P t'"
  unfolding by_changes_def by blast

context sql_engine
begin

lemma as_response_by_changes:
  assumes args: "call_args_ok call" and run: "as_response call (pg_repo db) d = (a, d')"
  shows "by_changes (committed d) (committed d')"
  unfolding by_changes_def
proof (intro allI impI)
  fix P assume kept: "kept_by_changes P" and inv: "catalogue_ok (stored d) \<and> P (committed d)"
  let ?I = "\<lambda>d. catalogue_ok (stored d) \<and> P (committed d)"
  have page: "?I d'" if "runs_safe ?I E Q m" "m d = (r, ms, d')" for E Q ms and r :: "product list result" and m
    using runs_safeD [OF that(1) inv that(2)] by blast
  have one: "?I d'" if "runs_safe ?I E Q m" "m d = (r, ms, d')" for E Q ms and r :: "product result" and m
    using runs_safeD [OF that(1) inv that(2)] by blast
  note safe = pg_kept_safe [OF kept]
  show "?I d'"
  proof (cases call)
    case (CallList ctx l off)
    with run obtain r ms where "repo_List (pg_repo db) ctx l off d = (r, ms, d')"
      by (auto split: prod.splits)
    with args CallList show ?thesis by (intro page [OF safe_repository.List_safe [OF safe]]) auto
  next
    case (CallGetByID ctx i)
    with run obtain r ms where "repo_GetByID (pg_repo db) ctx i d = (r, ms, d')"
      by (auto split: prod.splits)
    then show ?thesis by (rule one [OF safe_repository.GetByID_safe [OF safe]])
  next
    case (CallCreate ctx c)
    with run obtain r ms where "repo_Create (pg_repo db) ctx c d = (r, ms, d')"
      by (auto split: prod.splits)
    with args CallCreate show ?thesis by (intro one [OF safe_repository.Create_safe [OF safe]]) auto
  next
    case (CallUpdate ctx u)
    with run obtain r ms where "repo_Update (pg_repo db) ctx u d = (r, ms, d')"
      by (auto split: prod.splits)
    with args CallUpdate show ?thesis by (intro one [OF safe_repository.Update_safe [OF safe]]) auto
  next
    case (CallUpdateStock ctx i dl)
    with run obtain r ms where "repo_UpdateStock (pg_repo db) ctx i dl d = (r, ms, d')"
      by (auto split: prod.splits)
    then show ?thesis by (rule one [OF safe_repository.UpdateStock_safe [OF safe]])
  qed
qed

end

subsection \<open>The rows that others leave\<close>

lemma same_row_trans: "same_row x y \<Longrightarrow> same_row y z \<Longrightarrow> same_row x z"
  by (simp add: same_row_def)

lemma keeps_rows_refl [simp]: "keeps_rows rs rs"
  unfolding keeps_rows_def by (rule exI [of _ rs], rule exI [of _ "[]"]) (simp add: list.rel_refl)

lemma keeps_rows_trans:
  assumes "keeps_rows a b" and "keeps_rows b c"
  shows "keeps_rows a c"
proof -
  from assms obtain xs ys us vs where b: "b = xs @ ys" "list_all2 same_row a xs"
    and c: "c = us @ vs" "list_all2 same_row b us" unfolding keeps_rows_def by blast
  from c(2) b(1) obtain u1 u2 where u: "us = u1 @ u2" "list_all2 same_row xs u1"
    by (auto simp: list_all2_append1)
  have "list_all2 same_row a u1" by (rule list_all2_trans [OF same_row_trans b(2) u(2)])
  with u(1) c(1) show ?thesis unfolding keeps_rows_def by (intro exI [of _ u1] exI [of _ "u2 @ vs"]) simp
qed

lemma keeps_rows_append: "keeps_rows a b \<Longrightarrow> keeps_rows a (b @ c)"
  unfolding keeps_rows_def by (metis append.assoc)

lemma keeps_rows_kept: "kept_by_changes (\<lambda>t. keeps_rows rs (tb_outbox t))"
  by (auto simp: kept_by_changes_def changed_to_def keeps_rows_append)

lemma keeps_rows_fetched:
  assumes "keeps_rows rs rs'" and "r \<in> set rs"
  shows "\<exists>r' \<in> set rs'. fetched jsonb r' = fetched jsonb r"
proof -
  from assms(1) obtain xs ys where xs: "rs' = xs @ ys" "list_all2 same_row rs xs" unfolding keeps_rows_def by blast
  from list_all2_in_set [OF xs(2) assms(2)] obtain r' where "r' \<in> set xs" "same_row r r'" by blast
  with xs(1) show ?thesis by (auto simp: fetched_def same_row_def intro!: bexI [of _ r'])
qed

subsection \<open>A publisher beside anything that keeps the rows\<close>

text \<open>How a publisher ends: its context is done, or the list of branches is used up.\<close>

definition ended :: "unit result option \<Rightarrow> bool" where
  "ended x \<longleftrightarrow> x = None \<or> x = Some (Ok ())"

context outbox_publishing
begin

text \<open>What a publisher relies on: rows stay with their content, and the log only grows.\<close>

definition rely :: "'d \<times> 'k \<Rightarrow> 'd \<times> 'k \<Rightarrow> bool" where
  "rely s s' \<longleftrightarrow> keeps_rows (tb_outbox (committed (fst s))) (tb_outbox (committed (fst s'))) \<and>
     set (log (snd s)) \<subseteq> set (log (snd s'))"

lemma rely_refl: "reflp rely"
  by (rule reflpI) (simp add: rely_def)

lemma rely_trans: "transp rely"
  by (rule transpI) (auto simp: rely_def intro: keeps_rows_trans)

lemma rely_marks: "same_content (committed d) (committed d') \<Longrightarrow> rely (d, k) (d', k)"
  unfolding rely_def same_content_def keeps_rows_def by auto

lemma system_inv_same:
  assumes "system_inv base (d, k)" and same: "same_content (committed d) (committed d')" and "pub_inv (d', k')"
  shows "system_inv base (d', k')"
  using assms(1,3) same_content_tells [OF same, of base] same
  by (simp add: system_inv_def same_content_def)

lemma system_inv_log:
  "system_inv base (d, k) \<Longrightarrow> set (log k) \<subseteq> set (log k') \<Longrightarrow> system_inv base (d, k')"
  by (rule system_inv_same) (auto simp: system_inv_def pub_inv_def intro: sent_delivered_mono)

lemma system_inv_markFailed:
  "system_inv base (d, k) \<Longrightarrow> system_inv base (markFailed pub ctx i e d, k)"
  by (rule system_inv_same [OF _ marks_same_content(2)])
     (auto simp: system_inv_def pub_inv_def marks_outbox_ok markFailed_delivered)

lemma system_inv_markSent:
  assumes "system_inv base (d, k)" and "r \<in> set (tb_outbox (committed d))" and "message_of jsonb r \<in> set (log k)"
  shows "system_inv base (markSent pub ctx (oID r) d, k)"
  by (rule system_inv_same [OF assms(1) marks_same_content(1)])
     (use assms in \<open>simp add: system_inv_def pub_inv_def marks_outbox_ok markSent_delivered\<close>)

lemma publish_log:
  assumes "producer_PublishRaw w ctx (pe_Topic (fetched jsonb r)) (pe_MessageKey (fetched jsonb r))
      (pe_EventType (fetched jsonb r)) (pe_ID (fetched jsonb r)) (pe_Payload (fetched jsonb r)) k = (x, k')"
  shows "set (log k) \<subseteq> set (log k')" "x = None \<Longrightarrow> message_of jsonb r \<in> set (log k')"
proof -
  have send: "WriteMessages w ctx (message_of jsonb r) k = (x, k')"
    using assms by (simp add: producer_PublishRaw_def fetched_def message_of_def)
  show "set (log k) \<subseteq> set (log k')"
    using send write_ok [of ctx _ k k'] write_err [of ctx _ k _ k'] by (cases x) fastforce+
  assume "x = None"
  with send write_ok obtain n where "n > 0" "log k' = log k @ replicate n (message_of jsonb r)" by blast
  then show "message_of jsonb r \<in> set (log k')" by simp
qed

lemma mark_secures:
  assumes rest: "\<And>s'. rely s s' \<Longrightarrow> secures rely (system_inv base) Q next s'"
    and same: "\<And>d. same_content (committed d) (committed (mark d))"
    and inv: "\<And>d k. rely s (d, k) \<Longrightarrow> system_inv base (d, k) \<Longrightarrow> system_inv base (mark d, k)"
  shows "secures rely (system_inv base) Q (Access (\<lambda>(d, k). (next, (mark d, k)))) s"
proof (rule securesI, goal_cases)
  case (1 s1 b s2)
  obtain d k where s1: "s1 = (d, k)" by force
  with 1(3) have s2: "s2 = (mark d, k)" "b = next" by simp_all
  have "rely s1 s2" unfolding s1 s2 by (rule rely_marks [OF same])
  moreover from this have "rely s s2" using transpD [OF rely_trans 1(1)] by blast
  ultimately show ?case using rest inv [of d k] 1(1,2) s1 s2 by simp
qed

lemma publish_body_secures:
  assumes next_one: "\<And>s. secures rely (system_inv base) Q next s"
  shows "\<forall>ev \<in> set evs. \<exists>r \<in> set (tb_outbox (committed (fst s))). ev = fetched jsonb r \<Longrightarrow>
    secures rely (system_inv base) Q (publish_body pub w ctx evs next) s"
proof (induction evs arbitrary: s)
  case (Cons ev evs)
  have later: "\<exists>r \<in> set (tb_outbox (committed (fst s'))). ev' = fetched jsonb r"
    if "rely s s'" "ev' \<in> set (ev # evs)" for s' ev'
  proof -
    from Cons.prems that(2) obtain r where r: "r \<in> set (tb_outbox (committed (fst s)))" "ev' = fetched jsonb r" by blast
    from keeps_rows_fetched [OF _ r(1)] that(1) r(2) show ?thesis unfolding rely_def by metis
  qed
  show ?case
    unfolding publish_body.simps
  proof (rule securesI, goal_cases)
    case (1 s1 b s2)
    obtain d k where s1: "s1 = (d, k)" by force
    obtain r where r: "r \<in> set (tb_outbox (committed d))" "ev = fetched jsonb r"
      using later [OF 1(1), of ev] s1 by auto
    obtain x k' where raw: "producer_PublishRaw w ctx (pe_Topic ev) (pe_MessageKey ev) (pe_EventType ev)
        (pe_ID ev) (pe_Payload ev) k = (x, k')" by force
    note log = publish_log [OF raw [unfolded r(2)]]
    have s2: "s2 = (d, k')" using 1(3) s1 raw by (cases x) simp_all
    have R: "rely s1 s2" using s1 s2 log(1) by (simp add: rely_def)
    have later2: "rely s s'" if "rely s2 s'" for s'
      using transpD [OF rely_trans transpD [OF rely_trans 1(1) R] that] .
    have rest: "secures rely (system_inv base) Q (publish_body pub w ctx evs next) s'" if "rely s2 s'" for s'
      using later [OF later2 [OF that]] by (intro Cons.IH) simp
    have "secures rely (system_inv base) Q b s2"
    proof (cases x)
      case (Some e)
      then show ?thesis using 1(3) s1 raw mark_secures [OF rest marks_same_content(2) system_inv_markFailed] by auto
    next
      case None
      have "system_inv base (markSent pub ctx (pe_ID ev) d3, k3)"
        if at3: "rely s2 (d3, k3)" "system_inv base (d3, k3)" for d3 k3
      proof -
        obtain r3 where r3: "r3 \<in> set (tb_outbox (committed d3))" "ev = fetched jsonb r3"
          using later [OF later2 [OF at3(1)], of ev] by auto
        then have "message_of jsonb r3 = message_of jsonb r" "pe_ID ev = oID r3"
          using r(2) by (simp_all add: fetched_def message_of_def)
        with r3(1) log(2) [OF None] at3 s2 show ?thesis by (auto simp: rely_def system_inv_markSent)
      qed
      with None show ?thesis using 1(3) s1 raw mark_secures [OF rest marks_same_content(1)] by auto
    qed
    with R 1(2) s1 s2 system_inv_log log(1) show ?case by blast
  qed
qed (simp add: next_one)

lemma fetched_rows:
  assumes "fetchPending pub ctx d = (Ok evs, d')"
  shows "\<forall>ev \<in> set evs. \<exists>r \<in> set (tb_outbox (committed d')). ev = fetched jsonb r" "length evs \<le> 100"
proof -
  let ?pending = "filter (\<lambda>r. oStatus r = ''pending'') (tb_outbox (committed d))"
  note ok = fetchPending_ok [OF assms]
  have "set (by_time ?pending) = read_back jsonb ` set ?pending"
    using mset_eq_setD [OF by_time_mset] by simp
  then show "\<forall>ev \<in> set evs. \<exists>r \<in> set (tb_outbox (committed d')). ev = fetched jsonb r"
    using ok by (fastforce dest!: in_set_takeD simp: fetched_read_back)
  show "length evs \<le> 100" using ok by simp
qed

lemma publisher_body_secures: "secures rely (system_inv base) ended (publisher_body pub ctx bs) s"
proof (induction bs arbitrary: s)
  case (Cons b bs)
  show ?case
  proof (cases b)
    case Tick
    show ?thesis
      unfolding Tick publisher_body.simps branch.simps batch_body_def
    proof (rule securesI, goal_cases)
      case (1 s1 b' s2)
      obtain d k where s1: "s1 = (d, k)" by force
      obtain a d' where f: "fetchPending pub ctx d = (a, d')" by force
      have s2: "s2 = (d', k)" using 1(3) s1 f by (cases a) (auto simp: NewPublisher_def)
      have same: "committed d' = committed d" by (rule fetchPending_frame [OF f])
      have "secures rely (system_inv base) ended b' s2"
      proof (cases a)
        case (Ok evs)
        with 1(3) s1 f have "b' = publish_body pub w ctx evs (publisher_body pub ctx bs)"
          by (simp add: NewPublisher_def)
        moreover have "\<forall>ev \<in> set evs. \<exists>r \<in> set (tb_outbox (committed (fst s2))). ev = fetched jsonb r"
          using fetched_rows(1) f Ok s2 by simp
        ultimately show ?thesis using publish_body_secures [OF Cons.IH] by blast
      next
        case (Err e)
        with 1(3) s1 f Cons.IH show ?thesis by simp
      next
        case (Panic m)
        with f fetchPending_no_panic show ?thesis by simp
      qed
      moreover have "rely s1 s2" using s1 s2 same by (simp add: rely_def)
      moreover have "system_inv base s2"
        using 1(2) s1 s2 same by (simp add: system_inv_def pub_inv_def)
      ultimately show ?case by blast
    qed
  qed (simp add: ended_def)
qed (simp add: ended_def)

text \<open>A publisher does not touch the products.\<close>

abbreviation same_products :: "'d \<times> 'k \<Rightarrow> 'd \<times> 'k \<Rightarrow> bool" where
  "same_products s s' \<equiv> tb_products (committed (fst s')) = tb_products (committed (fst s))"

lemma publish_body_guarantees:
  assumes "guarantees same_products next"
  shows "guarantees same_products (publish_body pub w ctx evs next)"
proof (induction evs)
  case (Cons ev evs)
  have mark: "guarantees same_products (Access (\<lambda>(d, k). (publish_body pub w ctx evs next, (mark d, k))))"
    if "\<And>d. same_content (committed d) (committed (mark d))" for mark
    by (rule guaranteesI) (use Cons.IH that in \<open>auto simp: same_content_def\<close>)
  show ?case
    unfolding publish_body.simps
    by (rule guaranteesI) (auto intro: mark marks_same_content split: prod.splits option.splits)
qed (simp add: assms)

lemma publisher_body_guarantees: "guarantees same_products (publisher_body pub ctx bs)"
proof (induction bs)
  case (Cons b bs)
  show ?case
  proof (cases b)
    case Tick
    show ?thesis
      unfolding Tick publisher_body.simps branch.simps batch_body_def
    proof (rule guaranteesI, goal_cases)
      case (1 s b' s')
      obtain d k where s: "s = (d, k)" by force
      obtain a d' where f: "fetchPending pub ctx d = (a, d')" by force
      have "committed d' = committed d" by (rule fetchPending_frame [OF f])
      with 1 s f Cons.IH publish_body_guarantees [OF Cons.IH] show ?case
        by (cases a) (auto simp: NewPublisher_def)
    qed
  qed simp
qed simp

text \<open>A tick makes at most a call to fetch, and two for each of a hundred events.\<close>

lemma publish_body_within: "body_within n next \<Longrightarrow> body_within (2 * length evs + n) (publish_body p w' ctx evs next)"
  by (induction evs) (auto split: prod.splits option.splits)

lemma publisher_body_within: "body_within (201 * length bs) (publisher_body pub ctx bs)"
proof (induction bs)
  case (Cons b bs)
  have "body_within (201 * length (b # bs)) (Access f) \<longleftrightarrow> (\<forall>s. body_within (200 + 201 * length bs) (fst (f s)))" for f
    by (simp add: numeral_eq_Suc)
  then show ?case
  proof (cases b)
    case Tick
    have "body_within (200 + 201 * length bs) (publish_body pub w ctx evs (publisher_body pub ctx bs))"
      if "length evs \<le> 100" for evs
      by (rule body_within_mono [OF publish_body_within [OF Cons.IH]]) (use that in simp)
    moreover have "body_within (200 + 201 * length bs) (publisher_body pub ctx bs)"
      by (rule body_within_mono [OF Cons.IH]) simp
    ultimately show ?thesis
      using Tick fetched_rows(2) by (auto simp: numeral_eq_Suc batch_body_def NewPublisher_def split: prod.splits outcome.splits)
  qed simp
qed simp

end

subsection \<open>The goroutines of the system\<close>

text \<open>
  A request sees the database and Redis, a publisher the database and Kafka. The request's answer
  is on the left, the way a publisher ended on the right.
\<close>

definition request_thread ::
  "('d, 'r) cached \<Rightarrow> context_err \<times> request \<Rightarrow> (('d \<times> 'r) \<times> 'k, response + unit result option) body"
where
  "request_thread stack q = on_part fst (\<lambda>s t. (s, snd t)) Inl (stack_request stack q)"

definition publisher_thread ::
  "('d, 'k) publisher \<Rightarrow> context_err \<times> branch list \<Rightarrow> (('d \<times> 'r) \<times> 'k, response + unit result option) body"
where
  "publisher_thread p c =
     on_part (\<lambda>t. (fst (fst t), snd t)) (\<lambda>s t. ((fst s, snd (fst t)), snd s)) Inr (publisher_body p (fst c) (snd c))"

definition system_threads ::
  "('d, 'r) cached \<Rightarrow> ('d, 'k) publisher \<Rightarrow> (context_err \<times> request) list \<Rightarrow> (context_err \<times> branch list) list \<Rightarrow>
     (('d \<times> 'r) \<times> 'k, response + unit result option) body list"
where
  "system_threads stack p qs pubs = map (request_thread stack) qs @ map (publisher_thread p) pubs"

lemma length_system_threads [simp]: "length (system_threads stack p qs pubs) = length qs + length pubs"
  by (simp add: system_threads_def)

text \<open>What a goroutine was granted: the delta of a sale that was answered with a product.\<close>

fun answer_grant :: "string \<Rightarrow> request \<Rightarrow> response + unit result option \<Rightarrow> int" where
  "answer_grant i req (Inl a) = granted i (req, a)"
| "answer_grant i req (Inr u) = 0"

definition thread_grant ::
  "string \<Rightarrow> request \<Rightarrow> (('d \<times> 'r) \<times> 'k, response + unit result option) body \<Rightarrow> int"
where
  "thread_grant i req b = (case b of Return x \<Rightarrow> answer_grant i req x | Access f \<Rightarrow> 0)"

text \<open>What the two kinds return, safely.\<close>

definition answered :: "response + unit result option \<Rightarrow> bool" where
  "answered x = (case x of Inl a \<Rightarrow> good_response a | Inr u \<Rightarrow> False)"

definition stopped :: "response + unit result option \<Rightarrow> bool" where
  "stopped x = (case x of Inl a \<Rightarrow> False | Inr u \<Rightarrow> ended u)"

locale deployed_system =
  outbox_publishing db committed working by_id by_time jsonb w log + redis_store client store unseen left
  for db :: "'d sql_db" and committed working by_id by_time jsonb and w :: "'k kafka_writer" and log
    and client :: "'r redis_client" and store unseen left +
  fixes ttl :: int64

sublocale deployed_system \<subseteq>
  cat: cached_catalogue "pg_repo db" "\<lambda>d. catalogue_ok (stored d)" client store unseen left ttl "\<lambda>d. by_id (stored d)"
  by unfold_locales

context deployed_system
begin

definition whole_inv :: "product set \<Rightarrow> ('d \<times> 'r) \<times> 'k \<Rightarrow> bool" where
  "whole_inv base t \<longleftrightarrow> system_inv base (fst (fst t), snd t) \<and> cat.cinv (fst t)"

abbreviation whole_rely :: "('d \<times> 'r) \<times> 'k \<Rightarrow> ('d \<times> 'r) \<times> 'k \<Rightarrow> bool" where
  "whole_rely t t' \<equiv> rely (fst (fst t), snd t) (fst (fst t'), snd t')"

lemma whole_rely_order: "reflp whole_rely" "transp whole_rely"
proof -
  show "reflp whole_rely" by (rule reflpI) (rule reflpD [OF rely_refl])
  show "transp whole_rely" by (rule transpI) (rule transpD [OF rely_trans])
qed

lemma by_changes_system:
  assumes "system_inv base (d, k)" and "by_changes (committed d) (committed d')"
  shows "system_inv base (d', k)" "rely (d, k) (d', k)"
proof -
  have ok: "catalogue_ok (stored d)" using assms(1) by (simp add: system_inv_def)
  let ?P = "\<lambda>t. outbox_tells base t \<and> outbox_ok t \<and> sent_delivered jsonb t (log k)"
  have "kept_by_changes ?P"
    by (intro kept_conj outbox_tells_kept outbox_ok_kept sent_delivered_kept)
  with assms ok have "catalogue_ok (stored d') \<and> ?P (committed d')"
    unfolding by_changes_def system_inv_def pub_inv_def fst_conv snd_conv by blast
  then show "system_inv base (d', k)" by (simp add: system_inv_def pub_inv_def)
  show "rely (d, k) (d', k)"
    using by_changesD [OF assms(2) keeps_rows_kept ok] by (simp add: rely_def)
qed

lemma whole_inv_start:
  "catalogue_ok (stored d) \<Longrightarrow> tb_outbox (committed d) = [] \<Longrightarrow> store r = Map.empty \<Longrightarrow>
     whole_inv (set (stored d)) ((d, r), k)"
  by (simp add: whole_inv_def cat.cinv_start system_inv_def pub_inv_def outbox_tells_def newest_row_def outbox_ok_def
      sent_delivered_def)

lemma whole_invD:
  assumes "whole_inv base ((d, r), k)"
  shows "catalogue_ok (stored d)" "outbox_tells base (committed d)" "pub_inv (d, k)"
    "\<forall>row \<in> set (tb_outbox (committed d)). oStatus row \<noteq> ''pending'' \<longrightarrow> message_of jsonb row \<in> set (log k)"
  using assms by (simp_all add: whole_inv_def system_inv_def pub_inv_def sent_delivered_def)

abbreviation product_changes :: "'d \<times> 'r \<Rightarrow> 'd \<times> 'r \<Rightarrow> bool" where
  "product_changes s s' \<equiv> by_changes (committed (fst s)) (committed (fst s'))"

lemma stack_request_guarantees:
  assumes "offset_in_range (snd q)"
  shows "guarantees product_changes (stack_request cat.stack q)"
proof -
  obtain a ms calls where rec: "svc_step (service_of recorder) q [] = (a, ms, calls)" by (metis prod_cases3)
  show ?thesis
  proof (cases calls)
    case (Cons call cs)
    then have "call_args_ok call" using recorded_args rec assms by blast
    then have "guarantees product_changes (stack_code cat.stack call)"
      by (intro stack_code_guarantees) (auto intro: as_response_by_changes)
    with rec Cons show ?thesis by (simp add: stack_request_def)
  qed (use rec in \<open>simp add: stack_request_def\<close>)
qed

lemma request_thread_secures:
  assumes "offset_in_range (snd q)"
  shows "secures whole_rely (whole_inv base) answered (request_thread cat.stack q) t"
  unfolding request_thread_def
proof (rule on_part_keeps [where ?I0.0 = cat.cinv and G = product_changes])
  show "keeps cat.cinv good_response (stack_request cat.stack q)" by (rule cat.keeps_request [OF assms])
  show "guarantees product_changes (stack_request cat.stack q)" by (rule stack_request_guarantees [OF assms])
  fix s t assume "whole_inv base t" and "product_changes (fst t) s" and "cat.cinv s"
  then show "whole_rely t (s, snd t) \<and> whole_inv base (s, snd t)"
    unfolding whole_inv_def fst_conv snd_conv using by_changes_system by blast
qed (simp_all add: whole_inv_def answered_def)

lemma publisher_thread_secures:
  "secures whole_rely (whole_inv base) stopped (publisher_thread pub c) t"
  unfolding publisher_thread_def
proof (rule on_part_secures [where ?I0.0 = "system_inv base"])
  show "secures rely (system_inv base) ended (publisher_body pub (fst c) (snd c)) (fst (fst t), snd t)"
    by (rule publisher_body_secures)
  fix s t assume "whole_inv base t" and "system_inv base s"
  then show "whole_inv base ((fst s, snd (fst t)), snd s)"
    by (simp add: whole_inv_def cat.cinv_def system_inv_def)
qed (simp_all add: whole_inv_def stopped_def)

lemma system_secures:
  assumes run: "free_step\<^sup>*\<^sup>* (t, system_threads cat.stack pub qs pubs) (t', bs)" and inv: "whole_inv base t"
    and range: "list_all (\<lambda>q. offset_in_range (snd q)) qs"
  shows "whole_inv base t' \<and> length bs = length qs + length pubs \<and>
    (\<forall>u < length qs. \<forall>x. bs ! u = Return x \<longrightarrow> answered x) \<and>
    (\<forall>u < length pubs. \<forall>x. bs ! (length qs + u) = Return x \<longrightarrow> stopped x)"
proof -
  let ?Qs = "replicate (length qs) answered @ replicate (length pubs) stopped"
  let ?sec = "\<lambda>t Q b. secures whole_rely (whole_inv base) Q b t"
  have "list_all2 (?sec t) (replicate (length qs) answered) (map (request_thread cat.stack) qs)"
    using range by (intro list_all2_all_nthI) (simp_all add: request_thread_secures list_all_length)
  moreover have "list_all2 (?sec t) (replicate (length pubs) stopped) (map (publisher_thread pub) pubs)"
    by (intro list_all2_all_nthI) (simp_all add: publisher_thread_secures)
  ultimately have "list_all2 (?sec t) ?Qs (system_threads cat.stack pub qs pubs)"
    unfolding system_threads_def by (rule list_all2_appendI)
  from free_run_secures [OF whole_rely_order run inv this]
  have fin: "whole_inv base t'" "list_all2 (?sec t') ?Qs bs" by blast+
  have len: "length bs = length qs + length pubs" using list_all2_lengthD [OF fin(2)] by simp
  have returns: "(?Qs ! u) x" if "u < length bs" "bs ! u = Return x" for u x
    using list_all2_nthD2 [OF fin(2) that(1)] that(2) by simp
  have "answered x" if "u < length qs" "bs ! u = Return x" for u x
    using returns [of u x] that len by (simp add: nth_append)
  moreover have "stopped x" if "u < length pubs" "bs ! (length qs + u) = Return x" for u x
    using returns [of "length qs + u" x] that len by (simp add: nth_append)
  ultimately show ?thesis using fin(1) len by blast
qed

text \<open>What the goroutines move together is what the requests are granted.\<close>

abbreviation whole_moves :: "string \<Rightarrow> int \<Rightarrow> ('d \<times> 'r) \<times> 'k \<Rightarrow> ('d \<times> 'r) \<times> 'k \<Rightarrow> bool" where
  "whole_moves i g t t' \<equiv> pg.moves i g (fst (fst t)) (fst (fst t'))"

abbreviation settles_as :: "request \<Rightarrow> response + unit result option \<Rightarrow> bool" where
  "settles_as req x \<equiv> \<exists>a. x = Inl a \<and> settled (req, a)"

abbreviation stands_as :: "string \<Rightarrow> request \<Rightarrow> response + unit result option \<Rightarrow> int \<Rightarrow> bool" where
  "stands_as i req x g \<equiv> answer_grant i req x = g"

abbreviation keeps_products :: "('d \<times> 'r) \<times> 'k \<Rightarrow> ('d \<times> 'r) \<times> 'k \<Rightarrow> bool" where
  "keeps_products t t' \<equiv> stored (fst (fst t')) = stored (fst (fst t))"

lemma request_thread_credits:
  "credits (whole_inv base) (whole_moves i) (settles_as (snd q)) (stands_as i (snd q)) (request_thread cat.stack q) 0"
  unfolding request_thread_def
  by (rule on_part_credits [OF _ _ _ _ cat.credits_request [of i q]])
     (auto simp: whole_inv_def thread_grant_def)

lemma publisher_thread_guarantees: "guarantees keeps_products (publisher_thread pub c)"
  unfolding publisher_thread_def
  by (rule on_part_guarantees [where view = "\<lambda>t. (fst (fst t), snd t)" and G = same_products, unfolded fst_conv,
        OF _ publisher_body_guarantees]) simp

lemma sum_list_first:
  assumes "\<And>u. u < length gs \<Longrightarrow> gs ! u = (if u < n then f u else (0 :: int))" and "n \<le> length gs"
  shows "sum_list gs = (\<Sum>u < n. f u)"
proof -
  have "sum_list gs = (\<Sum>u < length gs. if u < n then f u else 0)"
    using assms(1) by (simp add: sum_list_sum_nth atLeast0LessThan)
  also have "\<dots> = (\<Sum>u < n. f u)"
    by (rule sum.mono_neutral_cong_right) (use assms(2) in auto)
  finally show ?thesis .
qed

text \<open>The system's ledger, at any moment when the requests are answered.\<close>

lemma system_moves:
  assumes run: "free_step\<^sup>*\<^sup>* (t, system_threads cat.stack pub qs pubs) (t', bs)" and inv: "whole_inv base t"
    and range: "list_all (\<lambda>q. offset_in_range (snd q)) qs"
    and settled: "\<forall>u < length qs. \<exists>a. bs ! u = Return (Inl a) \<and> settled (snd (qs ! u), a)"
  shows "whole_moves i (\<Sum>u < length qs. thread_grant i (snd (qs ! u)) (bs ! u)) t t'"
proof -
  define T where "T u b g \<longleftrightarrow> (if u < length qs
      then credits (whole_inv base) (whole_moves i) (settles_as (snd (qs ! u))) (stands_as i (snd (qs ! u))) b g
      else g = 0 \<and> guarantees keeps_products b)" for u b g
  let ?S = "\<lambda>u x. length qs \<le> u \<or> settles_as (snd (qs ! u)) x"
  let ?threads = "system_threads cat.stack pub qs pubs"
  have len: "length bs = length qs + length pubs" using system_secures [OF run inv range] by blast
  have start: "\<forall>u < length ?threads. T u (?threads ! u) 0"
    by (simp add: T_def system_threads_def nth_append request_thread_credits publisher_thread_guarantees)
  have call: "(\<exists>d. whole_moves i d s1 s2 \<and> T u b (g + d)) \<or> (\<exists>a. b = Return a \<and> \<not> ?S u a)"
    if "T u (Access f) g" "whole_inv base s1" "f s1 = (b, s2)" for u f g s1 b s2
  proof (cases "u < length qs")
    case True
    with that(1) have "credits (whole_inv base) (whole_moves i) (settles_as (snd (qs ! u))) (stands_as i (snd (qs ! u))) (Access f) g"
      unfolding T_def by simp
    from credits_call [OF this that(2,3)] True show ?thesis unfolding T_def not_le [symmetric] by (simp only: if_True simp_thms)
  next
    case False
    with that(1) have "g = 0" "guarantees keeps_products (Access f)" unfolding T_def by simp_all
    with that(3) have "g = 0" "keeps_products s1 s2" "guarantees keeps_products b"
      unfolding guarantees_Access by blast+
    with False show ?thesis by (intro disjI1 exI [of _ 0]) (simp add: T_def pg.moves_same)
  qed
  have "(\<exists>u < length bs. \<exists>x. bs ! u = Return x \<and> \<not> ?S u x) \<or>
    (\<exists>gs. length gs = length bs \<and> whole_moves i (sum_list gs) t t' \<and> (\<forall>u < length bs. T u (bs ! u) (gs ! u)))"
    by (rule free_run_moves [OF run conjunct1 [OF system_secures [OF _ inv range]] start call])
       (assumption+, rule cat.moves_refl, rule pg.moves_trans)
  moreover have "?S u x" if "bs ! u = Return x" for u x
    using settled that by (cases "u < length qs") fastforce+
  ultimately obtain gs where gs: "length gs = length bs" "whole_moves i (sum_list gs) t t'"
    "\<forall>u < length bs. T u (bs ! u) (gs ! u)" by blast
  have g: "gs ! u = (if u < length qs then thread_grant i (snd (qs ! u)) (bs ! u) else 0)" if "u < length bs" for u
  proof (cases "u < length qs")
    case True
    then obtain a where a: "bs ! u = Return (Inl a)" "settled (snd (qs ! u), a)" using settled by blast
    have "T u (bs ! u) (gs ! u)" using gs(3) that by blast
    with True a show ?thesis by (auto simp: T_def thread_grant_def)
  next
    case False
    have "T u (bs ! u) (gs ! u)" using gs(3) that by blast
    with False show ?thesis by (simp add: T_def)
  qed
  have "sum_list gs = (\<Sum>u < length qs. thread_grant i (snd (qs ! u)) (bs ! u))"
    by (rule sum_list_first) (use g gs(1) len in simp_all)
  with gs(2) show ?thesis by simp
qed

end

interpretation ref_system: deployed_system ref_engine rd_committed rd_working ref_by_id "\<lambda>rs. rs" "\<lambda>s. s"
  ref_writer snd ref_redis_client rr_store rr_unseen rr_left 60
  by unfold_locales

subsection \<open>The deployed system\<close>

lemma system_steps:
  assumes pub: "outbox_publishing db committed working by_id by_time jsonb w log"
    and run: "(free_step ^^ n) (t, system_threads stack (NewPublisher db (Some w)) qs pubs) (t', bs)"
  shows "n \<le> 3 * length qs + 201 * (\<Sum>(ctx, branches) \<leftarrow> pubs. length branches)"
proof -
  let ?ks = "replicate (length qs) 3 @ map (\<lambda>c. 201 * length (snd c)) pubs"
  let ?threads = "system_threads stack (NewPublisher db (Some w)) qs pubs"
  have "body_within (?ks ! u) (?threads ! u)" if "u < length ?threads" for u
    using that outbox_publishing.publisher_body_within [OF pub]
    by (cases "u < length qs")
       (simp_all add: system_threads_def nth_append request_thread_def publisher_thread_def on_part_within stack_request_within)
  then have "n \<le> sum_list ?ks" using free_steps_within [OF run, of ?ks] by simp
  moreover have "(\<Sum>c \<leftarrow> pubs. 201 * length (snd c)) = 201 * (\<Sum>(ctx, branches) \<leftarrow> pubs. length branches)"
    by (induction pubs) auto
  ultimately show ?thesis by (simp add: sum_list_replicate mult.commute)
qed


text \<open>Three requests and two publishers, with faults of all three servers.\<close>

definition two_publishers :: "(context_err \<times> branch list) list" where
  "two_publishers = [(None, [Tick, Tick, Done]), (None, [Tick, Done])]"

lemma ref_stack_eq:
  "ref_stack = \<lparr>cd_cache = \<lparr>cache_client = ref_redis_client, cache_ttl = cache_ttl ref_cache\<rparr>, cd_next = pg_repo ref_engine\<rparr>"
  by (simp add: ref_stack_def)

lemma ref_run_ends:
  "\<exists>n d' r' k' bs. (free_step ^^ n) (((ref_default [NoFault, Fails], empty_redis [Works, Breaks]), ([True], [])),
       system_threads ref_stack (NewPublisher ref_engine (Some ref_writer)) three_requests two_publishers)
         (((d', r'), k'), bs) \<and> (\<nexists>c. free_step (((d', r'), k'), bs) c)"
proof -
  let ?start = "((ref_default [NoFault, Fails], empty_redis [Works, Breaks]), ([True], [] :: kafka_message list))"
  let ?threads = "system_threads ref_stack (NewPublisher ref_engine (Some ref_writer)) three_requests two_publishers"
  have "body_within 603 (request_thread ref_stack q :: ((ref_db \<times> ref_redis) \<times> bool list \<times> kafka_message list, _) body)" for q
    unfolding request_thread_def by (rule on_part_within [OF body_within_mono [OF stack_request_within]]) simp
  moreover have "body_within 603 (publisher_thread (NewPublisher ref_engine (Some ref_writer)) c ::
      ((ref_db \<times> ref_redis) \<times> bool list \<times> kafka_message list, _) body)" if "length (snd c) \<le> 3" for c
    unfolding publisher_thread_def
    by (rule on_part_within [OF body_within_mono [OF ref_pub.publisher_body_within]]) (use that in simp)
  ultimately have "\<forall>u < length ?threads. body_within 603 (?threads ! u)"
    by (auto simp: system_threads_def two_publishers_def nth_append nth_Cons')
  then obtain n c where "(free_step ^^ n) (?start, ?threads) c" "\<nexists>c'. free_step c c'"
    by (rule free_finish)
  then show ?thesis by (metis surj_pair)
qed


subsection \<open>Kafka catches up\<close>

lemma newest_row_in: "newest_row i rs = Some row \<Longrightarrow> row \<in> set rs"
  unfolding newest_row_def find_Some_iff by (metis nth_mem set_rev)



end
